(* ===== verification/Kernel_Prelude.thy ===== *)
theory Kernel_Prelude
  imports Main "HOL-Library.Char_ord" "HOL-Library.List_Lexorder" "HOL-Library.Multiset"
begin

text \<open>
  Shared ground of the development: Go strings as byte lists (the type \<open>string\<close>, a
  \<open>char\<close> being one byte), nil-able slices, fallible results as sums with their bind,
  decimal and hexadecimal rendering, and the list facts about sorting by key and
  prefix-free codes that the component theories use.  The collections
  \<open>kernel_simps\<close> (unfolding of small helpers) and \<open>result_simps\<close> (inversion of
  results) are filled here and by the components.
\<close>

named_theorems kernel_simps
named_theorems result_simps

section \<open>Fallible results\<close>

text \<open>A Go pair of a value and an error is a sum: \<open>Inl\<close> the error, \<open>Inr\<close> the value.\<close>

definition bindR :: "'e + 'a \<Rightarrow> ('a \<Rightarrow> 'e + 'b) \<Rightarrow> 'e + 'b" where
  "bindR r f = (case r of Inl e \<Rightarrow> Inl e | Inr x \<Rightarrow> f x)"

lemma bindR_simps [simp]:
  "bindR (Inl e) f = Inl e"
  "bindR (Inr x) f = f x"
  by (simp_all add: bindR_def)

lemma bindR_cong [fundef_cong]:
  "r = r' \<Longrightarrow> (\<And>x. r' = Inr x \<Longrightarrow> f x = g x) \<Longrightarrow> bindR r f = bindR r' g"
  by (auto simp: bindR_def split: sum.splits)

lemma bindR_eq_Inr [result_simps]:
  "bindR r f = Inr y \<longleftrightarrow> (\<exists>x. r = Inr x \<and> f x = Inr y)"
  by (auto simp: bindR_def split: sum.splits)

lemma bindR_eq_Inl:
  "bindR r f = Inl e \<longleftrightarrow> r = Inl e \<or> (\<exists>x. r = Inr x \<and> f x = Inl e)"
  by (auto simp: bindR_def split: sum.splits)

lemma bindR_assoc: "bindR (bindR r f) g = bindR r (\<lambda>x. bindR (f x) g)"
  by (auto simp: bindR_def split: sum.splits)

text \<open>\<open>guardR b e\<close> is the early return of the error \<open>e\<close> unless \<open>b\<close> holds.\<close>

definition guardR :: "bool \<Rightarrow> 'e \<Rightarrow> 'e + unit" where
  "guardR b e = (if b then Inr () else Inl e)"

lemma guardR_eq [simp, result_simps]:
  "guardR b e = Inr u \<longleftrightarrow> b"
  "guardR b e = Inl e' \<longleftrightarrow> \<not> b \<and> e' = e"
  by (auto simp: guardR_def)

lemma guardR_True [simp]: "guardR True e = Inr ()"
  and guardR_False [simp]: "guardR False e = Inl e"
  by (simp_all add: guardR_def)

text \<open>A loop whose body may return early, over a list with an accumulator.\<close>

fun foldR :: "('s \<Rightarrow> 'a \<Rightarrow> 'e + 's) \<Rightarrow> 's \<Rightarrow> 'a list \<Rightarrow> 'e + 's" where
  "foldR f s [] = Inr s"
| "foldR f s (x # xs) = bindR (f s x) (\<lambda>s'. foldR f s' xs)"

lemma foldR_cong [fundef_cong]:
  "s = s' \<Longrightarrow> xs = xs' \<Longrightarrow> (\<And>s x. x \<in> set xs' \<Longrightarrow> f s x = g s x) \<Longrightarrow> foldR f s xs = foldR g s' xs'"
proof (induction xs arbitrary: s s' xs')
  case (Cons x xs)
  then show ?case by (auto simp: bindR_def split: sum.splits)
qed simp

lemma foldR_append: "foldR f s (xs @ ys) = bindR (foldR f s xs) (\<lambda>s'. foldR f s' ys)"
  by (induction xs arbitrary: s) (auto simp: bindR_def split: sum.splits)

text \<open>Invariants of such a loop: an invariant of the body is an invariant of the loop.\<close>

lemma foldR_invariant:
  assumes "foldR f s xs = Inr s'" "P s"
    and "\<And>s x s'. x \<in> set xs \<Longrightarrow> P s \<Longrightarrow> f s x = Inr s' \<Longrightarrow> P s'"
  shows "P s'"
  using assms
proof (induction xs arbitrary: s)
  case (Cons x xs)
  from Cons.prems(1) obtain t where t: "f s x = Inr t" "foldR f t xs = Inr s'"
    by (auto simp: bindR_eq_Inr)
  have "P t" using Cons.prems(3)[OF _ Cons.prems(2) t(1)] by simp
  then show ?case by (rule Cons.IH[OF t(2)]) (use Cons.prems(3) in auto)
qed simp

text \<open>Mapping a fallible function over a list, stopping at the first error.\<close>

fun mapR :: "('a \<Rightarrow> 'e + 'b) \<Rightarrow> 'a list \<Rightarrow> 'e + 'b list" where
  "mapR f [] = Inr []"
| "mapR f (x # xs) = bindR (f x) (\<lambda>y. bindR (mapR f xs) (\<lambda>ys. Inr (y # ys)))"

lemma mapR_cong [fundef_cong]:
  "xs = ys \<Longrightarrow> (\<And>x. x \<in> set ys \<Longrightarrow> f x = g x) \<Longrightarrow> mapR f xs = mapR g ys"
  by (induction xs arbitrary: ys) auto

lemma mapR_Inr: "mapR f xs = Inr ys \<longleftrightarrow> list_all2 (\<lambda>x y. f x = Inr y) xs ys"
  by (induction xs arbitrary: ys) (auto simp: bindR_eq_Inr list_all2_Cons1)

lemma mapR_length: "mapR f xs = Inr ys \<Longrightarrow> length ys = length xs"
  by (simp add: mapR_Inr list_all2_lengthD)

lemma mapR_total: "(\<And>x. x \<in> set xs \<Longrightarrow> f x = Inr (g x)) \<Longrightarrow> mapR f xs = Inr (map g xs)"
  by (induction xs) auto

section \<open>Nil-able slices\<close>

text \<open>
  A Go slice or map is nil or a value; the two differ in the JSON they become.  \<open>elems\<close>
  is what ranging over it yields.
\<close>

type_synonym 'a slice = "'a list option"

definition elems :: "'a slice \<Rightarrow> 'a list" where
  "elems s = (case s of None \<Rightarrow> [] | Some xs \<Rightarrow> xs)"

lemma elems_simps [simp]: "elems None = []" "elems (Some xs) = xs"
  by (simp_all add: elems_def)

section \<open>Bytes, decimal and hexadecimal rendering\<close>

definition byte :: "char \<Rightarrow> nat" where
  "byte c = of_char c"

definition chr :: "nat \<Rightarrow> char" where
  "chr n = char_of n"

lemma byte_less [simp]: "byte c < 256"
  by (simp add: byte_def)

lemma byte_div_less [simp]: "byte c div 16 < 16"
  using byte_less[of c] by (simp add: div_less_iff_less_mult del: byte_less)

lemma byte_chr [simp]: "n < 256 \<Longrightarrow> byte (chr n) = n"
  by (simp add: byte_def chr_def)

lemma chr_byte [simp]: "chr (byte c) = c"
  by (simp add: byte_def chr_def)

lemma byte_inject [simp]: "byte c = byte d \<longleftrightarrow> c = d"
  by (metis chr_byte)

definition dec_digit :: "nat \<Rightarrow> char" where
  "dec_digit n = chr (48 + n)"

fun dec_of_nat :: "nat \<Rightarrow> string" where
  "dec_of_nat n = (if n < 10 then [dec_digit n] else dec_of_nat (n div 10) @ [dec_digit (n mod 10)])"

declare dec_of_nat.simps [simp del]

text \<open>\<open>itoa\<close> is \<open>strconv.Itoa\<close> (and \<open>FormatInt\<close>, \<open>FormatUint\<close> in base 10).\<close>

definition itoa :: "int \<Rightarrow> string" where
  "itoa i = (if i < 0 then CHR ''-'' # dec_of_nat (nat (- i)) else dec_of_nat (nat i))"

definition is_digit :: "char \<Rightarrow> bool" where
  "is_digit c \<longleftrightarrow> 48 \<le> byte c \<and> byte c \<le> 57"

definition nat_of_dec :: "string \<Rightarrow> nat" where
  "nat_of_dec s = foldl (\<lambda>a c. a * 10 + (byte c - 48)) 0 s"

lemma byte_dec_digit [simp]: "n < 10 \<Longrightarrow> byte (dec_digit n) = 48 + n"
  by (simp add: dec_digit_def)

lemma is_digit_dec_digit [simp]: "n < 10 \<Longrightarrow> is_digit (dec_digit n)"
  by (simp add: is_digit_def)

lemma dec_of_nat_0: "dec_of_nat 0 = ''0''"
proof -
  have "byte (dec_digit 0) = byte (CHR ''0'')" by (simp del: byte_inject) (simp add: byte_def)
  then have "dec_digit 0 = CHR ''0''" by (rule byte_inject[THEN iffD1])
  then show ?thesis by (simp add: dec_of_nat.simps)
qed

lemma dec_of_nat_digits: "c \<in> set (dec_of_nat n) \<Longrightarrow> is_digit c"
proof (induction n rule: dec_of_nat.induct)
  case (1 n)
  then show ?case by (auto simp: dec_of_nat.simps[of n] split: if_splits)
qed

lemma dec_of_nat_nonempty [simp]: "dec_of_nat n \<noteq> []"
  by (subst dec_of_nat.simps) auto

lemma nat_of_dec_snoc [simp]: "nat_of_dec (s @ [c]) = nat_of_dec s * 10 + (byte c - 48)"
  by (simp add: nat_of_dec_def)

lemma nat_of_dec_of_nat [simp]: "nat_of_dec (dec_of_nat n) = n"
proof (induction n rule: dec_of_nat.induct)
  case (1 n)
  show ?case
  proof (cases "n < 10")
    case True
    then show ?thesis by (simp add: dec_of_nat.simps[of n] nat_of_dec_def)
  next
    case False
    then show ?thesis using 1 by (simp add: dec_of_nat.simps[of n])
  qed
qed

lemma dec_of_nat_inject [simp]: "dec_of_nat m = dec_of_nat n \<longleftrightarrow> m = n"
  by (metis nat_of_dec_of_nat)

lemma dec_of_nat_head: "is_digit (hd (dec_of_nat n))"
  by (metis dec_of_nat_digits dec_of_nat_nonempty hd_in_set)

text \<open>No leading zero but for zero itself.\<close>

lemma dec_of_nat_no_leading_zero: "n > 0 \<Longrightarrow> hd (dec_of_nat n) \<noteq> CHR ''0''"
proof (induction n rule: dec_of_nat.induct)
  case (1 n)
  show ?case
  proof (cases "n < 10")
    case True
    with 1 have "byte (dec_digit n) \<noteq> 48" by simp
    moreover have "byte (CHR ''0'') = 48" by (simp add: byte_def)
    ultimately have "dec_digit n \<noteq> CHR ''0''" by metis
    then show ?thesis using True by (simp add: dec_of_nat.simps[of n])
  next
    case False
    then show ?thesis using 1 by (simp add: dec_of_nat.simps[of n])
  qed
qed

lemma byte_minus [simp]: "byte (CHR ''-'') = 45"
  by (simp add: byte_def)

lemma not_digit_minus [simp]: "\<not> is_digit (CHR ''-'')"
  by (simp add: is_digit_def byte_def)

lemma itoa_inject [simp]: "itoa i = itoa j \<longleftrightarrow> i = j"
proof
  assume eq: "itoa i = itoa j"
  have h: "hd (dec_of_nat k) \<noteq> CHR ''-''" for k
    using dec_of_nat_head[of k] by (metis not_digit_minus)
  have n: "dec_of_nat k \<noteq> CHR ''-'' # l" for k l
    using h[of k] by auto
  show "i = j"
    using eq n[symmetric] n by (auto simp: itoa_def split: if_splits)
qed simp

lemma itoa_nonempty [simp]: "itoa i \<noteq> []"
  by (simp add: itoa_def)

definition hex_digit :: "nat \<Rightarrow> char" where
  "hex_digit n = (if n < 10 then chr (48 + n) else chr (87 + n))"

lemma hex_digit_inject: "m < 16 \<Longrightarrow> n < 16 \<Longrightarrow> hex_digit m = hex_digit n \<longleftrightarrow> m = n"
proof
  assume b: "m < 16" "n < 16" and e: "hex_digit m = hex_digit n"
  from e have "byte (hex_digit m) = byte (hex_digit n)" by simp
  with b show "m = n" by (auto simp: hex_digit_def simp del: byte_inject split: if_splits)
qed simp

text \<open>Go's \<open>%x\<close> of a byte string: two lower-case digits a byte.\<close>

fun hex :: "string \<Rightarrow> string" where
  "hex [] = []"
| "hex (c # cs) = hex_digit (byte c div 16) # hex_digit (byte c mod 16) # hex cs"

lemma length_hex [simp]: "length (hex s) = 2 * length s"
  by (induction s) auto

lemma hex_digit_ascii: "n < 16 \<Longrightarrow> byte (hex_digit n) < 128"
proof -
  assume "n < 16"
  then have "byte (chr (87 + n)) = 87 + n" "byte (chr (48 + n)) = 48 + n" by simp_all
  with \<open>n < 16\<close> show ?thesis unfolding hex_digit_def by (auto simp del: byte_chr)
qed

lemma hex_ascii: "list_all (\<lambda>c. byte c < 128) (hex s)"
  by (induction s) (simp_all add: hex_digit_ascii)

lemma hex_inject [simp]: "hex s = hex t \<longleftrightarrow> s = t"
proof
  show "hex s = hex t \<Longrightarrow> s = t"
  proof (induction s arbitrary: t)
    case Nil
    then show ?case by (cases t) auto
  next
    case (Cons c s)
    then obtain d t' where t: "t = d # t'" by (cases t) auto
    from Cons.prems t have "byte c div 16 = byte d div 16" "byte c mod 16 = byte d mod 16" "hex s = hex t'"
      by (auto simp: hex_digit_inject)
    then have "byte c = byte d" "s = t'" using Cons.IH by (metis div_mult_mod_eq, blast)
    with t show ?case by simp
  qed
qed simp

text \<open>Go's \<open>%04x\<close> of a value below 65536.\<close>

definition hex4 :: "nat \<Rightarrow> string" where
  "hex4 n = [hex_digit (n div 4096 mod 16), hex_digit (n div 256 mod 16),
             hex_digit (n div 16 mod 16), hex_digit (n mod 16)]"

lemma hex4_inject: "m < 65536 \<Longrightarrow> n < 65536 \<Longrightarrow> hex4 m = hex4 n \<longleftrightarrow> m = n"
proof
  assume b: "m < 65536" "n < 65536" and "hex4 m = hex4 n"
  then have d: "m div 4096 mod 16 = n div 4096 mod 16" "m div 256 mod 16 = n div 256 mod 16"
      "m div 16 mod 16 = n div 16 mod 16" "m mod 16 = n mod 16"
    by (simp_all add: hex4_def hex_digit_inject)
  have s: "k = 4096 * (k div 4096 mod 16) + 256 * (k div 256 mod 16) + 16 * (k div 16 mod 16) + k mod 16"
    if "k < 65536" for k :: nat
  proof -
    have "k div 4096 < 16" using that by (simp add: div_less_iff_less_mult)
    then have "k div 4096 mod 16 = k div 4096" by simp
    moreover have "k = 16 * (k div 16) + k mod 16" by simp
    moreover have "k div 16 = 16 * (k div 256) + k div 16 mod 16"
      using mult_div_mod_eq[of 16 "k div 16"] by (simp add: div_mult2_eq[symmetric])
    moreover have "k div 256 = 16 * (k div 4096) + k div 256 mod 16"
      using mult_div_mod_eq[of 16 "k div 256"] by (simp add: div_mult2_eq[symmetric])
    ultimately show ?thesis by linarith
  qed
  from s[OF b(1)] s[OF b(2)] d show "m = n" by simp
qed simp

lemma length_hex4 [simp]: "length (hex4 n) = 4"
  by (simp add: hex4_def)

section \<open>Sorting by key\<close>

lemma size_list_sort_key [simp]: "size_list f (sort_key k xs) = size_list f xs"
proof -
  have "mset (map f (sort_key k xs)) = mset (map f xs)" by simp
  then have "sum_list (map f (sort_key k xs)) = sum_list (map f xs)"
    by (metis sum_mset_sum_list)
  then show ?thesis by (simp add: size_list_conv_sum_list)
qed

lemma sort_key_perm:
  assumes "mset xs = mset ys" "distinct (map k xs)"
  shows "sort_key k xs = sort_key k ys"
proof (rule properties_for_sort_key)
  show "mset (sort_key k ys) = mset xs" using assms by simp
  show "sorted (map k (sort_key k ys))" by simp
  have d: "distinct (map k zs)" if "mset zs = mset xs" for zs
    using assms(2) that by (metis mset_map mset_eq_imp_distinct_iff)
  have one: "filter (\<lambda>y. k x = k y) zs = [x]" if "distinct (map k zs)" "x \<in> set zs" for x zs
    using that
  proof (induction zs)
    case (Cons z zs)
    then show ?case
      by (auto simp: filter_empty_conv) (metis image_eqI)+
  qed simp
  fix x assume x: "x \<in> set (sort_key k ys)"
  have m: "mset (sort_key k ys) = mset xs" using assms(1) by simp
  have "x \<in> set xs" using x m by (metis set_mset_mset)
  then show "filter (\<lambda>y. k x = k y) (sort_key k ys) = filter (\<lambda>y. k x = k y) xs"
    using one[OF d[OF m] x] one[OF assms(2)] by simp
qed

end
