(* ===== verification/Go_Utf8.thy ===== *)
theory Go_Utf8
  imports Kernel_Prelude
begin

text \<open>
  Go's view of a string as UTF-8 (package \<open>unicode/utf8\<close> and the \<open>range\<close> loop over a
  string), which \<open>canonical.go\<close> uses to refuse invalid text and, in the ASCII flavour, to
  visit a string rune by rune.  The accepted byte ranges are those of the language
  specification: no overlong forms, no surrogates, nothing above U+10FFFF.
\<close>

definition cont_byte :: "char \<Rightarrow> bool" where
  "cont_byte c \<longleftrightarrow> 128 \<le> byte c \<and> byte c < 192"

text \<open>One step of the \<open>range\<close> loop: the first rune and the rest; \<open>None\<close> at an invalid
  sequence (and at the end).\<close>

fun decode_rune :: "string \<Rightarrow> (nat \<times> string) option" where
  "decode_rune [] = None"
| "decode_rune (c0 # cs) =
    (let b0 = byte c0 in
     if b0 < 128 then Some (b0, cs)
     else if b0 < 194 then None
     else if b0 < 224 then
       (case cs of c1 # r \<Rightarrow>
          if cont_byte c1 then Some ((b0 - 192) * 64 + (byte c1 - 128), r) else None
        | _ \<Rightarrow> None)
     else if b0 < 240 then
       (case cs of c1 # c2 # r \<Rightarrow>
          if cont_byte c1 \<and> cont_byte c2 \<and> (b0 = 224 \<longrightarrow> 160 \<le> byte c1) \<and> (b0 = 237 \<longrightarrow> byte c1 < 160)
          then Some ((b0 - 224) * 4096 + (byte c1 - 128) * 64 + (byte c2 - 128), r) else None
        | _ \<Rightarrow> None)
     else if b0 < 245 then
       (case cs of c1 # c2 # c3 # r \<Rightarrow>
          if cont_byte c1 \<and> cont_byte c2 \<and> cont_byte c3
             \<and> (b0 = 240 \<longrightarrow> 144 \<le> byte c1) \<and> (b0 = 244 \<longrightarrow> byte c1 < 144)
          then Some ((b0 - 240) * 262144 + (byte c1 - 128) * 4096 + (byte c2 - 128) * 64 + (byte c3 - 128), r)
          else None
        | _ \<Rightarrow> None)
     else None)"

lemma decode_rune_shorter: "decode_rune s = Some (r, t) \<Longrightarrow> length t < length s"
  by (cases s) (auto simp: Let_def split: if_splits list.splits)

function runes :: "string \<Rightarrow> nat list option" where
  "runes s = (if s = [] then Some []
     else case decode_rune s of None \<Rightarrow> None
          | Some (r, t) \<Rightarrow> map_option ((#) r) (runes t))"
  by pat_completeness auto
termination
  by (relation "measure length") (auto dest: decode_rune_shorter)

declare runes.simps [simp del]

text \<open>\<open>utf8.ValidString\<close>.\<close>

definition valid_string :: "string \<Rightarrow> bool" where
  "valid_string s \<longleftrightarrow> runes s \<noteq> None"

text \<open>The encoder, \<open>utf8.AppendRune\<close> on valid runes.\<close>

definition encode_rune :: "nat \<Rightarrow> string" where
  "encode_rune r =
    (if r < 128 then [chr r]
     else if r < 2048 then [chr (192 + r div 64), chr (128 + r mod 64)]
     else if r < 65536 then [chr (224 + r div 4096), chr (128 + r div 64 mod 64), chr (128 + r mod 64)]
     else [chr (240 + r div 262144), chr (128 + r div 4096 mod 64), chr (128 + r div 64 mod 64),
           chr (128 + r mod 64)])"

definition valid_rune :: "nat \<Rightarrow> bool" where
  "valid_rune r \<longleftrightarrow> r < 55296 \<or> (57344 \<le> r \<and> r < 1114112)"

section \<open>Decoding inverts encoding\<close>

text \<open>The digits of a sum in mixed radix 64, for the arithmetic of the cases below.\<close>

lemma radix64:
  fixes a b :: nat
  assumes "b < 64"
  shows "(a * 64 + b) div 64 = a" "(a * 64 + b) mod 64 = b"
  using assms by simp_all

lemma decode_rune_two:
  assumes "194 \<le> byte c0" "byte c0 < 224" "cont_byte c1"
  shows "encode_rune ((byte c0 - 192) * 64 + (byte c1 - 128)) = [c0, c1]"
proof -
  define a b where "a = byte c0 - 192" and "b = byte c1 - 128"
  have bnd: "2 \<le> a" "a < 32" "b < 64" and c: "c0 = chr (192 + a)" "c1 = chr (128 + b)"
    using assms by (auto simp: a_def b_def cont_byte_def)
  have "a * 64 + b < 2048" "128 \<le> a * 64 + b" using bnd by linarith+
  then show ?thesis unfolding a_def[symmetric] b_def[symmetric]
    using bnd by (simp add: encode_rune_def radix64 c)
qed

lemma decode_rune_three:
  assumes "224 \<le> byte c0" "byte c0 < 240" "cont_byte c1" "cont_byte c2"
    and "byte c0 = 224 \<longrightarrow> 160 \<le> byte c1" "byte c0 = 237 \<longrightarrow> byte c1 < 160"
  defines "r \<equiv> (byte c0 - 224) * 4096 + (byte c1 - 128) * 64 + (byte c2 - 128)"
  shows "encode_rune r = [c0, c1, c2] \<and> valid_rune r \<and> 2048 \<le> r"
proof -
  define a b c where "a = byte c0 - 224" and "b = byte c1 - 128" and "c = byte c2 - 128"
  have bnd: "a < 16" "b < 64" "c < 64" "a = 0 \<longrightarrow> 32 \<le> b" "a = 13 \<longrightarrow> b < 32"
    and eq: "c0 = chr (224 + a)" "c1 = chr (128 + b)" "c2 = chr (128 + c)"
    using assms(1-6) by (auto simp: a_def b_def c_def cont_byte_def)
  have r: "r = (a * 64 + b) * 64 + c" by (simp add: r_def a_def b_def c_def)
  have lo: "2048 \<le> r" using bnd r by (cases "a = 0") auto
  have hi: "r < 65536"
  proof -
    have "a * 64 \<le> 15 * 64" "b \<le> 63" "c \<le> 63" using bnd(1-3) by simp_all
    then have "a * 64 + b \<le> 1023" by simp
    then have "(a * 64 + b) * 64 \<le> 1023 * 64" by (rule mult_le_mono1)
    then show ?thesis unfolding r using bnd(3) by simp
  qed
  have d: "r div 64 = a * 64 + b" "r mod 64 = c"
    unfolding r using bnd by (simp_all only: radix64)
  have d2: "r div 4096 = a"
  proof -
    have "r div 4096 = r div 64 div 64" by (simp add: div_mult2_eq[symmetric])
    then show ?thesis using bnd d(1) by (simp add: radix64)
  qed
  have "valid_rune r"
    using bnd hi r by (cases "a < 13"; cases "a = 13") (auto simp: valid_rune_def)
  then show ?thesis using lo hi d d2 bnd
    by (simp add: encode_rune_def radix64 eq)
qed

lemma decode_rune_four:
  assumes "240 \<le> byte c0" "byte c0 < 245" "cont_byte c1" "cont_byte c2" "cont_byte c3"
    and "byte c0 = 240 \<longrightarrow> 144 \<le> byte c1" "byte c0 = 244 \<longrightarrow> byte c1 < 144"
  defines "r \<equiv> (byte c0 - 240) * 262144 + (byte c1 - 128) * 4096 + (byte c2 - 128) * 64 + (byte c3 - 128)"
  shows "encode_rune r = [c0, c1, c2, c3] \<and> valid_rune r \<and> 65536 \<le> r"
proof -
  define a b c d where "a = byte c0 - 240" and "b = byte c1 - 128" and "c = byte c2 - 128" and "d = byte c3 - 128"
  have bnd: "a < 5" "b < 64" "c < 64" "d < 64" "a = 0 \<longrightarrow> 16 \<le> b" "a = 4 \<longrightarrow> b < 16"
    and eq: "c0 = chr (240 + a)" "c1 = chr (128 + b)" "c2 = chr (128 + c)" "c3 = chr (128 + d)"
    using assms(1-7) by (auto simp: a_def b_def c_def d_def cont_byte_def)
  have r: "r = ((a * 64 + b) * 64 + c) * 64 + d" by (simp add: r_def a_def b_def c_def d_def)
  have lo: "65536 \<le> r" using bnd r by (cases "a = 0") auto
  have hi: "r < 1114112" using bnd r by (cases "a = 4") auto
  have d1: "r div 64 = (a * 64 + b) * 64 + c" "r mod 64 = d"
    unfolding r using bnd by (simp_all only: radix64)
  have "r div 4096 = r div 64 div 64" by (simp add: div_mult2_eq[symmetric])
  then have d2: "r div 4096 = a * 64 + b" using bnd d1(1) by (simp add: radix64)
  have "r div 262144 = r div 4096 div 64" by (simp add: div_mult2_eq[symmetric])
  then have d3: "r div 262144 = a" using bnd d2 by (simp add: radix64)
  have d4: "r div 64 mod 64 = c" "r div 4096 mod 64 = b"
    unfolding d1 d2 using bnd by (simp_all only: radix64)
  have "valid_rune r" using lo hi by (simp add: valid_rune_def)
  then show ?thesis using lo hi d1(2) d3 d4
    by (simp add: encode_rune_def eq)
qed

lemma decode_rune_one: "byte c0 < 128 \<Longrightarrow> encode_rune (byte c0) = [c0] \<and> valid_rune (byte c0)"
  by (simp add: encode_rune_def valid_rune_def)

lemma decode_rune_sound:
  assumes "decode_rune s = Some (r, t)"
  shows "s = encode_rune r @ t \<and> valid_rune r"
proof -
  obtain c0 cs where s: "s = c0 # cs" using assms by (cases s) auto
  consider "byte c0 < 128" | "128 \<le> byte c0" "byte c0 < 194" | "194 \<le> byte c0" "byte c0 < 224"
    | "224 \<le> byte c0" "byte c0 < 240" | "240 \<le> byte c0" "byte c0 < 245" | "245 \<le> byte c0"
    by linarith
  then show ?thesis
  proof cases
    case 1
    then show ?thesis using assms s decode_rune_one[of c0] by (auto simp: Let_def)
  next
    case 3
    then obtain c1 where c: "cs = c1 # t" "cont_byte c1" "r = (byte c0 - 192) * 64 + (byte c1 - 128)"
      using assms s by (auto simp: Let_def split: list.splits if_splits)
    have "r < 2048" using c(2) 3 by (auto simp: c(3) cont_byte_def)
    then show ?thesis using decode_rune_two[OF 3 c(2)] c s by (simp add: valid_rune_def)
  next
    case 4
    then obtain c1 c2 where c: "cs = c1 # c2 # t" "cont_byte c1" "cont_byte c2"
        "byte c0 = 224 \<longrightarrow> 160 \<le> byte c1" "byte c0 = 237 \<longrightarrow> byte c1 < 160"
        "r = (byte c0 - 224) * 4096 + (byte c1 - 128) * 64 + (byte c2 - 128)"
      using assms s by (auto simp: Let_def split: list.splits if_splits)
    show ?thesis using decode_rune_three[OF 4 c(2-5)] c s by simp
  next
    case 5
    then obtain c1 c2 c3 where c: "cs = c1 # c2 # c3 # t" "cont_byte c1" "cont_byte c2" "cont_byte c3"
        "byte c0 = 240 \<longrightarrow> 144 \<le> byte c1" "byte c0 = 244 \<longrightarrow> byte c1 < 144"
        "r = (byte c0 - 240) * 262144 + (byte c1 - 128) * 4096 + (byte c2 - 128) * 64 + (byte c3 - 128)"
      using assms s by (auto simp: Let_def split: list.splits if_splits)
    show ?thesis using decode_rune_four[OF 5 c(2-6)] c s by simp
  qed (use assms s in \<open>auto simp: Let_def split: if_splits\<close>)
qed

lemma runes_sound: "runes s = Some rs \<Longrightarrow> s = concat (map encode_rune rs) \<and> list_all valid_rune rs"
proof (induction s arbitrary: rs rule: runes.induct)
  case (1 s)
  show ?case
  proof (cases "s = []")
    case True
    then show ?thesis using "1.prems" by (simp add: runes.simps)
  next
    case False
    then obtain r t ts where d: "decode_rune s = Some (r, t)" "runes t = Some ts" "rs = r # ts"
      using "1.prems" by (auto simp: runes.simps[of s] split: option.splits prod.splits)
    show ?thesis using "1.IH"[OF False d(1) refl d(2)] decode_rune_sound[OF d(1)] d(3) by simp
  qed
qed

text \<open>A valid string is determined by its runes.\<close>

lemma runes_inject: "runes s = Some rs \<Longrightarrow> runes t = Some rs \<Longrightarrow> s = t"
  using runes_sound by metis

lemma runes_ascii_Cons: "byte c < 128 \<Longrightarrow> runes (c # s) = map_option ((#) (byte c)) (runes s)"
  by (simp add: runes.simps[of "c # s"])

lemma runes_ascii: "list_all (\<lambda>c. byte c < 128) s \<Longrightarrow> runes s = Some (map byte s)"
proof (induction s)
  case Nil
  then show ?case by (simp add: runes.simps)
qed (simp add: runes_ascii_Cons)

lemma valid_string_ascii: "list_all (\<lambda>c. byte c < 128) s \<Longrightarrow> valid_string s"
  by (simp add: valid_string_def runes_ascii)

lemma valid_string_runes: "valid_string s \<Longrightarrow> \<exists>rs. runes s = Some rs \<and> list_all valid_rune rs"
  using runes_sound by (auto simp: valid_string_def)

end
