(* ===== verification/Go_Values.thy ===== *)
theory Go_Values
  imports Go_Utf8
begin

text \<open>
  The Go values a payload can hold, the errors of the kernel, and the standard-library
  functions on numbers the canonical encoder uses.

  A payload is a value of type \<open>any\<close>.  The datatype has one constructor per kind the type
  switch of \<open>writeCanonicalValue\<close> and \<open>writeCanonicalReflect\<close> distinguishes; a map is an
  association list in the (arbitrary) order in which Go would range over it, so statements
  that quantify over the list quantify over the iteration order too.  A finite
  \<open>float64\<close> is represented by its sign, the digits of its shortest decimal form and the
  decimal exponent of the first digit: what \<open>strconv.FormatFloat(f, _, -1, 64)\<close> renders.
\<close>

section \<open>Errors\<close>

text \<open>One constructor per error type of the module (\<open>store.go\<close>); \<open>Plain\<close> is
  \<open>fmt.Errorf\<close>, \<open>Driver\<close> an error returned by the SQL driver (a violated constraint) and
  \<open>Panic\<close> a run-time panic.  The string is the literal part of the message and the list the
  interpolated operands.\<close>

datatype kerror =
    Plain string "string list"
  | TraceStoreError string "string list"
  | AppendIntentConflictError string
  | UnknownFactError string
  | UnknownFrontierError string
  | ProjectionModeError string
  | Driver string
  | Panic string

section \<open>Values\<close>

datatype gofloat = FNaN | FInf bool | FZero bool | FFin bool "nat list" int

text \<open>What \<open>encoding/json\<close> makes of a value, and the normal form of the canonical writer:
  numbers stay token text, objects keep the order of their members.\<close>

datatype json = JNull | JBool bool | JNum string | JStr string | JArr "json list"
  | JObj "(string \<times> json) list"

datatype gval =
    VNil
  | VBool bool
  | VString string
  | VNumber string                        \<comment> \<open>\<open>json.Number\<close>\<close>
  | VFloat gofloat                        \<comment> \<open>\<open>float64\<close>\<close>
  | VFloat32 gofloat gofloat              \<comment> \<open>\<open>float32\<close>: widened to 64 bits, and at 32 bits\<close>
  | VInt int                              \<comment> \<open>every signed and unsigned integer kind\<close>
  | VNilSlice
  | VSlice "gval list"                    \<comment> \<open>\<open>[]any\<close>, \<open>[]string\<close>, any other slice or array\<close>
  | VBytes string                         \<comment> \<open>\<open>[]uint8\<close>, not nil\<close>
  | VNilMap
  | VMap "(string \<times> gval) list"           \<comment> \<open>maps whose key type is \<open>string\<close>\<close>
  | VNamedMap "(string \<times> gval) list"      \<comment> \<open>maps whose key type is a named string type\<close>
  | VOtherMap "json option"               \<comment> \<open>a non-nil map whose key kind is not string, with its
                                              \<open>json.Marshal\<close> image, if it has one\<close>
  | VNilPtr
  | VPtr gval
  | VOpaque "json option"                 \<comment> \<open>a struct, func, chan, named string: with its
                                              \<open>json.Marshal\<close> image, if it has one\<close>

text \<open>A \<open>map[string]any\<close>, nil or not, as a value.\<close>

type_synonym gmap = "(string \<times> gval) slice"

definition of_gmap :: "gmap \<Rightarrow> gval" where
  "of_gmap m = (case m of None \<Rightarrow> VNilMap | Some kvs \<Rightarrow> VMap kvs)"

definition of_strings :: "string slice \<Rightarrow> gval" where
  "of_strings s = (case s of None \<Rightarrow> VNilSlice | Some xs \<Rightarrow> VSlice (map VString xs))"

text \<open>\<open>m[k]\<close>, with the comma-ok form; ranging over a map meets each key once.\<close>

definition get_key :: "gmap \<Rightarrow> string \<Rightarrow> gval option" where
  "get_key m k = map_of (elems m) k"

definition map_ok :: "gmap \<Rightarrow> bool" where
  "map_ok m \<longleftrightarrow> distinct (map fst (elems m))"

text \<open>Every map inside a value has distinct keys (an invariant of Go maps).\<close>

fun maps_distinct :: "gval \<Rightarrow> bool" where
  "maps_distinct (VSlice xs) = list_all maps_distinct xs"
| "maps_distinct (VMap kvs) = (distinct (map fst kvs) \<and> list_all (\<lambda>(k, v). maps_distinct v) kvs)"
| "maps_distinct (VNamedMap kvs) = (distinct (map fst kvs) \<and> list_all (\<lambda>(k, v). maps_distinct v) kvs)"
| "maps_distinct (VPtr v) = maps_distinct v"
| "maps_distinct _ = True"

section \<open>The standard library the encoder relies on\<close>

text \<open>
  Two functions of the Go library stay parameters of every definition that uses them: the
  digest \<open>sha256.Sum256\<close> and \<open>strconv.ParseFloat(s, 64)\<close>, \<open>None\<close> standing for its error.
  The theorems hold for every choice; a theorem that needs more of them names it as a hypothesis.
\<close>

record golib =
  sha256 :: "string \<Rightarrow> string"
  parse_float :: "string \<Rightarrow> gofloat option"

text \<open>\<open>strconv.Atoi\<close> and \<open>strconv.ParseInt(s, 10, 64)\<close>.\<close>

definition parse_int64 :: "string \<Rightarrow> int option" where
  "parse_int64 s =
    (let neg = (s \<noteq> [] \<and> hd s = CHR ''-'');
         ds = (if s \<noteq> [] \<and> (hd s = CHR ''-'' \<or> hd s = CHR ''+'') then tl s else s);
         n = int (nat_of_dec ds); i = (if neg then - n else n)
     in if ds = [] \<or> \<not> list_all is_digit ds then None
        else if i < - (2 ^ 63) \<or> i \<ge> 2 ^ 63 then None
        else Some i)"

lemma parse_int64_itoa:
  assumes "- (2 ^ 63) \<le> i" "i < 2 ^ 63"
  shows "parse_int64 (itoa i) = Some i"
proof (cases "i < 0")
  case True
  have "list_all is_digit (dec_of_nat (nat (- i)))"
    by (simp add: list_all_iff dec_of_nat_digits)
  with True assms show ?thesis by (simp add: parse_int64_def itoa_def)
next
  case False
  have d: "list_all is_digit (dec_of_nat (nat i))"
    by (simp add: list_all_iff dec_of_nat_digits)
  have h: "hd (dec_of_nat (nat i)) \<noteq> CHR ''-''" "hd (dec_of_nat (nat i)) \<noteq> CHR ''+''"
    using dec_of_nat_head[of "nat i"] by (auto simp: is_digit_def byte_def)
  from d h False assms show ?thesis by (simp add: parse_int64_def itoa_def)
qed

text \<open>\<open>strings.Cut(s, sep)\<close> for a one-byte separator.\<close>

definition strings_cut :: "string \<Rightarrow> char \<Rightarrow> string \<times> string \<times> bool" where
  "strings_cut s c = (if c \<in> set s then (takeWhile (\<lambda>x. x \<noteq> c) s, tl (dropWhile (\<lambda>x. x \<noteq> c) s), True)
                      else (s, [], False))"

lemma strings_cut_app: "c \<notin> set s \<Longrightarrow> strings_cut (s @ c # t) c = (s, t, True)"
proof -
  assume c: "c \<notin> set s"
  then have "takeWhile (\<lambda>x. x \<noteq> c) (s @ c # t) = s" "dropWhile (\<lambda>x. x \<noteq> c) (s @ c # t) = c # t"
    by (induction s) auto
  then show ?thesis by (simp add: strings_cut_def)
qed

text \<open>\<open>strconv.FormatFloat\<close> of a finite non-zero number with precision \<open>-1\<close>: formats
  \<open>e\<close> (at least two exponent digits) and \<open>f\<close>.\<close>

definition digits_string :: "nat list \<Rightarrow> string" where
  "digits_string ds = map dec_digit ds"

definition format_e :: "bool \<Rightarrow> nat list \<Rightarrow> int \<Rightarrow> string" where
  "format_e neg ds e =
    (if neg then ''-'' else []) @ digits_string (take 1 ds)
    @ (if length ds > 1 then CHR ''.'' # digits_string (drop 1 ds) else [])
    @ CHR ''e'' # (if e < 0 then CHR ''-'' else CHR ''+'')
    # (if \<bar>e\<bar> < 10 then CHR ''0'' # itoa \<bar>e\<bar> else itoa \<bar>e\<bar>)"

definition format_f :: "bool \<Rightarrow> nat list \<Rightarrow> int \<Rightarrow> string" where
  "format_f neg ds e =
    (let dp = e + 1 in
     (if neg then ''-'' else [])
     @ (if dp > 0 then digits_string (take (nat dp) ds @ replicate (nat dp - length ds) 0) else ''0'')
     @ (if int (length ds) > dp
        then CHR ''.'' # digits_string (replicate (nat (- dp)) 0 @ drop (nat dp) ds) else []))"

text \<open>The digits of a shortest form: non-empty, below ten, no zero at either end.\<close>

fun float_ok :: "gofloat \<Rightarrow> bool" where
  "float_ok (FFin neg ds e) =
     (ds \<noteq> [] \<and> list_all (\<lambda>d. d < 10) ds \<and> hd ds \<noteq> 0 \<and> last ds \<noteq> 0 \<and> \<bar>e\<bar> < 1000)"
| "float_ok _ = True"

lemma digits_string_chars: "list_all (\<lambda>d. d < 10) ds \<Longrightarrow> c \<in> set (digits_string ds) \<Longrightarrow> is_digit c"
  by (auto simp: digits_string_def list_all_iff)

lemma digits_string_inject:
  "list_all (\<lambda>d. d < 10) ds \<Longrightarrow> list_all (\<lambda>d. d < 10) es \<Longrightarrow> digits_string ds = digits_string es \<Longrightarrow> ds = es"
proof (induction ds arbitrary: es)
  case (Cons d ds)
  then obtain e es' where es: "es = e # es'" by (cases es) (auto simp: digits_string_def)
  with Cons.prems have "byte (dec_digit d) = byte (dec_digit e)" by (simp add: digits_string_def)
  with Cons.prems es have "d = e" by simp
  with Cons es show ?case by (auto simp: digits_string_def)
qed (simp add: digits_string_def)

end
