(* ===== verification/Canonical_Number.thy ===== *)
theory Canonical_Number
  imports Go_Values
begin

text \<open>
  Numbers in canonical JSON (\<open>canonical.go\<close>): the grammar check of \<open>json.Number\<close> tokens
  and CPython's rendering of floats.  The index loops of \<open>validJSONNumber\<close> become functions
  from the unread suffix to the suffix left over, \<open>None\<close> being its \<open>return false\<close>.
\<close>

section \<open>The JSON number grammar\<close>

definition number_int_part :: "string \<Rightarrow> string option" where
  "number_int_part s =
    (case s of [] \<Rightarrow> None
     | c # r \<Rightarrow> if c = CHR ''0'' then Some r
                else if is_digit c then Some (dropWhile is_digit s)
                else None)"

definition number_frac_part :: "string \<Rightarrow> string option" where
  "number_frac_part s =
    (if s \<noteq> [] \<and> hd s = CHR ''.'' then
       (let r = tl s; t = dropWhile is_digit r in if length t = length r then None else Some t)
     else Some s)"

definition number_exp_part :: "string \<Rightarrow> string option" where
  "number_exp_part s =
    (if s \<noteq> [] \<and> (hd s = CHR ''e'' \<or> hd s = CHR ''E'') then
       (let r = tl s;
            r' = (if r \<noteq> [] \<and> (hd r = CHR ''+'' \<or> hd r = CHR ''-'') then tl r else r);
            t = dropWhile is_digit r'
        in if length t = length r' then None else Some t)
     else Some s)"

definition valid_json_number :: "string \<Rightarrow> bool" where
  "valid_json_number s =
    (let s1 = (if s \<noteq> [] \<and> hd s = CHR ''-'' then tl s else s) in
     case number_int_part s1 of None \<Rightarrow> False
     | Some s2 \<Rightarrow> (case number_frac_part s2 of None \<Rightarrow> False
       | Some s3 \<Rightarrow> (case number_exp_part s3 of None \<Rightarrow> False | Some s4 \<Rightarrow> s4 = [])))"

definition is_json_integer_token :: "string \<Rightarrow> bool" where
  "is_json_integer_token s \<longleftrightarrow> \<not> (\<exists>c\<in>set s. c = CHR ''.'' \<or> c = CHR ''e'' \<or> c = CHR ''E'')"

text \<open>The grammar of the comment, \<open>-?(0|[1-9][0-9]*)(.[0-9]+)?([eE][+-]?[0-9]+)?\<close>, as a
  language.\<close>

definition digits1 :: "string \<Rightarrow> bool" where
  "digits1 s \<longleftrightarrow> s \<noteq> [] \<and> list_all is_digit s"

definition int_lang :: "string \<Rightarrow> bool" where
  "int_lang s \<longleftrightarrow> s = ''0'' \<or> digits1 s \<and> hd s \<noteq> CHR ''0''"

definition frac_lang :: "string \<Rightarrow> bool" where
  "frac_lang s \<longleftrightarrow> s = [] \<or> (\<exists>d. s = CHR ''.'' # d \<and> digits1 d)"

definition exp_lang :: "string \<Rightarrow> bool" where
  "exp_lang s \<longleftrightarrow> s = [] \<or>
    (\<exists>e sg d. s = e # sg @ d \<and> e \<in> {CHR ''e'', CHR ''E''} \<and> sg \<in> {[], ''+'', ''-''} \<and> digits1 d)"

definition json_number_lang :: "string \<Rightarrow> bool" where
  "json_number_lang s \<longleftrightarrow>
    (\<exists>sg i f e. s = sg @ i @ f @ e \<and> sg \<in> {[], ''-''} \<and> int_lang i \<and> frac_lang f \<and> exp_lang e)"

lemma not_digit_chars [simp]:
  "\<not> is_digit (CHR ''.'')" "\<not> is_digit (CHR ''e'')" "\<not> is_digit (CHR ''E'')" "\<not> is_digit (CHR ''+'')"
  by (simp_all add: is_digit_def byte_def)

lemma digit_zero [simp]: "is_digit (CHR ''0'')"
  by (simp add: is_digit_def byte_def)

lemma dropWhile_digits: "list_all is_digit d \<Longrightarrow> t = [] \<or> \<not> is_digit (hd t) \<Longrightarrow> dropWhile is_digit (d @ t) = t"
  by (induction d) (cases t; auto)+

lemma split_digits:
  obtains d where "s = d @ dropWhile is_digit s" "list_all is_digit d"
  by (metis list_all_iff set_takeWhileD takeWhile_dropWhile_id)

lemma digits1_dropWhile:
  "length (dropWhile is_digit s) \<noteq> length s \<longleftrightarrow> (\<exists>d. s = d @ dropWhile is_digit s \<and> digits1 d)"
proof
  obtain d where d: "s = d @ dropWhile is_digit s" "list_all is_digit d" by (rule split_digits)
  assume "length (dropWhile is_digit s) \<noteq> length s"
  then have "d \<noteq> []" using d(1) by auto
  with d show "\<exists>d. s = d @ dropWhile is_digit s \<and> digits1 d" by (auto simp: digits1_def)
next
  assume "\<exists>d. s = d @ dropWhile is_digit s \<and> digits1 d"
  then obtain d where "s = d @ dropWhile is_digit s" "d \<noteq> []" by (auto simp: digits1_def)
  then have "length s = length d + length (dropWhile is_digit s)" by (metis length_append)
  with \<open>d \<noteq> []\<close> show "length (dropWhile is_digit s) \<noteq> length s" by simp
qed

text \<open>Each part reads exactly its language, up to a suffix that cannot continue it.\<close>

lemma exp_part_iff: "number_exp_part s = Some [] \<longleftrightarrow> exp_lang s"
proof
  assume a: "number_exp_part s = Some []"
  show "exp_lang s"
  proof (cases "s \<noteq> [] \<and> (hd s = CHR ''e'' \<or> hd s = CHR ''E'')")
    case True
    define r' where "r' = (if tl s \<noteq> [] \<and> (hd (tl s) = CHR ''+'' \<or> hd (tl s) = CHR ''-'') then tl (tl s) else tl s)"
    have "number_exp_part s =
        (if length (dropWhile is_digit r') = length r' then None else Some (dropWhile is_digit r'))"
      using True by (simp add: number_exp_part_def Let_def r'_def)
    with a have d: "dropWhile is_digit r' = []" "r' \<noteq> []" by (auto split: if_splits)
    then have "digits1 r'" by (auto simp: digits1_def list_all_iff)
    moreover define sg where
      "sg = (if tl s \<noteq> [] \<and> (hd (tl s) = CHR ''+'' \<or> hd (tl s) = CHR ''-'') then [hd (tl s)] else [])"
    moreover have "tl s = sg @ r'" "sg \<in> {[], ''+'', ''-''}"
      by (auto simp: r'_def sg_def)
    ultimately show ?thesis using True unfolding exp_lang_def
      by (metis insertCI list.collapse)
  qed (use a in \<open>auto simp: number_exp_part_def exp_lang_def\<close>)
next
  assume "exp_lang s"
  then consider "s = []" | e sg d where "s = e # sg @ d" "e \<in> {CHR ''e'', CHR ''E''}" "sg \<in> {[], ''+'', ''-''}" "digits1 d"
    by (auto simp: exp_lang_def)
  then show "number_exp_part s = Some []"
  proof cases
    case (2 e sg d)
    have "hd d \<noteq> CHR ''+''" "hd d \<noteq> CHR ''-''" "d \<noteq> []"
      using 2(4) by (cases d; auto simp: digits1_def)+
    moreover have nd: "dropWhile is_digit d = []" using 2(4) by (auto simp: digits1_def list_all_iff)
    ultimately show ?thesis using 2(1-3) by (auto simp: number_exp_part_def Let_def nd simp del: dropWhile_eq_Nil_conv)
  qed (simp add: number_exp_part_def)
qed

lemma exp_lang_hd: "exp_lang s \<Longrightarrow> s = [] \<or> \<not> is_digit (hd s) \<and> hd s \<noteq> CHR ''.''"
  by (auto simp: exp_lang_def)

lemma frac_part_iff:
  "(\<exists>s3. number_frac_part s = Some s3 \<and> exp_lang s3) \<longleftrightarrow> (\<exists>f e. s = f @ e \<and> frac_lang f \<and> exp_lang e)"
proof
  assume "\<exists>s3. number_frac_part s = Some s3 \<and> exp_lang s3"
  then obtain s3 where s3: "number_frac_part s = Some s3" "exp_lang s3" by blast
  show "\<exists>f e. s = f @ e \<and> frac_lang f \<and> exp_lang e"
  proof (cases "s \<noteq> [] \<and> hd s = CHR ''.''")
    case True
    then have "s3 = dropWhile is_digit (tl s)" "length s3 \<noteq> length (tl s)"
      using s3(1) by (auto simp: number_frac_part_def Let_def split: if_splits)
    then obtain d where d: "tl s = d @ s3" "digits1 d" using digits1_dropWhile[of "tl s"] by metis
    have "s = (CHR ''.'' # d) @ s3" using True d(1) by (metis append_Cons list.collapse)
    moreover have "frac_lang (CHR ''.'' # d)" using d(2) by (auto simp: frac_lang_def)
    ultimately show ?thesis using s3(2) by blast
  next
    case False
    then have "s3 = s" using s3(1) by (auto simp: number_frac_part_def)
    then show ?thesis using s3(2) by (metis append_Nil frac_lang_def)
  qed
next
  assume "\<exists>f e. s = f @ e \<and> frac_lang f \<and> exp_lang e"
  then obtain f e where s: "s = f @ e" "frac_lang f" "exp_lang e" by blast
  show "\<exists>s3. number_frac_part s = Some s3 \<and> exp_lang s3"
  proof (cases "f = []")
    case True
    then show ?thesis using s exp_lang_hd[OF s(3)] by (auto simp: number_frac_part_def)
  next
    case False
    then obtain d where d: "f = CHR ''.'' # d" "digits1 d" using s(2) by (auto simp: frac_lang_def)
    have "dropWhile is_digit (d @ e) = e"
      using d(2) exp_lang_hd[OF s(3)] by (intro dropWhile_digits) (auto simp: digits1_def)
    then show ?thesis using d s by (auto simp: number_frac_part_def digits1_def)
  qed
qed

lemma frac_exp_hd: "frac_lang f \<Longrightarrow> exp_lang e \<Longrightarrow> f @ e = [] \<or> \<not> is_digit (hd (f @ e))"
  using exp_lang_hd[of e] by (auto simp: frac_lang_def)

lemma int_part_iff:
  "(\<exists>t. number_int_part s = Some t \<and> P t) \<longleftrightarrow> (\<exists>i t. s = i @ t \<and> int_lang i \<and> P t)"
  if P: "\<And>t. P t \<Longrightarrow> t = [] \<or> \<not> is_digit (hd t)"
proof
  assume "\<exists>t. number_int_part s = Some t \<and> P t"
  then obtain t where t: "number_int_part s = Some t" "P t" by blast
  then obtain c r where s: "s = c # r" by (cases s) (auto simp: number_int_part_def)
  show "\<exists>i t. s = i @ t \<and> int_lang i \<and> P t"
  proof (cases "c = CHR ''0''")
    case True
    then have "s = ''0'' @ t" using t(1) s by (simp add: number_int_part_def)
    with t(2) show ?thesis by (intro exI[of _ "''0''"] exI[of _ t]) (simp add: int_lang_def)
  next
    case False
    then have d: "is_digit c" "t = dropWhile is_digit s"
      using t(1) s by (auto simp: number_int_part_def split: if_splits)
    obtain i where i: "s = i @ t" "list_all is_digit i" using split_digits[of s] d(2) by metis
    have "i \<noteq> []"
    proof
      assume "i = []"
      then have "dropWhile is_digit s = s" using i(1) d(2) by simp
      then show False using s d(1) by (metis dropWhile.simps(2) length_dropWhile_le impossible_Cons)
    qed
    moreover from this have "hd i = c" using i(1) s by (cases i) auto
    ultimately have "int_lang i" using i(2) False by (auto simp: int_lang_def digits1_def)
    with i(1) t(2) show ?thesis by blast
  qed
next
  assume "\<exists>i t. s = i @ t \<and> int_lang i \<and> P t"
  then obtain i t where s: "s = i @ t" "int_lang i" "P t" by blast
  show "\<exists>t. number_int_part s = Some t \<and> P t"
  proof (cases "i = ''0''")
    case True
    then show ?thesis using s by (simp add: number_int_part_def)
  next
    case False
    then have i: "i \<noteq> []" "list_all is_digit i" "hd i \<noteq> CHR ''0''"
      using s(2) by (auto simp: int_lang_def digits1_def)
    have "dropWhile is_digit s = t"
      unfolding s(1) using i(2) P[OF s(3)] by (rule dropWhile_digits)
    moreover have "is_digit (hd i)" using i by (cases i) auto
    ultimately have "number_int_part s = Some t"
      using i s(1) by (cases i) (auto simp: number_int_part_def)
    with s(3) show ?thesis by blast
  qed
qed

lemma valid_json_number_grammar: "valid_json_number s \<longleftrightarrow> json_number_lang s"
proof -
  define Q where "Q t \<longleftrightarrow> (\<exists>f e. t = f @ e \<and> frac_lang f \<and> exp_lang e)" for t
  have Q: "Q t \<longleftrightarrow> (\<exists>s3. number_frac_part t = Some s3 \<and> number_exp_part s3 = Some [])" for t
    unfolding Q_def exp_part_iff frac_part_iff[symmetric] ..
  have hd: "Q t \<Longrightarrow> t = [] \<or> \<not> is_digit (hd t)" for t
    using frac_exp_hd by (auto simp: Q_def)
  define s1 where "s1 = (if s \<noteq> [] \<and> hd s = CHR ''-'' then tl s else s)"
  have "valid_json_number s \<longleftrightarrow> (\<exists>t. number_int_part s1 = Some t \<and> Q t)"
    unfolding Q by (auto simp: valid_json_number_def s1_def Let_def split: option.splits)
  also have "\<dots> \<longleftrightarrow> (\<exists>i t. s1 = i @ t \<and> int_lang i \<and> Q t)"
    by (rule int_part_iff) (rule hd)
  also have "\<dots> \<longleftrightarrow> json_number_lang s"
  proof -
    define R where "R u \<longleftrightarrow> (\<exists>i t. u = i @ t \<and> int_lang i \<and> Q t)" for u
    have "int_lang i \<Longrightarrow> i @ t \<noteq> CHR ''-'' # u" for i t u
      by (cases i) (auto simp: int_lang_def digits1_def)
    then have m: "\<not> R (CHR ''-'' # u)" for u by (metis R_def)
    have "json_number_lang s \<longleftrightarrow> (\<exists>sg i t. s = sg @ i @ t \<and> sg \<in> {[], ''-''} \<and> int_lang i \<and> Q t)"
    proof
      assume "json_number_lang s"
      then obtain sg i f e where "s = sg @ i @ f @ e" "sg \<in> {[], ''-''}" "int_lang i" "frac_lang f" "exp_lang e"
        unfolding json_number_lang_def by blast
      then show "\<exists>sg i t. s = sg @ i @ t \<and> sg \<in> {[], ''-''} \<and> int_lang i \<and> Q t"
        unfolding Q_def by (intro exI[of _ sg] exI[of _ i] exI[of _ "f @ e"]) blast
    qed (auto simp only: json_number_lang_def Q_def)
    also have "\<dots> \<longleftrightarrow> R s \<or> (\<exists>u. s = CHR ''-'' # u \<and> R u)"
    proof
      assume "\<exists>sg i t. s = sg @ i @ t \<and> sg \<in> {[], ''-''} \<and> int_lang i \<and> Q t"
      then show "R s \<or> (\<exists>u. s = CHR ''-'' # u \<and> R u)" unfolding R_def by fastforce
    next
      assume "R s \<or> (\<exists>u. s = CHR ''-'' # u \<and> R u)"
      then show "\<exists>sg i t. s = sg @ i @ t \<and> sg \<in> {[], ''-''} \<and> int_lang i \<and> Q t"
        unfolding R_def by (metis append_Cons append_Nil insertCI)
    qed
    also have "\<dots> \<longleftrightarrow> R s1"
      using m by (cases s) (auto simp: s1_def)
    finally show ?thesis by (simp add: R_def)
  qed
  finally show ?thesis .
qed

section \<open>Floats the way CPython prints them\<close>

definition python_exponent :: "int \<Rightarrow> string" where
  "python_exponent e =
    (let sign = (if e < 0 then ''-'' else ''+'');
         digits = itoa \<bar>e\<bar>
     in sign @ (if length digits < 2 then CHR ''0'' # digits else digits))"

definition format_canonical_float :: "gofloat \<Rightarrow> kerror + string" where
  "format_canonical_float f =
    (case f of
       FNaN \<Rightarrow> Inl (Plain ''canonical JSON: no JSON representation'' [])
     | FInf _ \<Rightarrow> Inl (Plain ''canonical JSON: no JSON representation'' [])
     | FZero neg \<Rightarrow> Inr (if neg then ''-0.0'' else ''0.0'')
     | FFin neg ds e \<Rightarrow>
        (case strings_cut (format_e neg ds e) (CHR ''e'') of (mantissa, exp_part, ok) \<Rightarrow>
           if \<not> ok then Inl (Plain ''canonical JSON: no exponent in'' [format_e neg ds e])
           else (case parse_int64 exp_part of
                   None \<Rightarrow> Inl (Plain ''canonical JSON: bad exponent'' [exp_part])
                 | Some x \<Rightarrow>
                     if x \<ge> 16 \<or> x \<le> -5 then Inr (mantissa @ ''e'' @ python_exponent x)
                     else (let fixed = format_f neg ds e
                           in Inr (if CHR ''.'' \<in> set fixed then fixed else fixed @ ''.0'')))))"

definition mantissa_string :: "bool \<Rightarrow> nat list \<Rightarrow> string" where
  "mantissa_string neg ds = (if neg then ''-'' else []) @ digits_string (take 1 ds)
    @ (if length ds > 1 then CHR ''.'' # digits_string (drop 1 ds) else [])"

lemma mantissa_no_e: "list_all (\<lambda>d. d < 10) ds \<Longrightarrow> CHR ''e'' \<notin> set (mantissa_string neg ds)"
proof
  assume d: "list_all (\<lambda>d. d < 10) ds" and e: "CHR ''e'' \<in> set (mantissa_string neg ds)"
  have "list_all (\<lambda>d. d < 10) (take 1 ds)" "list_all (\<lambda>d. d < 10) (drop 1 ds)"
    using d by (metis append_take_drop_id list_all_append)+
  with e show False
    by (auto simp: mantissa_string_def dest: digits_string_chars split: if_splits)
qed

lemma parse_exponent: "\<bar>e\<bar> < 1000 \<Longrightarrow>
  parse_int64 ((if e < 0 then CHR ''-'' else CHR ''+'')
    # (if \<bar>e\<bar> < 10 then CHR ''0'' # itoa \<bar>e\<bar> else itoa \<bar>e\<bar>)) = Some e"
proof -
  assume b: "\<bar>e\<bar> < 1000"
  have d: "list_all is_digit (itoa \<bar>e\<bar>)" "nat_of_dec (itoa \<bar>e\<bar>) = nat \<bar>e\<bar>" "itoa \<bar>e\<bar> \<noteq> []"
    by (simp_all add: itoa_def list_all_iff dec_of_nat_digits)
  have z: "nat_of_dec (CHR ''0'' # s) = nat_of_dec s" for s
    by (simp add: nat_of_dec_def byte_def)
  show ?thesis using b d by (auto simp: parse_int64_def z)
qed

text \<open>The two defensive error branches are dead: on a finite float the rendering is exactly
  scientific outside \<open>[1e-4, 1e16)\<close> and fixed, with a fraction, inside.\<close>

lemma format_canonical_float_finite:
  assumes "float_ok (FFin neg ds e)"
  shows "format_canonical_float (FFin neg ds e) =
    Inr (if e \<ge> 16 \<or> e \<le> -5 then mantissa_string neg ds @ ''e'' @ python_exponent e
         else if CHR ''.'' \<in> set (format_f neg ds e) then format_f neg ds e
         else format_f neg ds e @ ''.0'')"
proof -
  have "format_e neg ds e = mantissa_string neg ds @ CHR ''e'' #
      ((if e < 0 then CHR ''-'' else CHR ''+'')
        # (if \<bar>e\<bar> < 10 then CHR ''0'' # itoa \<bar>e\<bar> else itoa \<bar>e\<bar>))"
    by (simp add: format_e_def mantissa_string_def)
  then show ?thesis
    using assms by (simp add: format_canonical_float_def strings_cut_app mantissa_no_e parse_exponent Let_def)
qed

lemma format_canonical_float_total:
  assumes "float_ok f" "f \<noteq> FNaN" "\<And>s. f \<noteq> FInf s"
  shows "\<exists>s. format_canonical_float f = Inr s"
  using assms by (cases f) (auto simp: format_canonical_float_finite simp del: float_ok.simps(1),
      simp add: format_canonical_float_def)

text \<open>A rendered float always carries a point or an exponent, so it is never the token of an
  integer.\<close>

lemma format_canonical_float_not_integer:
  assumes r: "format_canonical_float f = Inr s"
  shows "\<not> is_json_integer_token s"
proof (cases f)
  case (FZero neg)
  then have "s = ''-0.0'' \<or> s = ''0.0''" using r by (simp add: format_canonical_float_def split: if_splits)
  then show ?thesis unfolding is_json_integer_token_def by force
next
  case (FFin neg ds e)
  obtain m ep ok where c: "strings_cut (format_e neg ds e) (CHR ''e'') = (m, ep, ok)"
    by (metis prod_cases3)
  from r FFin obtain x where "s = m @ ''e'' @ python_exponent x
      \<or> (CHR ''.'' \<in> set (format_f neg ds e) \<and> s = format_f neg ds e) \<or> s = format_f neg ds e @ ''.0''"
    by (auto simp: format_canonical_float_def c Let_def split: option.splits if_splits)
  then show ?thesis unfolding is_json_integer_token_def by force
qed (use r in \<open>simp_all add: format_canonical_float_def\<close>)

lemma itoa_integer_token: "is_json_integer_token (itoa i)"
proof -
  have "c \<in> set (itoa i) \<Longrightarrow> is_digit c \<or> c = CHR ''-''" for c
    by (auto simp: itoa_def dec_of_nat_digits split: if_splits)
  then have "CHR ''.'' \<notin> set (itoa i)" "CHR ''e'' \<notin> set (itoa i)" "CHR ''E'' \<notin> set (itoa i)"
    by force+
  then show ?thesis unfolding is_json_integer_token_def by blast
qed

section \<open>Number tokens\<close>

text \<open>The bytes a number token is made of; they delimit it inside a document.\<close>

definition number_char :: "char \<Rightarrow> bool" where
  "number_char c \<longleftrightarrow> is_digit c \<or> c \<in> set ''+-.eE''"

definition number_token :: "string \<Rightarrow> bool" where
  "number_token s \<longleftrightarrow> s \<noteq> [] \<and> list_all number_char s \<and> (is_digit (hd s) \<or> hd s = CHR ''-'')"

lemma number_char_digit [simp]: "is_digit c \<Longrightarrow> number_char c"
  by (simp add: number_char_def)

lemma digits1_number_chars: "digits1 d \<Longrightarrow> list_all number_char d"
  by (auto simp: digits1_def list_all_iff)

lemma json_number_token: "json_number_lang s \<Longrightarrow> number_token s"
proof -
  assume "json_number_lang s"
  then obtain sg i f e where s: "s = sg @ i @ f @ e" "sg \<in> {[], ''-''}" "int_lang i" "frac_lang f" "exp_lang e"
    unfolding json_number_lang_def by blast
  have "list_all number_char sg" using s(2) by (auto simp: number_char_def)
  moreover have "list_all number_char i" "i \<noteq> []" "is_digit (hd i)"
    using s(3) by (cases i; auto simp: int_lang_def digits1_def list_all_iff)+
  moreover have "list_all number_char f"
    using s(4) by (auto simp: frac_lang_def number_char_def digits1_def list_all_iff)
  moreover have "list_all number_char e"
    using s(5) by (auto simp: exp_lang_def number_char_def digits1_def list_all_iff)
  ultimately show ?thesis using s(1,2) by (auto simp: number_token_def hd_append)
qed

lemma itoa_number_token: "number_token (itoa i)"
  using dec_of_nat_head by (auto simp: number_token_def itoa_def number_char_def list_all_iff dec_of_nat_digits)

lemma digits_string_number: "list_all (\<lambda>d. d < 10) ds \<Longrightarrow> list_all number_char (digits_string ds)"
  by (auto simp: list_all_iff digits_string_def)

lemma python_exponent_number: "list_all number_char (python_exponent e)"
  by (auto simp: python_exponent_def Let_def number_char_def itoa_def list_all_iff dec_of_nat_digits)

lemma format_f_number:
  assumes "float_ok (FFin neg ds e)"
  shows "number_token (format_f neg ds e)"
proof -
  have d: "list_all (\<lambda>d. d < 10) ds" "ds \<noteq> []" using assms by auto
  then have k: "list_all (\<lambda>d. d < 10) (take n ds)" "list_all (\<lambda>d. d < 10) (drop n ds)" for n
    by (metis append_take_drop_id list_all_append)+
  let ?ip = "if e + 1 > 0 then digits_string (take (nat (e + 1)) ds @ replicate (nat (e + 1) - length ds) 0) else ''0''"
  have ip: "list_all number_char ?ip" "?ip \<noteq> []"
    using k d by (auto simp: digits_string_def list_all_iff)
  moreover have "is_digit (hd ?ip)"
    using ip(1) d by (cases "e + 1 > 0"; cases ds; cases "nat (e + 1)") (auto simp: digits_string_def)
  moreover have "list_all number_char (CHR ''.'' # digits_string (replicate (nat (- (e + 1))) 0 @ drop (nat (e + 1)) ds))"
  proof -
    have "list_all number_char (digits_string (replicate (nat (- (e + 1))) 0 @ drop (nat (e + 1)) ds))"
      using k by (intro digits_string_number) (auto simp: list_all_iff)
    then show ?thesis by (simp add: number_char_def)
  qed
  ultimately show ?thesis
    unfolding number_token_def format_f_def Let_def
    by (auto simp: number_char_def hd_append list_all_iff split: if_splits)
qed

lemma format_canonical_float_number:
  assumes "format_canonical_float f = Inr s" "float_ok f"
  shows "number_token s"
proof (cases f)
  case (FFin neg ds e)
  have d: "list_all (\<lambda>d. d < 10) ds" "ds \<noteq> []" using assms(2) FFin by auto
  then have k: "list_all number_char (digits_string (take 1 ds))" "list_all number_char (digits_string (drop 1 ds))"
    by (metis append_take_drop_id list_all_append digits_string_number)+
  have "number_token (mantissa_string neg ds @ ''e'' @ python_exponent e)"
    using k d python_exponent_number
    by (cases ds) (auto simp: number_token_def mantissa_string_def number_char_def digits_string_def)
  moreover have "number_token (format_f neg ds e)" "number_token (format_f neg ds e @ ''.0'')"
    using format_f_number[of neg ds e] assms(2) FFin
    by (auto simp: number_token_def number_char_def)
  ultimately show ?thesis
    using assms FFin format_canonical_float_finite[of neg ds e] by (auto split: if_splits)
qed (use assms(1) in \<open>auto simp: format_canonical_float_def number_token_def number_char_def split: if_splits\<close>)

section \<open>Properties\<close>

text \<open>C35: \<open>validJSONNumber\<close>, a hand-written scanner, accepts exactly the strings of the JSON number
  grammar \<open>-?(0|[1-9][0-9]*)(.[0-9]+)?([eE][+-]?[0-9]+)?\<close>.\<close>

theorem scanner_accepts_grammar: "valid_json_number s = json_number_lang s"
  by (rule valid_json_number_grammar)

text \<open>\<open>formatCanonicalFloat\<close> succeeds on every float that is neither NaN nor infinite (its two
  defensive error branches are dead), and what it writes is number text that carries a point
  or an exponent, so no float is ever rendered as the token of an integer.\<close>

theorem finite_floats_render:
  assumes "float_ok f" "f \<noteq> FNaN" "\<forall>s. f \<noteq> FInf s"
  shows "\<exists>s. format_canonical_float f = Inr s \<and> number_token s \<and> \<not> is_json_integer_token s"
proof -
  obtain s where "format_canonical_float f = Inr s"
    using format_canonical_float_total[OF assms(1,2)] assms(3) by blast
  with format_canonical_float_number[OF _ assms(1)] format_canonical_float_not_integer show ?thesis by blast
qed

theorem finite_floats_render_witness:
  "\<exists>s. format_canonical_float (FFin True [1, 5] 20) = Inr s \<and> number_token s \<and> \<not> is_json_integer_token s"
  by (rule finite_floats_render) simp_all

end
