(* ===== verification/Canonical_String.thy ===== *)
theory Canonical_String
  imports Go_Values
begin

text \<open>
  The two string flavours of \<open>canonical.go\<close>: \<open>writeCanonicalString\<close> (UTF-8 passed through,
  CPython's \<open>ensure_ascii=False\<close>) and \<open>writeCanonicalStringASCII\<close>.  What the document
  writer relies on is one interface, the locale \<open>string_escaper\<close>: the closing quote of an
  escaped string can be found, so string and remaining text are determined by the output.
  Both flavours interpret it.
\<close>

section \<open>The escapes\<close>

abbreviation "dquote \<equiv> CHR 0x22"
abbreviation "backslash \<equiv> CHR 0x5C"

text \<open>The seven two-character escapes of both \<open>switch\<close> statements.\<close>

definition short_escape :: "char \<Rightarrow> char option" where
  "short_escape c =
    (if c = dquote then Some dquote
     else if c = backslash then Some backslash
     else if c = CHR 0x08 then Some (CHR ''b'')
     else if c = CHR 0x0C then Some (CHR ''f'')
     else if c = CHR 0x0A then Some (CHR ''n'')
     else if c = CHR 0x0D then Some (CHR ''r'')
     else if c = CHR 0x09 then Some (CHR ''t'')
     else None)"

definition escape_byte :: "char \<Rightarrow> string" where
  "escape_byte c =
    (case short_escape c of Some e \<Rightarrow> [backslash, e]
     | None \<Rightarrow> if byte c < 32 then backslash # CHR ''u'' # hex4 (byte c) else [c])"

definition escape_rune :: "nat \<Rightarrow> string" where
  "escape_rune r =
    (case (if r < 128 then short_escape (chr r) else None) of
       Some e \<Rightarrow> [backslash, e]
     | None \<Rightarrow>
        if r < 32 \<or> r = 127 then backslash # CHR ''u'' # hex4 r
        else if r < 128 then [chr r]
        else if r > 65535 then
          (let r' = r - 65536
           in backslash # CHR ''u'' # hex4 (55296 + r' div 1024)
              @ backslash # CHR ''u'' # hex4 (56320 + r' mod 1024))
        else backslash # CHR ''u'' # hex4 r)"

definition write_string_ascii :: "string \<Rightarrow> string" where
  "write_string_ascii s = dquote # concat (map escape_rune (the (runes s))) @ [dquote]"

definition write_canonical_string :: "bool \<Rightarrow> string \<Rightarrow> kerror + string" where
  "write_canonical_string ascii s =
    (if \<not> valid_string s then Inl (Plain ''canonical JSON: string is not valid UTF-8'' [s])
     else if ascii then Inr (write_string_ascii s)
     else Inr (dquote # concat (map escape_byte s) @ [dquote]))"

section \<open>The interface the document writer relies on\<close>

text \<open>A rendering of strings, total on the good ones, from which string and remaining text
  can be read back.\<close>

locale string_escaper =
  fixes render :: "string \<Rightarrow> string" and good :: "string \<Rightarrow> bool"
  assumes render_unique: "good s \<Longrightarrow> good t \<Longrightarrow> render s @ u = render t @ v \<Longrightarrow> s = t \<and> u = v"
    and render_quote: "\<exists>r. render s = dquote # r"

text \<open>A code given symbol by symbol: the symbols' codes are prefix-free and none starts with
  the terminator.\<close>

locale symbol_code =
  fixes code :: "'a \<Rightarrow> string" and valid :: "'a \<Rightarrow> bool" and stop :: char
  assumes code_unique: "valid a \<Longrightarrow> valid b \<Longrightarrow> code a @ u = code b @ v \<Longrightarrow> a = b \<and> u = v"
    and code_not_stop: "valid a \<Longrightarrow> code a @ u \<noteq> stop # v"
begin

lemma list_unique:
  assumes "list_all valid xs" "list_all valid ys"
    and "concat (map code xs) @ stop # u = concat (map code ys) @ stop # v"
  shows "xs = ys \<and> u = v"
  using assms
proof (induction xs arbitrary: ys)
  case Nil
  then show ?case by (cases ys) (auto dest: code_not_stop[THEN not_sym])
next
  case (Cons x xs)
  show ?case
  proof (cases ys)
    case Nil
    then show ?thesis using Cons.prems by (auto dest: code_not_stop)
  next
    case (Cons y ys')
    have "x = y \<and> concat (map code xs) @ stop # u = concat (map code ys') @ stop # v"
      using Cons.prems Cons by (intro code_unique) auto
    then show ?thesis using Cons.IH[of ys'] Cons.prems Cons by auto
  qed
qed

end

section \<open>Both flavours provide it\<close>

lemma short_escape_cases:
  "short_escape c = Some e \<Longrightarrow> short_escape d = Some e \<Longrightarrow> c = d"
  "short_escape c = Some e \<Longrightarrow> e \<noteq> CHR ''u''"
  "short_escape c = None \<Longrightarrow> c \<noteq> dquote \<and> c \<noteq> backslash"
  by (auto simp: short_escape_def split: if_splits)

lemma short_escape_ascii: "short_escape c = Some e \<Longrightarrow> byte c < 128"
  by (auto simp: short_escape_def byte_def split: if_splits)

lemma hex4_app: "m < 65536 \<Longrightarrow> n < 65536 \<Longrightarrow> hex4 m @ u = hex4 n @ v \<longleftrightarrow> m = n \<and> u = v"
  using hex4_inject by (auto simp: append_eq_append_conv)

lemma escape_byte_shape:
  obtains (short) e where "short_escape c = Some e" "escape_byte c = [backslash, e]"
  | (control) "escape_byte c = backslash # CHR ''u'' # hex4 (byte c)"
  | (plain) "escape_byte c = [c]" "c \<noteq> backslash" "c \<noteq> dquote"
proof (cases "short_escape c")
  case None
  then show ?thesis using plain control short_escape_cases(3)[OF None]
    by (cases "byte c < 32") (simp_all add: escape_byte_def)
next
  case (Some e)
  then show ?thesis using short by (simp add: escape_byte_def)
qed

lemma escape_byte_unique:
  assumes "escape_byte c @ u = escape_byte d @ v"
  shows "c = d \<and> u = v"
proof (cases c rule: escape_byte_shape)
  case (short e)
  show ?thesis
  proof (cases d rule: escape_byte_shape)
    case (short e')
    with \<open>escape_byte c = [backslash, e]\<close> assms have "e = e'" "u = v" by simp_all
    with short \<open>short_escape c = Some e\<close> show ?thesis by (metis short_escape_cases(1))
  qed (use short assms short_escape_cases(2)[of c e] in simp_all)
next
  case control
  have b: "byte x < 65536" for x using byte_less[of x] by linarith
  show ?thesis
  proof (cases d rule: escape_byte_shape)
    case control
    with \<open>escape_byte c = _\<close> assms show ?thesis using hex4_app[OF b b, of c u d v] by simp
  qed (use control assms short_escape_cases(2)[of d] in auto)
next
  case plain
  show ?thesis
    by (cases d rule: escape_byte_shape) (use plain assms in simp_all)
qed

lemma escape_byte_not_quote: "escape_byte c @ u \<noteq> dquote # v"
  by (cases c rule: escape_byte_shape) simp_all

interpretation raw_code: symbol_code escape_byte "\<lambda>_. True" dquote
  by unfold_locales (auto dest: escape_byte_unique simp: escape_byte_not_quote)

text \<open>The ASCII flavour: one or two \<open>\u\<close> escapes a rune.\<close>

lemma escape_rune_shape:
  assumes "valid_rune r"
  obtains (short) e where "r < 128" "short_escape (chr r) = Some e" "escape_rune r = [backslash, e]"
  | (plain) "r < 128" "short_escape (chr r) = None" "escape_rune r = [chr r]"
  | (one) "r < 65536" "r < 55296 \<or> 57344 \<le> r" "escape_rune r = backslash # CHR ''u'' # hex4 r"
  | (pair) hi lo where "65536 \<le> r" "hi < 1024" "lo < 1024" "r = 65536 + 1024 * hi + lo"
      "escape_rune r = backslash # CHR ''u'' # hex4 (55296 + hi) @ backslash # CHR ''u'' # hex4 (56320 + lo)"
proof -
  consider "r < 128" "short_escape (chr r) \<noteq> None" | "r < 128" "short_escape (chr r) = None"
    | "128 \<le> r" "r < 65536" | "65536 \<le> r" by linarith
  then show thesis
  proof cases
    case 1
    then show ?thesis using short by (auto simp: escape_rune_def)
  next
    case 2
    show ?thesis
    proof (cases "r < 32 \<or> r = 127")
      case True
      then show ?thesis using one 2 by (auto simp: escape_rune_def)
    next
      case False
      then show ?thesis using plain 2 by (auto simp: escape_rune_def)
    qed
  next
    case 3
    then show ?thesis using one assms by (auto simp: escape_rune_def valid_rune_def)
  next
    case 4
    define hi lo where "hi = (r - 65536) div 1024" and "lo = (r - 65536) mod 1024"
    have "r - 65536 < 1024 * 1024" using assms 4 by (auto simp: valid_rune_def)
    then have "hi < 1024" by (simp add: hi_def div_less_iff_less_mult)
    moreover have "lo < 1024" by (simp add: lo_def)
    moreover have "r = 65536 + 1024 * hi + lo"
      using 4 mult_div_mod_eq[of 1024 "r - 65536"] by (simp add: hi_def lo_def)
    moreover have "escape_rune r = backslash # CHR ''u'' # hex4 (55296 + hi)
        @ backslash # CHR ''u'' # hex4 (56320 + lo)"
      using 4 by (simp add: escape_rune_def hi_def lo_def Let_def)
    ultimately show ?thesis using 4 pair by blast
  qed
qed

lemma escape_rune_unique:
  assumes r: "valid_rune r" and s: "valid_rune s" and eq: "escape_rune r @ u = escape_rune s @ v"
  shows "r = s \<and> u = v"
  using r
proof (cases rule: escape_rune_shape)
  case (short e)
  from s show ?thesis
  proof (cases rule: escape_rune_shape)
    case (short e')
    with \<open>escape_rune r = [backslash, e]\<close> eq have "e = e'" "u = v" by auto
    with short \<open>short_escape (chr r) = Some e\<close> have "chr r = chr s" by (metis short_escape_cases(1))
    then have "byte (chr r) = byte (chr s)" by simp
    with \<open>r < 128\<close> \<open>s < 128\<close> \<open>u = v\<close> show ?thesis by simp
  qed (use short eq short_escape_cases(2,3)[of "chr r"] short_escape_cases(3)[of "chr s"] in auto)
next
  case plain
  have n: "chr r \<noteq> backslash" using plain(2) short_escape_cases(3) by blast
  from s show ?thesis
  proof (cases rule: escape_rune_shape)
    case plain
    with \<open>escape_rune r = [chr r]\<close> eq have "chr r = chr s" "u = v" by auto
    then have "byte (chr r) = byte (chr s)" by simp
    with \<open>r < 128\<close> plain(1) \<open>u = v\<close> show ?thesis by simp
  qed (use plain eq n in auto)
next
  case one
  from s show ?thesis
  proof (cases rule: escape_rune_shape)
    case one
    with \<open>escape_rune r = backslash # CHR ''u'' # hex4 r\<close> eq \<open>r < 65536\<close>
    show ?thesis using hex4_app[of r s u v] by simp
  next
    case (pair hi lo)
    with one eq have "r = 55296 + hi" by (simp add: hex4_inject)
    with one(2) pair(2) show ?thesis by simp
  qed (use one eq short_escape_cases(2,3)[of "chr s"] in auto)
next
  case (pair hi lo)
  from s show ?thesis
  proof (cases rule: escape_rune_shape)
    case one
    with pair eq have "s = 55296 + hi" by (simp add: hex4_inject)
    with one(2) pair(2) show ?thesis by simp
  next
    case (pair hi' lo')
    with \<open>escape_rune r = _\<close> eq \<open>hi < 1024\<close> \<open>lo < 1024\<close>
    have "hi = hi' \<and> lo = lo' \<and> u = v" by (simp add: hex4_inject)
    with \<open>r = 65536 + 1024 * hi + lo\<close> \<open>s = _\<close> show ?thesis by simp
  qed (use pair eq short_escape_cases(2,3)[of "chr s"] in auto)
qed

lemma escape_rune_not_quote:
  assumes "valid_rune r"
  shows "escape_rune r @ u \<noteq> dquote # v"
  using assms
proof (cases rule: escape_rune_shape)
  case plain
  then show ?thesis using short_escape_cases(3)[OF plain(2)] by simp
qed simp_all

interpretation ascii_code: symbol_code escape_rune valid_rune dquote
  by unfold_locales (auto dest: escape_rune_unique simp: escape_rune_not_quote)

definition render_string :: "bool \<Rightarrow> string \<Rightarrow> string" where
  "render_string ascii s =
    (if ascii then write_string_ascii s else dquote # concat (map escape_byte s) @ [dquote])"

lemma write_canonical_string_eq:
  "write_canonical_string ascii s =
    (if valid_string s then Inr (render_string ascii s)
     else Inl (Plain ''canonical JSON: string is not valid UTF-8'' [s]))"
  by (simp add: write_canonical_string_def render_string_def)

lemma render_string_unique:
  assumes "valid_string s" "valid_string t" "render_string ascii s @ u = render_string ascii t @ v"
  shows "s = t \<and> u = v"
proof (cases ascii)
  case True
  obtain rs ss where r: "runes s = Some rs" "list_all valid_rune rs" "runes t = Some ss" "list_all valid_rune ss"
    using assms(1,2) valid_string_runes by metis
  have "rs = ss \<and> u = v"
    using r assms(3) True by (intro ascii_code.list_unique) (auto simp: render_string_def write_string_ascii_def)
  with r runes_inject show ?thesis by blast
next
  case False
  then show ?thesis using assms(3)
    by (intro raw_code.list_unique) (auto simp: render_string_def list_all_iff)
qed

interpretation canonical_escaper: string_escaper "render_string ascii" valid_string
proof unfold_locales
  show "\<exists>r. render_string ascii s = dquote # r" for s
    by (simp add: render_string_def write_string_ascii_def)
qed (use render_string_unique in blast)+

section \<open>Properties\<close>

text \<open>The string writers are unambiguous inside a document: in the raw and in the ASCII flavour,
  two valid strings whose renderings start the same text are equal, and so is what follows.\<close>

theorem string_rendering_unambiguous:
  assumes "write_canonical_string ascii s = Inr a" "write_canonical_string ascii t = Inr b" "a @ u = b @ v"
  shows "s = t \<and> u = v"
  using assms render_string_unique[of s t ascii u v]
  by (simp add: write_canonical_string_eq split: if_splits)

theorem string_rendering_unambiguous_witness: "''a'' = ''a'' \<and> '','' = '',''"
proof -
  have v: "valid_string ''a''" by (rule valid_string_ascii) (simp add: byte_def)
  then show ?thesis
    by (intro string_rendering_unambiguous[of True "''a''" "render_string True ''a''" "''a''" "render_string True ''a''" "'',''" "'',''"])
      (simp_all add: write_canonical_string_eq)
qed

end
