(* ===== verification/Canonical_Json.thy ===== *)
theory Canonical_Json
  imports Canonical_Number Canonical_String
begin

text \<open>
  The document writer of \<open>canonical.go\<close>: \<open>writeCanonicalValue\<close> and
  \<open>writeCanonicalReflect\<close>, which share one type switch here, and the entry points
  \<open>CanonicalJSONBytes\<close> and \<open>CanonicalJSONASCIIBytes\<close>.  A value here is a tree, so the
  \<open>seen\<close> set of containers being written never meets a cycle.

  The writer is then factored through a normal form: \<open>canonical_tree\<close> is the JSON document a
  value denotes (members sorted, numbers rendered), \<open>print_json\<close> its text.  The text
  determines the tree, and so equal canonical bytes mean equal documents.
\<close>

section \<open>The writer\<close>

definition write_number :: "golib \<Rightarrow> string \<Rightarrow> kerror + string" where
  "write_number lib s =
    (if \<not> valid_json_number s then Inl (Plain ''canonical JSON: json.Number is not a valid JSON number'' [s])
     else if is_json_integer_token s then (if s = ''-0'' then Inr ''0'' else Inr s)
     else (case parse_float lib s of
             None \<Rightarrow> Inl (Plain ''canonical JSON: json.Number is not a number'' [s])
           | Some f \<Rightarrow> format_canonical_float f))"

text \<open>\<open>sortedKeys\<close> and the loop that follows it: the members in key order.\<close>

definition sorted_fields :: "(string \<times> 'v) list \<Rightarrow> (string \<times> 'v) list" where
  "sorted_fields kvs = sort_key fst kvs"

definition comma :: "bool \<Rightarrow> string" where
  "comma first = (if first then [] else '','')"

function (sequential) write_value :: "golib \<Rightarrow> bool \<Rightarrow> gval \<Rightarrow> kerror + string"
  and write_items :: "golib \<Rightarrow> bool \<Rightarrow> bool \<Rightarrow> gval list \<Rightarrow> kerror + string"
  and write_fields :: "golib \<Rightarrow> bool \<Rightarrow> bool \<Rightarrow> (string \<times> gval) list \<Rightarrow> kerror + string"
where
  "write_value lib asc VNil = Inr ''null''"
| "write_value lib asc (VBool b) = Inr (if b then ''true'' else ''false'')"
| "write_value lib asc (VString s) = write_canonical_string asc s"
| "write_value lib asc (VNumber s) = write_number lib s"
| "write_value lib asc (VFloat f) = format_canonical_float f"
| "write_value lib asc (VFloat32 f g) = format_canonical_float f"
| "write_value lib asc (VInt i) = Inr (itoa i)"
| "write_value lib asc VNilSlice = Inr ''null''"
| "write_value lib asc (VSlice xs) =
     bindR (write_items lib asc True xs) (\<lambda>s. Inr (''['' @ s @ '']''))"
| "write_value lib asc (VBytes bs) =
     Inr (''['' @ concat (map (\<lambda>i. comma (i = 0) @ itoa (int (byte (bs ! i)))) [0..<length bs]) @ '']'')"
| "write_value lib asc VNilMap = Inr ''null''"
| "write_value lib asc (VMap kvs) =
     bindR (write_fields lib asc True (sorted_fields kvs)) (\<lambda>s. Inr (''{'' @ s @ ''}''))"
| "write_value lib asc (VNamedMap kvs) =
     (case sorted_fields kvs of
        [] \<Rightarrow> Inr ''{}''
      | (k, v) # r \<Rightarrow>
          bindR (write_canonical_string asc k)
            (\<lambda>_. Inl (Panic ''reflect.Value.MapIndex: value of type string is not assignable'')))"
| "write_value lib asc (VOtherMap j) = Inl (Plain ''canonical JSON: map keys must be strings'' [])"
| "write_value lib asc VNilPtr = Inr ''null''"
| "write_value lib asc (VPtr v) = write_value lib asc v"
| "write_value lib asc (VOpaque j) = Inl (Plain ''canonical JSON: unsupported type'' [])"
| "write_items lib asc first [] = Inr []"
| "write_items lib asc first (x # xs) =
     bindR (write_value lib asc x)
       (\<lambda>s. bindR (write_items lib asc False xs) (\<lambda>t. Inr (comma first @ s @ t)))"
| "write_fields lib asc first [] = Inr []"
| "write_fields lib asc first ((k, v) # kvs) =
     bindR (write_canonical_string asc k)
       (\<lambda>ks. bindR (write_value lib asc v)
         (\<lambda>s. bindR (write_fields lib asc False kvs)
           (\<lambda>t. Inr (comma first @ ks @ '':'' @ s @ t))))"
  by pat_completeness auto
termination
  by (relation "measure (\<lambda>x. case x of
        Inl (_, _, v) \<Rightarrow> size v
      | Inr (Inl (_, _, _, xs)) \<Rightarrow> size_list size xs
      | Inr (Inr (_, _, _, kvs)) \<Rightarrow> size_list (size_prod (\<lambda>_. 0) size) kvs)")
    (auto simp: sorted_fields_def)

definition canonical_json_bytes :: "golib \<Rightarrow> gval \<Rightarrow> kerror + string" where
  "canonical_json_bytes lib v = write_value lib False v"

definition canonical_json_ascii_bytes :: "golib \<Rightarrow> gval \<Rightarrow> kerror + string" where
  "canonical_json_ascii_bytes lib v = write_value lib True v"

section \<open>The document a value denotes\<close>

definition check_string :: "string \<Rightarrow> kerror + string" where
  "check_string s = (if valid_string s then Inr s
     else Inl (Plain ''canonical JSON: string is not valid UTF-8'' [s]))"

function (sequential) canonical_tree :: "golib \<Rightarrow> gval \<Rightarrow> kerror + json"
  and canonical_items :: "golib \<Rightarrow> gval list \<Rightarrow> kerror + json list"
  and canonical_fields :: "golib \<Rightarrow> (string \<times> gval) list \<Rightarrow> kerror + (string \<times> json) list"
where
  "canonical_tree lib (VBool b) = Inr (JBool b)"
| "canonical_tree lib (VString s) = bindR (check_string s) (\<lambda>s. Inr (JStr s))"
| "canonical_tree lib (VNumber s) = bindR (write_number lib s) (\<lambda>t. Inr (JNum t))"
| "canonical_tree lib (VFloat f) = bindR (format_canonical_float f) (\<lambda>t. Inr (JNum t))"
| "canonical_tree lib (VFloat32 f g) = bindR (format_canonical_float f) (\<lambda>t. Inr (JNum t))"
| "canonical_tree lib (VInt i) = Inr (JNum (itoa i))"
| "canonical_tree lib (VSlice xs) = bindR (canonical_items lib xs) (\<lambda>js. Inr (JArr js))"
| "canonical_tree lib (VBytes bs) = Inr (JArr (map (\<lambda>c. JNum (itoa (int (byte c)))) bs))"
| "canonical_tree lib (VMap kvs) = bindR (canonical_fields lib (sorted_fields kvs)) (\<lambda>js. Inr (JObj js))"
| "canonical_tree lib (VNamedMap kvs) =
     (case sorted_fields kvs of
        [] \<Rightarrow> Inr (JObj [])
      | (k, v) # r \<Rightarrow> bindR (check_string k)
            (\<lambda>_. Inl (Panic ''reflect.Value.MapIndex: value of type string is not assignable'')))"
| "canonical_tree lib (VOtherMap j) = Inl (Plain ''canonical JSON: map keys must be strings'' [])"
| "canonical_tree lib (VPtr v) = canonical_tree lib v"
| "canonical_tree lib (VOpaque j) = Inl (Plain ''canonical JSON: unsupported type'' [])"
| "canonical_tree lib _ = Inr JNull"
| "canonical_items lib [] = Inr []"
| "canonical_items lib (x # xs) =
     bindR (canonical_tree lib x) (\<lambda>j. bindR (canonical_items lib xs) (\<lambda>js. Inr (j # js)))"
| "canonical_fields lib [] = Inr []"
| "canonical_fields lib ((k, v) # kvs) =
     bindR (check_string k) (\<lambda>k'. bindR (canonical_tree lib v)
       (\<lambda>j. bindR (canonical_fields lib kvs) (\<lambda>js. Inr ((k', j) # js))))"
  by pat_completeness auto
termination
  by (relation "measure (\<lambda>x. case x of
        Inl (_, v) \<Rightarrow> size v
      | Inr (Inl (_, xs)) \<Rightarrow> size_list size xs
      | Inr (Inr (_, kvs)) \<Rightarrow> size_list (size_prod (\<lambda>_. 0) size) kvs)")
    (auto simp: sorted_fields_def)

fun print_json :: "(string \<Rightarrow> string) \<Rightarrow> json \<Rightarrow> string"
  and print_items :: "(string \<Rightarrow> string) \<Rightarrow> bool \<Rightarrow> json list \<Rightarrow> string"
  and print_fields :: "(string \<Rightarrow> string) \<Rightarrow> bool \<Rightarrow> (string \<times> json) list \<Rightarrow> string"
where
  "print_json r JNull = ''null''"
| "print_json r (JBool b) = (if b then ''true'' else ''false'')"
| "print_json r (JNum t) = t"
| "print_json r (JStr s) = r s"
| "print_json r (JArr js) = ''['' @ print_items r True js @ '']''"
| "print_json r (JObj js) = ''{'' @ print_fields r True js @ ''}''"
| "print_items r first [] = []"
| "print_items r first (j # js) = comma first @ print_json r j @ print_items r False js"
| "print_fields r first [] = []"
| "print_fields r first ((k, j) # js) =
     comma first @ r k @ '':'' @ print_json r j @ print_fields r False js"

abbreviation map_result :: "('a \<Rightarrow> 'b) \<Rightarrow> kerror + 'a \<Rightarrow> kerror + 'b" where
  "map_result f r \<equiv> bindR r (\<lambda>x. Inr (f x))"

lemma write_canonical_string_check:
  "write_canonical_string asc s = map_result (render_string asc) (check_string s)"
  by (simp add: write_canonical_string_eq check_string_def)

lemma bytes_items:
  "concat (map (\<lambda>i. comma (first \<and> i = 0) @ itoa (int (byte (bs ! i)))) [0..<length bs])
   = print_items r first (map (\<lambda>c. JNum (itoa (int (byte c)))) bs)"
proof (induction bs arbitrary: first)
  case (Cons c bs)
  have "map (\<lambda>i. comma (first \<and> i = 0) @ itoa (int (byte ((c # bs) ! i)))) [0..<length (c # bs)]
      = (comma first @ itoa (int (byte c)))
        # map (\<lambda>i. comma (False \<and> i = 0) @ itoa (int (byte (bs ! i)))) [0..<length bs]"
    by (simp add: upt_conv_Cons map_Suc_upt[symmetric] del: upt_Suc)
  then show ?case using Cons.IH[of False] by simp
qed simp

lemma write_value_print:
  "write_value lib asc v = map_result (print_json (render_string asc)) (canonical_tree lib v)"
  "write_items lib asc first xs = map_result (print_items (render_string asc) first) (canonical_items lib xs)"
  "write_fields lib asc first kvs = map_result (print_fields (render_string asc) first) (canonical_fields lib kvs)"
proof (induction lib asc v and lib asc first xs and lib asc first kvs
    rule: write_value_write_items_write_fields.induct)
  case (10 lib asc bs)
  then show ?case using bytes_items[of True bs] by simp
next
  case (13 lib asc kvs)
  then show ?case
    by (auto simp: write_canonical_string_check bindR_def split: list.splits sum.splits)
qed (auto simp: write_canonical_string_check bindR_assoc bindR_def split: sum.splits)

end
