(* ===== verification/Canonical_Unique.thy ===== *)
theory Canonical_Unique
  imports Canonical_Json
begin

text \<open>
  Unique readability of canonical JSON, proved once for every string rendering that meets
  the interface \<open>string_escaper\<close>, and the facts on the writer it gives: the output
  determines the document, and it does not depend on the order in which Go ranges over the
  maps inside the value.
\<close>

section \<open>Documents the writer produces\<close>

fun json_ok :: "(string \<Rightarrow> bool) \<Rightarrow> json \<Rightarrow> bool" where
  "json_ok good (JNum t) = number_token t"
| "json_ok good (JStr s) = good s"
| "json_ok good (JArr js) = list_all (json_ok good) js"
| "json_ok good (JObj js) = list_all (\<lambda>(k, j). good k \<and> json_ok good j) js"
| "json_ok good _ = True"

text \<open>What can follow a value inside a document.\<close>

definition delimited :: "string \<Rightarrow> bool" where
  "delimited u \<longleftrightarrow> u = [] \<or> hd u \<in> {CHR '','', CHR '']'', CHR ''}''}"

lemma delimited_simps [simp]:
  "delimited []" "delimited (CHR '','' # u)" "delimited (CHR '']'' # u)" "delimited (CHR ''}'' # u)"
  by (simp_all add: delimited_def)

lemma number_unique:
  assumes "number_token s" "number_token t" "delimited u" "delimited v" "s @ u = t @ v"
  shows "s = t \<and> u = v"
proof -
  have tw: "takeWhile number_char (s @ u) = s" if "number_token s" "delimited u" for s u
  proof -
    have "u = [] \<or> \<not> number_char (hd u)"
      using that(2) by (auto simp: delimited_def number_char_def is_digit_def byte_def)
    then have "takeWhile number_char u = []" by (cases u) auto
    then show ?thesis using that(1) by (simp add: number_token_def list_all_iff)
  qed
  have "s = t" using tw[OF assms(1,3)] tw[OF assms(2,4)] assms(5) by simp
  with assms(5) show ?thesis by simp
qed

lemma number_token_start: "number_token t \<Longrightarrow>
  \<exists>c r. t = c # r \<and> (is_digit c \<or> c = CHR ''-'')"
  by (cases t) (auto simp: number_token_def)

lemma start_chars [simp]:
  "\<not> is_digit (CHR ''n'')" "\<not> is_digit (CHR ''t'')" "\<not> is_digit (CHR ''f'')" "\<not> is_digit dquote"
  "\<not> is_digit (CHR ''['')" "\<not> is_digit (CHR ''{'')" "\<not> is_digit (CHR '','')"
  "\<not> is_digit (CHR '']'')" "\<not> is_digit (CHR ''}'')"
  by (simp_all add: is_digit_def byte_def)

text \<open>The kinds of a document, told apart by their first byte.\<close>

definition kind_of_start :: "char \<Rightarrow> nat" where
  "kind_of_start c = (if c = CHR ''n'' then 0 else if c = CHR ''t'' then 1 else if c = CHR ''f'' then 2
    else if c = dquote then 3 else if c = CHR ''['' then 4 else if c = CHR ''{'' then 5
    else if is_digit c \<or> c = CHR ''-'' then 6 else 7)"

fun json_kind :: "json \<Rightarrow> nat" where
  "json_kind JNull = 0"
| "json_kind (JBool b) = (if b then 1 else 2)"
| "json_kind (JStr s) = 3"
| "json_kind (JArr js) = 4"
| "json_kind (JObj js) = 5"
| "json_kind (JNum t) = 6"

lemma kind_of_number_start:
  assumes "is_digit c \<or> c = CHR ''-''"
  shows "kind_of_start c = 6" "c \<notin> {CHR '']'', CHR ''}'', CHR '',''}"
proof -
  have n: "c \<noteq> x" if "\<not> is_digit x" "x \<noteq> CHR ''-''" for x using assms that by blast
  then show "c \<notin> {CHR '']'', CHR ''}'', CHR '',''}" by simp
  show "kind_of_start c = 6"
    unfolding kind_of_start_def using assms n[of "CHR ''n''"] n[of "CHR ''t''"] n[of "CHR ''f''"]
      n[of dquote] n[of "CHR ''[''"] n[of "CHR ''{''"] by simp
qed

lemma print_items_delimited: "delimited (print_items r False js @ CHR '']'' # u)"
  by (cases js) (simp_all add: comma_def)

lemma print_fields_delimited: "delimited (print_fields r False js @ CHR ''}'' # u)"
  by (cases js) (auto simp: comma_def)

context string_escaper begin

lemma print_start:
  assumes "json_ok good j"
  shows "\<exists>c r. print_json render j = c # r \<and> kind_of_start c = json_kind j \<and> c \<notin> {CHR '']'', CHR ''}'', CHR '',''}"
proof (cases j)
  case (JNum t)
  then have "number_token t" using assms by simp
  then obtain c r where "t = c # r" "is_digit c \<or> c = CHR ''-''" using number_token_start by blast
  with JNum kind_of_number_start show ?thesis by simp
next
  case (JStr s)
  then show ?thesis using render_quote[of s] by (auto simp: kind_of_start_def)
qed (auto simp: kind_of_start_def)

lemma print_same_kind:
  assumes "json_ok good j" "json_ok good j'" "print_json render j @ u = print_json render j' @ v"
  shows "json_kind j = json_kind j'"
proof -
  obtain c r where c: "print_json render j = c # r" "kind_of_start c = json_kind j"
    using print_start[OF assms(1)] by blast
  obtain c' r' where c': "print_json render j' = c' # r'" "kind_of_start c' = json_kind j'"
    using print_start[OF assms(2)] by blast
  have "c = c'" using assms(3) unfolding c(1) c'(1) by simp
  with c(2) c'(2) show ?thesis by simp
qed

lemma items_end:
  assumes "list_all (json_ok good) js" "print_items render first js @ CHR '']'' # u = CHR '']'' # v"
  shows "js = [] \<and> u = v"
proof (cases js)
  case (Cons j js')
  then show ?thesis using assms print_start[of j] by (cases first) (auto simp: comma_def)
qed (use assms in simp)

lemma fields_end:
  assumes "print_fields render first js @ CHR ''}'' # u = CHR ''}'' # v"
  shows "js = [] \<and> u = v"
proof (cases js)
  case (Cons kj js')
  then show ?thesis using assms render_quote[of "fst kj"] by (cases kj; cases first) (auto simp: comma_def)
qed (use assms in simp)

lemma items_unique:
  assumes "\<And>j j' u v. j \<in> set js \<Longrightarrow> json_ok good j \<Longrightarrow> json_ok good j' \<Longrightarrow> delimited u \<Longrightarrow> delimited v \<Longrightarrow>
      print_json render j @ u = print_json render j' @ v \<Longrightarrow> j = j' \<and> u = v"
    and "list_all (json_ok good) js" "list_all (json_ok good) js'"
    and "print_items render first js @ CHR '']'' # u = print_items render first js' @ CHR '']'' # v"
  shows "js = js' \<and> u = v"
  using assms
proof (induction js arbitrary: js' first)
  case Nil
  then show ?case using items_end[of js' first v u] by auto
next
  case (Cons j js)
  show ?case
  proof (cases js')
    case Nil
    then show ?thesis using items_end[of "j # js" first u v] Cons.prems by simp
  next
    case (Cons j' js'')
    have "j = j' \<and> print_items render False js @ CHR '']'' # u = print_items render False js'' @ CHR '']'' # v"
      using Cons.prems(2-4) Cons by (intro Cons.prems(1) print_items_delimited) (auto simp: comma_def)
    then show ?thesis using Cons.IH[of js'' False] Cons.prems Cons by auto
  qed
qed

lemma fields_unique:
  assumes "\<And>k j j' u v. (k, j) \<in> set js \<Longrightarrow> json_ok good j \<Longrightarrow> json_ok good j' \<Longrightarrow> delimited u \<Longrightarrow> delimited v \<Longrightarrow>
      print_json render j @ u = print_json render j' @ v \<Longrightarrow> j = j' \<and> u = v"
    and "list_all (\<lambda>(k, j). good k \<and> json_ok good j) js" "list_all (\<lambda>(k, j). good k \<and> json_ok good j) js'"
    and "print_fields render first js @ CHR ''}'' # u = print_fields render first js' @ CHR ''}'' # v"
  shows "js = js' \<and> u = v"
  using assms
proof (induction js arbitrary: js' first)
  case Nil
  then show ?case using fields_end[of first js' v u] by auto
next
  case (Cons kj js)
  obtain k j where kj: "kj = (k, j)" by (cases kj)
  show ?case
  proof (cases js')
    case Nil
    then show ?thesis using fields_end[of first "kj # js" u v] Cons.prems by simp
  next
    case (Cons kj' js'')
    obtain k' j' where kj': "kj' = (k', j')" by (cases kj')
    have "k = k' \<and> CHR '':'' # print_json render j @ print_fields render False js @ CHR ''}'' # u
        = CHR '':'' # print_json render j' @ print_fields render False js'' @ CHR ''}'' # v"
      using Cons.prems(2-4) Cons kj kj' by (intro render_unique) (auto simp: comma_def)
    moreover from this have "j = j' \<and> print_fields render False js @ CHR ''}'' # u = print_fields render False js'' @ CHR ''}'' # v"
      using Cons.prems(2,3) Cons kj kj' by (intro Cons.prems(1) print_fields_delimited) auto
    moreover have "js = js'' \<and> u = v" if "print_fields render False js @ CHR ''}'' # u
        = print_fields render False js'' @ CHR ''}'' # v"
    proof (rule Cons.IH[OF _ _ _ that])
      show "list_all (\<lambda>(k, j). good k \<and> json_ok good j) js" using Cons.prems(2) by simp
      show "list_all (\<lambda>(k, j). good k \<and> json_ok good j) js''" using Cons.prems(3) Cons by simp
      show "j = j' \<and> u = v" if "(k, j) \<in> set js" "json_ok good j" "json_ok good j'" "delimited u" "delimited v"
        "print_json render j @ u = print_json render j' @ v" for k j j' u v
        using that by (intro Cons.prems(1)[of k]) simp_all
    qed
    ultimately show ?thesis using Cons kj kj' by simp
  qed
qed

lemma print_unique:
  assumes "json_ok good j" "json_ok good j'" "delimited u" "delimited v"
    and "print_json render j @ u = print_json render j' @ v"
  shows "j = j' \<and> u = v"
  using assms
proof (induction j arbitrary: j' u v)
  case (JNum t)
  then obtain t' where "j' = JNum t'" using print_same_kind[of "JNum t" j' u v] by (cases j') (auto split: if_splits)
  with JNum show ?case using number_unique[of t t' u v] by simp
next
  case (JStr s)
  then obtain s' where "j' = JStr s'" using print_same_kind[of "JStr s" j' u v] by (cases j') (auto split: if_splits)
  with JStr show ?case using render_unique[of s s' u v] by simp
next
  case (JArr js)
  then obtain js' where "j' = JArr js'" using print_same_kind[of "JArr js" j' u v] by (cases j') (auto split: if_splits)
  with JArr show ?case using items_unique[of js js' True u v] by auto
next
  case (JObj js)
  then obtain js' where j': "j' = JObj js'" using print_same_kind[of "JObj js" j' u v] by (cases j') (auto split: if_splits)
  have "js = js' \<and> u = v"
    using JObj.prems j' by (intro fields_unique[of js js' True] JObj.IH) auto
  with j' show ?case by simp
next
  case (JBool b)
  then show ?case using print_same_kind[of "JBool b" j' u v] by (cases j') (auto split: if_splits)
next
  case JNull
  then show ?case using print_same_kind[of JNull j' u v] by (cases j') (auto split: if_splits)
qed

lemma print_inject:
  "json_ok good j \<Longrightarrow> json_ok good j' \<Longrightarrow> print_json render j = print_json render j' \<Longrightarrow> j = j'"
  using print_unique[of j j' "[]" "[]"] by simp

end

section \<open>The output determines the document\<close>

text \<open>The floats inside a value are shortest forms, and so are those \<open>ParseFloat\<close> returns.\<close>

fun gval_ok :: "gval \<Rightarrow> bool" where
  "gval_ok (VFloat f) = float_ok f"
| "gval_ok (VFloat32 f g) = (float_ok f \<and> float_ok g)"
| "gval_ok (VSlice xs) = list_all gval_ok xs"
| "gval_ok (VMap kvs) = list_all (\<lambda>(k, v). gval_ok v) kvs"
| "gval_ok (VNamedMap kvs) = list_all (\<lambda>(k, v). gval_ok v) kvs"
| "gval_ok (VPtr v) = gval_ok v"
| "gval_ok _ = True"

definition lib_ok :: "golib \<Rightarrow> bool" where
  "lib_ok lib \<longleftrightarrow> (\<forall>s f. parse_float lib s = Some f \<longrightarrow> float_ok f)"

lemma write_number_token: "write_number lib s = Inr t \<Longrightarrow> lib_ok lib \<Longrightarrow> number_token t"
proof -
  assume w: "write_number lib s = Inr t" and l: "lib_ok lib"
  then have "json_number_lang s" by (auto simp: write_number_def valid_json_number_grammar split: if_splits)
  moreover have "number_token ''0''" by (simp add: number_token_def)
  ultimately show ?thesis using w l json_number_token[of s] format_canonical_float_number[of _ t]
    by (auto simp: write_number_def lib_ok_def split: if_splits option.splits)
qed

lemma sorted_fields_all: "list_all P (sorted_fields kvs) = list_all P kvs"
  by (simp add: sorted_fields_def list_all_iff)

lemma canonical_tree_ok:
  "gval_ok v \<Longrightarrow> lib_ok lib \<Longrightarrow> canonical_tree lib v = Inr j \<Longrightarrow> json_ok valid_string j"
  "list_all gval_ok xs \<Longrightarrow> lib_ok lib \<Longrightarrow> canonical_items lib xs = Inr js \<Longrightarrow> list_all (json_ok valid_string) js"
  "list_all (\<lambda>(k, v). gval_ok v) kvs \<Longrightarrow> lib_ok lib \<Longrightarrow> canonical_fields lib kvs = Inr kjs \<Longrightarrow>
     list_all (\<lambda>(k, j). valid_string k \<and> json_ok valid_string j) kjs"
proof (induction lib v and lib xs and lib kvs arbitrary: j and js and kjs
    rule: canonical_tree_canonical_items_canonical_fields.induct)
  case (3 lib s)
  then show ?case using write_number_token by (auto simp: bindR_eq_Inr)
next
  case (8 lib bs)
  then show ?case by (auto simp: list_all_iff itoa_number_token)
next
  case (10 lib kvs)
  then show ?case by (auto split: list.splits simp: bindR_eq_Inr)
qed (auto simp: bindR_eq_Inr check_string_def sorted_fields_all format_canonical_float_number
      itoa_number_token split: if_splits)

lemma write_value_inject:
  assumes "lib_ok lib" "gval_ok v" "gval_ok w"
    and "write_value lib asc v = Inr s" "write_value lib asc w = Inr s"
  shows "\<exists>j. canonical_tree lib v = Inr j \<and> canonical_tree lib w = Inr j"
proof -
  obtain j j' where j: "canonical_tree lib v = Inr j" "canonical_tree lib w = Inr j'"
      "print_json (render_string asc) j = s" "print_json (render_string asc) j' = s"
    using assms(4,5) by (auto simp: write_value_print(1) bindR_eq_Inr)
  have "j = j'"
    by (rule canonical_escaper.print_inject[of j j' asc])
       (use j assms(1-3) canonical_tree_ok(1) in auto)
  with j show ?thesis by blast
qed

section \<open>Independence of the iteration order\<close>

text \<open>Two values are the same Go value when they differ only in the order in which the
  members of maps are listed.\<close>

inductive same_value :: "gval \<Rightarrow> gval \<Rightarrow> bool" where
  same_refl: "same_value v v"
| same_slice: "list_all2 same_value xs ys \<Longrightarrow> same_value (VSlice xs) (VSlice ys)"
| same_map: "distinct (map fst kvs) \<Longrightarrow> distinct (map fst kws) \<Longrightarrow>
    \<forall>k. rel_option same_value (map_of kvs k) (map_of kws k) \<Longrightarrow> same_value (VMap kvs) (VMap kws)"
| same_ptr: "same_value v w \<Longrightarrow> same_value (VPtr v) (VPtr w)"
monos option.rel_mono_strong

lemma sorted_fields_map_of:
  assumes "distinct (map fst kvs)"
  shows "sorted_fields kvs = map (\<lambda>k. (k, the (map_of kvs k))) (sort (map fst kvs))"
proof -
  have s: "map fst (sorted_fields kvs) = sort (map fst kvs)"
    by (rule properties_for_sort[symmetric]) (simp_all add: sorted_fields_def)
  have "(k, v) \<in> set (sorted_fields kvs) \<Longrightarrow> v = the (map_of kvs k)" for k v
    using assms by (simp add: sorted_fields_def map_of_is_SomeI)
  then have "sorted_fields kvs = map (\<lambda>k. (k, the (map_of kvs k))) (map fst (sorted_fields kvs))"
    by (simp add: list_eq_iff_nth_eq) (metis nth_mem prod.collapse)
  then show ?thesis by (simp add: s)
qed

lemma sort_keys_eq:
  assumes "distinct (map fst kvs)" "distinct (map fst kws)" "\<And>k. map_of kvs k = None \<longleftrightarrow> map_of kws k = None"
  shows "sort (map fst kvs) = sort (map fst kws)"
proof (rule sorted_distinct_set_unique)
  show "set (sort (map fst kvs)) = set (sort (map fst kws))"
    using assms(3) by (simp add: map_of_eq_None_iff) blast
qed (use assms in simp_all)

lemma write_fields_map_cong:
  assumes "\<And>k. k \<in> set ks \<Longrightarrow> write_value lib asc (f k) = write_value lib asc (g k)"
  shows "write_fields lib asc first (map (\<lambda>k. (k, f k)) ks) = write_fields lib asc first (map (\<lambda>k. (k, g k)) ks)"
  using assms by (induction ks arbitrary: first) simp_all

lemma write_items_cong:
  assumes "list_all2 (\<lambda>v w. write_value lib asc v = write_value lib asc w) xs ys"
  shows "write_items lib asc first xs = write_items lib asc first ys"
  using assms by (induction xs ys arbitrary: first rule: list_all2_induct) simp_all

lemma write_value_same: "same_value v w \<Longrightarrow> write_value lib asc v = write_value lib asc w"
proof (induction rule: same_value.induct)
  case (same_slice xs ys)
  then have "list_all2 (\<lambda>v w. write_value lib asc v = write_value lib asc w) xs ys"
    by (simp add: list_all2_conv_all_nth)
  then show ?case by (simp add: write_items_cong)
next
  case (same_map kvs kws)
  let ?R = "\<lambda>v w. same_value v w \<and> write_value lib asc v = write_value lib asc w"
  have r: "rel_option ?R (map_of kvs k) (map_of kws k)" for k using same_map(3) by blast
  then have n: "map_of kvs k = None \<longleftrightarrow> map_of kws k = None" for k
    using r[of k] by (cases "map_of kvs k"; cases "map_of kws k") simp_all
  have e: "write_value lib asc (the (map_of kvs k)) = write_value lib asc (the (map_of kws k))"
    if "k \<in> set (sort (List.map fst kvs))" for k
  proof -
    have "k \<in> dom (map_of kvs)" using that by (simp add: dom_map_of_conv_image_fst)
    then obtain v where v: "map_of kvs k = Some v" by blast
    with r[of k] obtain w where "map_of kws k = Some w" "?R v w" by (auto simp: option_rel_Some1)
    with v show ?thesis by simp
  qed
  have "write_fields lib asc True (sorted_fields kvs) = write_fields lib asc True (sorted_fields kws)"
    unfolding sorted_fields_map_of[OF same_map(1)] sorted_fields_map_of[OF same_map(2)]
      sort_keys_eq[OF same_map(1,2) n, symmetric]
    by (rule write_fields_map_cong) (rule e)
  then show ?case by simp
qed simp_all

section \<open>Properties\<close>

text \<open>C34: The writer is a printer of documents: \<open>writeCanonicalValue\<close> with \<open>writeCanonicalReflect\<close> fails
  exactly when the value denotes no document, and otherwise writes the text of the document it
  denotes, whose members are sorted by key and whose numbers are rendered.\<close>

theorem writer_prints_document:
  "write_value lib ascii v = map_result (print_json (render_string ascii)) (canonical_tree lib v)"
  by (rule write_value_print(1))

text \<open>C6: Canonical bytes determine the document: two values with the same canonical JSON, in either
  flavour, denote the same document.\<close>

theorem canonical_bytes_determine_document:
  assumes "lib_ok lib" "gval_ok v" "gval_ok w"
    and "write_value lib ascii v = Inr s" "write_value lib ascii w = Inr s"
  shows "\<exists>j. canonical_tree lib v = Inr j \<and> canonical_tree lib w = Inr j"
  by (rule write_value_inject[OF assms])

theorem canonical_bytes_determine_document_witness:
  "\<exists>j. canonical_tree \<lparr>sha256 = id, parse_float = Map.empty\<rparr> (VSlice [VNil, VBool True]) = Inr j
    \<and> canonical_tree \<lparr>sha256 = id, parse_float = Map.empty\<rparr> (VPtr (VSlice [VNilMap, VBool True])) = Inr j"
  by (rule canonical_bytes_determine_document[where s = "''[null,true]''" and ascii = False])
    (simp_all add: lib_ok_def comma_def)

text \<open>Canonical bytes do not depend on the order in which Go ranges over the maps inside the
  value: values that differ only in that order have the same output, errors included.\<close>

theorem canonical_bytes_order_independent:
  assumes "same_value v w"
  shows "write_value lib ascii v = write_value lib ascii w"
  using assms by (rule write_value_same)

theorem canonical_bytes_order_independent_witness:
  "write_value \<lparr>sha256 = id, parse_float = Map.empty\<rparr> False (VMap [(''a'', VInt 1), (''b'', VInt 2)]) = write_value \<lparr>sha256 = id, parse_float = Map.empty\<rparr> False (VMap [(''b'', VInt 2), (''a'', VInt 1)])"
  by (rule canonical_bytes_order_independent, rule same_map) (auto intro: same_refl)

text \<open>A map whose key type is a named string type makes the writer panic as soon as it has a
  member: \<open>MapIndex\<close> is called with a plain string.\<close>

theorem named_string_keys_panic:
  assumes "kvs \<noteq> []" "\<forall>(k, v)\<in>set kvs. valid_string k"
  shows "write_value lib ascii (VNamedMap kvs)
    = Inl (Panic ''reflect.Value.MapIndex: value of type string is not assignable'')"
proof -
  have "set (sorted_fields kvs) = set kvs" by (simp add: sorted_fields_def)
  with assms(1) obtain k v r where kv: "sorted_fields kvs = (k, v) # r"
    by (cases "sorted_fields kvs") auto
  then have "(k, v) \<in> set kvs" by (metis list.set_intros(1) set_sort sorted_fields_def)
  then have "valid_string k" using assms(2) by blast
  with kv show ?thesis by (simp add: write_canonical_string_eq)
qed

theorem named_string_keys_panic_witness:
  "write_value \<lparr>sha256 = id, parse_float = Map.empty\<rparr> True (VNamedMap [(''a'', VNil)])
    = Inl (Panic ''reflect.Value.MapIndex: value of type string is not assignable'')"
proof -
  have "valid_string ''a''" by (rule valid_string_ascii) (simp add: byte_def)
  then show ?thesis by (intro named_string_keys_panic) simp_all
qed

end
