(* ===== verification/Go_Json.thy ===== *)
theory Go_Json
  imports Canonical_Json
begin

text \<open>
  \<open>encoding/json\<close>, the second encoder of the kernel: it writes the JSON columns of the store
  (bodies, parent lists, contexts) and is what two contents are compared by.  \<open>json_marshal\<close>
  is the document \<open>json.Marshal\<close> builds (map members sorted by key, \<open>[]uint8\<close> in base64,
  floats in Go's own format, an integral one without a fraction), \<open>json_text\<close> its text with
  the default HTML-safe escapes, and \<open>json_decode\<close> what \<open>json.Decoder\<close> with \<open>UseNumber\<close>
  reads back: numbers stay tokens, invalid UTF-8 has become U+FFFD.
\<close>

section \<open>Encoding\<close>

definition base64_char :: "nat \<Rightarrow> char" where
  "base64_char n = (if n < 26 then chr (65 + n) else if n < 52 then chr (71 + n)
     else if n < 62 then chr (n - 4) else if n = 62 then CHR ''+'' else CHR ''/'')"

fun base64 :: "string \<Rightarrow> string" where
  "base64 [] = []"
| "base64 [a] = [base64_char (byte a div 4), base64_char (byte a mod 4 * 16), CHR ''='', CHR ''='']"
| "base64 [a, b] = [base64_char (byte a div 4), base64_char (byte a mod 4 * 16 + byte b div 16),
     base64_char (byte b mod 16 * 4), CHR ''='']"
| "base64 (a # b # c # r) = base64_char (byte a div 4) # base64_char (byte a mod 4 * 16 + byte b div 16)
     # base64_char (byte b mod 16 * 4 + byte c div 64) # base64_char (byte c mod 64) # base64 r"

text \<open>Go's own float format: scientific below 1e-6 and from 1e21 on, a one-digit negative
  exponent losing its zero.\<close>

definition go_float :: "gofloat \<Rightarrow> kerror + string" where
  "go_float f =
    (case f of
       FNaN \<Rightarrow> Inl (Plain ''json: unsupported value: NaN'' [])
     | FInf s \<Rightarrow> Inl (Plain ''json: unsupported value: Inf'' [])
     | FZero neg \<Rightarrow> Inr (if neg then ''-0'' else ''0'')
     | FFin neg ds e \<Rightarrow>
         if e < -6 \<or> e \<ge> 21 then
           Inr (if -10 < e \<and> e < 0
                then (let s = format_e neg ds e in take (length s - 2) s @ [last s])
                else format_e neg ds e)
         else Inr (format_f neg ds e))"

function (sequential) json_marshal :: "gval \<Rightarrow> kerror + json"
  and marshal_items :: "gval list \<Rightarrow> kerror + json list"
  and marshal_fields :: "(string \<times> gval) list \<Rightarrow> kerror + (string \<times> json) list"
where
  "json_marshal (VBool b) = Inr (JBool b)"
| "json_marshal (VString s) = Inr (JStr s)"
| "json_marshal (VNumber s) =
     (if s = [] then Inr (JNum ''0'')
      else if valid_json_number s then Inr (JNum s)
      else Inl (Plain ''json: invalid number literal'' [s]))"
| "json_marshal (VFloat f) = bindR (go_float f) (\<lambda>t. Inr (JNum t))"
| "json_marshal (VFloat32 f g) = bindR (go_float g) (\<lambda>t. Inr (JNum t))"
| "json_marshal (VInt i) = Inr (JNum (itoa i))"
| "json_marshal (VSlice xs) = bindR (marshal_items xs) (\<lambda>js. Inr (JArr js))"
| "json_marshal (VBytes bs) = Inr (JStr (base64 bs))"
| "json_marshal (VMap kvs) = bindR (marshal_fields (sorted_fields kvs)) (\<lambda>js. Inr (JObj js))"
| "json_marshal (VNamedMap kvs) = bindR (marshal_fields (sorted_fields kvs)) (\<lambda>js. Inr (JObj js))"
| "json_marshal (VOtherMap j) =
     (case j of None \<Rightarrow> Inl (Plain ''json: unsupported type'' []) | Some j \<Rightarrow> Inr j)"
| "json_marshal (VPtr v) = json_marshal v"
| "json_marshal (VOpaque j) =
     (case j of None \<Rightarrow> Inl (Plain ''json: unsupported type'' []) | Some j \<Rightarrow> Inr j)"
| "json_marshal _ = Inr JNull"
| "marshal_items [] = Inr []"
| "marshal_items (x # xs) = bindR (json_marshal x) (\<lambda>j. bindR (marshal_items xs) (\<lambda>js. Inr (j # js)))"
| "marshal_fields [] = Inr []"
| "marshal_fields ((k, v) # kvs) =
     bindR (json_marshal v) (\<lambda>j. bindR (marshal_fields kvs) (\<lambda>js. Inr ((k, j) # js)))"
  by pat_completeness auto
termination
  by (relation "measure (\<lambda>x. case x of
        Inl v \<Rightarrow> size v
      | Inr (Inl xs) \<Rightarrow> size_list size xs
      | Inr (Inr kvs) \<Rightarrow> size_list (size_prod (\<lambda>_. 0) size) kvs)")
    (auto simp: sorted_fields_def)

text \<open>The text of a string: invalid bytes become the escape of U+FFFD; quotes, backslashes,
  control characters, the HTML characters and the two line separators are escaped.\<close>

definition go_escape_rune :: "nat \<Rightarrow> string" where
  "go_escape_rune r =
    (if r = 34 then [backslash, dquote] else if r = 92 then [backslash, backslash]
     else if r = 10 then [backslash, CHR ''n''] else if r = 13 then [backslash, CHR ''r'']
     else if r = 9 then [backslash, CHR ''t'']
     else if r < 32 \<or> r = 60 \<or> r = 62 \<or> r = 38 \<or> r = 8232 \<or> r = 8233 then backslash # CHR ''u'' # hex4 r
     else encode_rune r)"

function go_escape :: "string \<Rightarrow> string" where
  "go_escape s =
    (if s = [] then []
     else case decode_rune s of
       None \<Rightarrow> backslash # ''ufffd'' @ go_escape (tl s)
     | Some (r, t) \<Rightarrow> go_escape_rune r @ go_escape t)"
  by pat_completeness auto
termination
  by (relation "measure length") (auto dest: decode_rune_shorter)

declare go_escape.simps [simp del]

definition go_render :: "string \<Rightarrow> string" where
  "go_render s = dquote # go_escape s @ [dquote]"

definition json_text :: "gval \<Rightarrow> kerror + string" where
  "json_text v = map_result (print_json go_render) (json_marshal v)"

section \<open>Decoding\<close>

text \<open>The U+FFFD replacement a decoded string has undergone.\<close>

function to_valid :: "string \<Rightarrow> string" where
  "to_valid s =
    (if s = [] then []
     else case decode_rune s of
       None \<Rightarrow> encode_rune 65533 @ to_valid (tl s)
     | Some (r, t) \<Rightarrow> encode_rune r @ to_valid t)"
  by pat_completeness auto
termination
  by (relation "measure length") (auto dest: decode_rune_shorter)

declare to_valid.simps [simp del]

fun json_decode :: "json \<Rightarrow> gval" where
  "json_decode JNull = VNil"
| "json_decode (JBool b) = VBool b"
| "json_decode (JNum t) = VNumber t"
| "json_decode (JStr s) = VString (to_valid s)"
| "json_decode (JArr js) = VSlice (map json_decode js)"
| "json_decode (JObj js) = VMap (map (\<lambda>(k, j). (to_valid k, json_decode j)) js)"

lemma to_valid_id: "valid_string s \<Longrightarrow> to_valid s = s"
proof (induction s rule: to_valid.induct)
  case (1 s)
  show ?case
  proof (cases "s = []")
    case False
    then obtain r t where d: "decode_rune s = Some (r, t)" "valid_string t"
      using 1(3) by (auto simp: valid_string_def runes.simps[of s] split: option.splits)
    then have "to_valid t = t" using 1(2)[OF False d(1)] by simp
    with d(1) False have "to_valid s = encode_rune r @ t" by (simp add: to_valid.simps[of s])
    with decode_rune_sound[OF d(1)] show ?thesis by simp
  qed (simp add: to_valid.simps)
qed

section \<open>Values that survive the store\<close>

text \<open>
  A payload is written by \<open>encoding/json\<close> and read back with \<open>UseNumber\<close>.  It keeps its
  canonical form when it holds only nulls, booleans, valid strings, number tokens, integers,
  and non-nil slices and string-keyed maps of these.  Floats and byte slices are the
  exceptions.
\<close>

fun storable :: "gval \<Rightarrow> bool" where
  "storable (VString s) = valid_string s"
| "storable (VNumber s) = valid_json_number s"
| "storable (VSlice xs) = list_all storable xs"
| "storable (VMap kvs) = (distinct (map fst kvs) \<and> list_all (\<lambda>(k, v). valid_string k \<and> storable v) kvs)"
| "storable (VPtr v) = storable v"
| "storable (VFloat f) = False"
| "storable (VFloat32 f g) = False"
| "storable (VBytes s) = False"
| "storable (VNamedMap kvs) = False"
| "storable (VOtherMap j) = False"
| "storable (VOpaque j) = False"
| "storable _ = True"

lemma sorted_fields_sorted: "sorted (map fst kvs) \<Longrightarrow> sorted_fields kvs = kvs"
  by (simp add: sorted_fields_def sort_key_id_if_sorted)

lemma itoa_valid_number: "valid_json_number (itoa i)"
proof -
  have i: "int_lang (dec_of_nat n)" for n
    using dec_of_nat_no_leading_zero[of n]
    by (cases "n = 0") (auto simp: int_lang_def digits1_def list_all_iff dec_of_nat_digits
        dec_of_nat_0)
  have "json_number_lang (sg @ dec_of_nat n @ [] @ [])" if "sg \<in> {[], ''-''}" for sg n
    unfolding json_number_lang_def using that i by (metis exp_lang_def frac_lang_def)
  from this[of "[]"] this[of "''-''"] show ?thesis
    by (simp add: valid_json_number_grammar itoa_def)
qed

lemma itoa_not_negative_zero: "itoa i \<noteq> ''-0''"
proof
  assume e: "itoa i = ''-0''"
  show False
  proof (cases "i < 0")
    case True
    then have "dec_of_nat (nat (- i)) = ''0''" using e by (simp add: itoa_def)
    then show False using dec_of_nat_no_leading_zero[of "nat (- i)"] True by simp
  next
    case False
    then have "hd (dec_of_nat (nat i)) = CHR ''-''" using e by (simp add: itoa_def)
    then show False using dec_of_nat_head[of "nat i"] by (metis not_digit_minus)
  qed
qed

lemma write_number_itoa: "write_number lib (itoa i) = Inr (itoa i)"
  using itoa_valid_number itoa_integer_token itoa_not_negative_zero by (simp add: write_number_def)

definition decode_field :: "string \<times> json \<Rightarrow> string \<times> gval" where
  "decode_field kj = (to_valid (fst kj), json_decode (snd kj))"

lemma json_decode_obj: "json_decode (JObj js) = VMap (map decode_field js)"
  by (simp add: decode_field_def case_prod_beta)

lemma marshal_fields_keys: "marshal_fields kvs = Inr js \<Longrightarrow> map fst js = map fst kvs"
  by (induction kvs arbitrary: js) (auto simp: bindR_eq_Inr)

lemma storable_round_trip:
  "storable v \<Longrightarrow> json_marshal v = Inr j \<Longrightarrow> canonical_tree lib (json_decode j) = canonical_tree lib v"
  "list_all storable xs \<Longrightarrow> marshal_items xs = Inr js \<Longrightarrow>
     canonical_items lib (map json_decode js) = canonical_items lib xs"
  "list_all (\<lambda>(k, v). valid_string k \<and> storable v) kvs \<Longrightarrow> marshal_fields kvs = Inr kjs \<Longrightarrow>
     canonical_fields lib (map decode_field kjs) = canonical_fields lib kvs"
proof (induction v and xs and kvs arbitrary: j and js and kjs
    rule: json_marshal_marshal_items_marshal_fields.induct)
  case (9 kvs)
  then obtain kjs where m: "marshal_fields (sorted_fields kvs) = Inr kjs" "j = JObj kjs"
    by (auto simp: bindR_eq_Inr)
  have ok: "list_all (\<lambda>(k, v). valid_string k \<and> storable v) (sorted_fields kvs)"
    using 9(2) by (simp add: sorted_fields_def list_all_iff)
  have k: "map fst kjs = map fst (sorted_fields kvs)" by (rule marshal_fields_keys[OF m(1)])
  have "valid_string x" if "x \<in> set (map fst kjs)" for x
    using that ok unfolding k by (auto simp: list_all_iff)
  then have "map fst (map decode_field kjs) = map fst kjs"
    by (auto simp: decode_field_def to_valid_id)
  then have "sorted_fields (map decode_field kjs) = map decode_field kjs"
    by (intro sorted_fields_sorted) (simp add: k sorted_fields_def)
  with 9(1)[OF ok m(1)] m(2) show ?case by (simp add: json_decode_obj del: json_decode.simps(6))
next
  case (3 s)
  then show ?case by (auto split: if_splits simp: valid_json_number_def number_int_part_def)
next
  case (8 bs)
  then show ?case by simp
next
  case (12 v)
  then show ?case by simp
qed (auto simp: bindR_eq_Inr write_number_itoa check_string_def to_valid_id decode_field_def
      split: if_splits)

end
