(* ===== verification/Canonical_Record.thy ===== *)
theory Canonical_Record
  imports Canonical_Unique Go_Json
begin

text \<open>
  Digests and record identity (the second half of \<open>canonical.go\<close>): \<open>CanonicalDigest\<close>, the
  canonical record and witness inputs, the validators they run, and the root witness.  Modes,
  containments and schema references are strings, as their Go types are; the constants of
  \<open>types.go\<close> are definitions.
\<close>

section \<open>Constants\<close>

definition Capture :: string where "Capture = ''capture''"
definition Declaration :: string where "Declaration = ''declaration''"

definition CanonicalVersion :: string where "CanonicalVersion = ''shepherd.kernel.canonical.v2''"
definition RootWitnessSchemaRef :: string where "RootWitnessSchemaRef = ''kernel.witness.root.v1''"
definition WitnessSchemaRef :: string where "WitnessSchemaRef = ''kernel.witness.v1''"
definition RootWitnessRef :: string where "RootWitnessRef = []"

definition canonical_prefix :: string where
  "canonical_prefix = CanonicalVersion @ [CHR 0x0A]"

lemmas schema_refs = RootWitnessSchemaRef_def WitnessSchemaRef_def RootWitnessRef_def
lemmas modes = Capture_def Declaration_def

lemma modes_distinct [simp]: "Capture \<noteq> Declaration" "Declaration \<noteq> Capture"
  by (simp_all add: modes)

lemma schema_refs_distinct [simp]:
  "RootWitnessSchemaRef \<noteq> WitnessSchemaRef" "WitnessSchemaRef \<noteq> RootWitnessSchemaRef"
  "WitnessSchemaRef \<noteq> []" "RootWitnessSchemaRef \<noteq> []" "RootWitnessRef = []"
  by (simp_all add: schema_refs)

section \<open>Digests\<close>

text \<open>\<open>fmt.Sprintf("sha256:%x", ...)\<close>.\<close>

definition digest_string :: "golib \<Rightarrow> string \<Rightarrow> string" where
  "digest_string lib b = ''sha256:'' @ hex (sha256 lib b)"

definition CanonicalDigest :: "golib \<Rightarrow> gval \<Rightarrow> kerror + string" where
  "CanonicalDigest lib v =
    bindR (canonical_json_bytes lib v) (\<lambda>b. Inr (digest_string lib (canonical_prefix @ b)))"

section \<open>The root witness and the validators\<close>

definition RootWitnessBody :: gmap where
  "RootWitnessBody = Some
    [(''active_binding_refs'', VSlice []),
     (''actor_ref'', VString ''kernel:root''),
     (''authority_refs'', VSlice []),
     (''containment'', VString ''full''),
     (''provenance_policy_refs'', VSlice []),
     (''semantic_environment_refs'', VSlice []),
     (''substrate_ref'', VString ''kernel''),
     (''visibility_policy_refs'', VSlice [])]"

definition ValidateSchemaRef :: "string \<Rightarrow> kerror + unit" where
  "ValidateSchemaRef schemaRef = guardR (schemaRef \<noteq> []) (Plain ''schema_ref is required'' [])"

definition ValidateMode :: "string \<Rightarrow> kerror + unit" where
  "ValidateMode mode = guardR (mode = Capture \<or> mode = Declaration)
     (Plain ''mode must be 'capture' or 'declaration' '' [])"

definition has_prefix :: "string \<Rightarrow> string \<Rightarrow> bool" where
  "has_prefix s p \<longleftrightarrow> take (length p) s = p"

definition ValidateWitnessRef :: "string \<Rightarrow> kerror + unit" where
  "ValidateWitnessRef witness =
    (if witness = RootWitnessRef then Inr ()
     else guardR (has_prefix witness ''sha256:'')
       (Plain ''witness must be a sha256 digest or the root sentinel'' []))"

text \<open>\<open>anyEqual\<close> compares the \<open>json.Marshal\<close> texts, \<open>mapEqual\<close> the maps key by key.\<close>

definition anyEqual :: "gval \<Rightarrow> gval \<Rightarrow> bool" where
  "anyEqual a b = (case (json_text a, json_text b) of (Inr s, Inr t) \<Rightarrow> s = t | _ \<Rightarrow> False)"

definition mapEqual :: "gmap \<Rightarrow> gmap \<Rightarrow> bool" where
  "mapEqual a b =
    (length (elems a) = length (elems b)
     \<and> list_all (\<lambda>(k, v). case get_key b k of None \<Rightarrow> False | Some bv \<Rightarrow> anyEqual v bv) (elems a))"

definition ValidateRootWitnessRecord ::
    "string \<Rightarrow> string \<Rightarrow> gmap \<Rightarrow> string list \<Rightarrow> string \<Rightarrow> kerror + unit" where
  "ValidateRootWitnessRecord schemaRef mode body causedBy witness =
    (if witness = RootWitnessRef then
       (if schemaRef \<noteq> RootWitnessSchemaRef
        then Inl (Plain ''empty witness sentinel is legal only for the root witness record'' [])
        else if mode \<noteq> Capture then Inl (Plain ''root witness record mode must be 'capture' '' [])
        else if causedBy \<noteq> [] then Inl (Plain ''root witness record cannot have causal parents'' [])
        else if \<not> mapEqual body RootWitnessBody
        then Inl (Plain ''root witness record body must equal root_witness_body()'' [])
        else Inr ())
     else if schemaRef = RootWitnessSchemaRef
     then Inl (Plain ''root witness record must use the empty witness sentinel'' [])
     else Inr ())"

definition witness_required_fields :: "string list" where
  "witness_required_fields =
    [''actor_ref'', ''authority_refs'', ''active_binding_refs'', ''semantic_environment_refs'',
     ''visibility_policy_refs'', ''provenance_policy_refs'', ''substrate_ref'', ''containment'']"

definition valid_containments :: "string list" where
  "valid_containments = [''full'', ''contained'', ''buffered'', ''uncontained'']"

definition ValidateWitnessBody :: "string \<Rightarrow> gmap \<Rightarrow> kerror + unit" where
  "ValidateWitnessBody schemaRef body =
    (if schemaRef \<noteq> RootWitnessSchemaRef \<and> schemaRef \<noteq> WitnessSchemaRef then Inr ()
     else case find (\<lambda>field. get_key body field = None) witness_required_fields of
       Some field \<Rightarrow> Inl (Plain ''witness body missing required field: '' [field])
     | None \<Rightarrow>
        (case get_key body ''containment'' of
           Some (VString c) \<Rightarrow>
             if c \<notin> set valid_containments then Inl (Plain ''witness containment is invalid'' [])
             else (case get_key body ''substrate_ref'' of
                 Some (VString s) \<Rightarrow> guardR (s \<noteq> []) (Plain ''witness substrate_ref is required'' [])
               | _ \<Rightarrow> Inl (Plain ''witness substrate_ref is required'' []))
         | _ \<Rightarrow> Inl (Plain ''witness containment must be a string'' [])))"

section \<open>Record identity\<close>

text \<open>The map the record digest is taken over.  The body is copied into a fresh map, so a nil
  body is digested as an empty one.\<close>

definition record_input :: "string \<Rightarrow> string \<Rightarrow> gmap \<Rightarrow> string list \<Rightarrow> string \<Rightarrow> gval" where
  "record_input schemaRef mode body causedBy witness = VMap
    [(''body'', VMap (elems body)),
     (''caused_by'', VSlice (map VString causedBy)),
     (''kind'', VString ''record''),
     (''mode'', VString mode),
     (''schema_ref'', VString schemaRef),
     (''witness'', VString witness)]"

definition CanonicalRecordInput ::
    "string \<Rightarrow> string \<Rightarrow> gmap \<Rightarrow> string list \<Rightarrow> string \<Rightarrow> kerror + gval" where
  "CanonicalRecordInput schemaRef mode body causedBy witness =
    bindR (ValidateSchemaRef schemaRef) (\<lambda>_.
    bindR (ValidateMode mode) (\<lambda>_.
    bindR (ValidateWitnessRef witness) (\<lambda>_.
    bindR (ValidateRootWitnessRecord schemaRef mode body causedBy witness) (\<lambda>_.
    Inr (record_input schemaRef mode body causedBy witness)))))"

definition RecordDigest ::
    "golib \<Rightarrow> string \<Rightarrow> string \<Rightarrow> gmap \<Rightarrow> string list \<Rightarrow> string \<Rightarrow> kerror + string" where
  "RecordDigest lib schemaRef mode body causedBy witness =
    bindR (CanonicalRecordInput schemaRef mode body causedBy witness) (CanonicalDigest lib)"

definition CanonicalWitnessInput :: "string \<Rightarrow> gmap \<Rightarrow> kerror + gval" where
  "CanonicalWitnessInput schemaRef body =
    bindR (ValidateWitnessBody schemaRef body) (\<lambda>_.
    Inr (VMap [(''body'', VMap (elems body)), (''kind'', VString ''witness''),
               (''schema_ref'', VString schemaRef)]))"

definition WitnessBodyDigest :: "golib \<Rightarrow> string \<Rightarrow> gmap \<Rightarrow> kerror + string" where
  "WitnessBodyDigest lib schemaRef body =
    bindR (CanonicalWitnessInput schemaRef body) (CanonicalDigest lib)"

definition RootWitnessBodyDigest :: "golib \<Rightarrow> kerror + string" where
  "RootWitnessBodyDigest lib = WitnessBodyDigest lib RootWitnessSchemaRef RootWitnessBody"

definition RootWitnessRecordID :: "golib \<Rightarrow> kerror + string" where
  "RootWitnessRecordID lib =
    RecordDigest lib RootWitnessSchemaRef Capture RootWitnessBody [] RootWitnessRef"

text \<open>The id cached at package initialisation, which panics on an error; it is total (below).\<close>

definition RootWitnessRecordIDMust :: "golib \<Rightarrow> string" where
  "RootWitnessRecordIDMust lib = (case RootWitnessRecordID lib of Inr i \<Rightarrow> i | Inl _ \<Rightarrow> [])"

section \<open>Facts\<close>

lemma digest_string_prefix: "has_prefix (digest_string lib b) ''sha256:''"
  by (simp add: digest_string_def has_prefix_def)

lemma digest_string_nonempty [simp]: "digest_string lib b \<noteq> []"
  by (simp add: digest_string_def)

lemma digest_string_inject: "digest_string lib a = digest_string lib b \<longleftrightarrow> sha256 lib a = sha256 lib b"
  by (simp add: digest_string_def)

lemma CanonicalDigest_Inr [result_simps]:
  "CanonicalDigest lib v = Inr d \<longleftrightarrow>
    (\<exists>b. canonical_json_bytes lib v = Inr b \<and> d = digest_string lib (canonical_prefix @ b))"
  by (auto simp: CanonicalDigest_def bindR_eq_Inr)

text \<open>What a successful record digest has checked.\<close>

lemma RecordDigest_Inr:
  "RecordDigest lib s m b c w = Inr d \<longleftrightarrow>
    s \<noteq> [] \<and> (m = Capture \<or> m = Declaration) \<and> (w = [] \<or> has_prefix w ''sha256:'')
    \<and> ValidateRootWitnessRecord s m b c w = Inr () \<and> CanonicalDigest lib (record_input s m b c w) = Inr d"
  by (auto simp: RecordDigest_def CanonicalRecordInput_def ValidateSchemaRef_def ValidateMode_def
      ValidateWitnessRef_def bindR_eq_Inr)

lemma RecordDigest_root:
  "RecordDigest lib s m b c [] = Inr d \<Longrightarrow>
    s = RootWitnessSchemaRef \<and> m = Capture \<and> c = [] \<and> mapEqual b RootWitnessBody"
  by (auto simp: RecordDigest_Inr ValidateRootWitnessRecord_def split: if_splits)

lemma RecordDigest_nonroot:
  "RecordDigest lib s m b c w = Inr d \<Longrightarrow> w \<noteq> [] \<Longrightarrow> s \<noteq> RootWitnessSchemaRef \<and> has_prefix w ''sha256:''"
  by (auto simp: RecordDigest_Inr ValidateRootWitnessRecord_def split: if_splits)

lemma RecordDigest_prefix: "RecordDigest lib s m b c w = Inr d \<Longrightarrow> has_prefix d ''sha256:'' \<and> d \<noteq> []"
  by (auto simp: RecordDigest_Inr CanonicalDigest_Inr digest_string_prefix)

text \<open>The six members of the input are sorted already.\<close>

lemma record_input_tree:
  "canonical_tree lib (record_input s m b c w) =
    bindR (canonical_tree lib (VMap (elems b))) (\<lambda>bj.
    bindR (canonical_items lib (map VString c)) (\<lambda>cj.
    bindR (check_string m) (\<lambda>m. bindR (check_string s) (\<lambda>s. bindR (check_string w) (\<lambda>w.
      Inr (JObj [(''body'', bj), (''caused_by'', JArr cj), (''kind'', JStr ''record''),
        (''mode'', JStr m), (''schema_ref'', JStr s), (''witness'', JStr w)]))))))"
proof -
  have v: "check_string x = Inr x" if "list_all (\<lambda>c. byte c < 128) x" for x
    using valid_string_ascii[OF that] by (simp add: check_string_def)
  have k: "check_string ''body'' = Inr ''body''" "check_string ''caused_by'' = Inr ''caused_by''"
    "check_string ''kind'' = Inr ''kind''" "check_string ''mode'' = Inr ''mode''"
    "check_string ''schema_ref'' = Inr ''schema_ref''" "check_string ''witness'' = Inr ''witness''"
    "check_string ''record'' = Inr ''record''"
    by (rule v, simp add: byte_def)+
  show ?thesis
    unfolding record_input_def canonical_tree.simps
    by (subst sorted_fields_sorted)
      (simp_all add: k bindR_assoc)
qed


lemma canonical_items_strings:
  "canonical_items lib (map VString c) = Inr cj \<Longrightarrow> cj = map JStr c"
  by (induction c arbitrary: cj) (auto simp: bindR_eq_Inr check_string_def split: if_splits)

lemma record_input_ok: "gval_ok (VMap (elems b)) \<Longrightarrow> gval_ok (record_input s m b c w)"
  by (simp add: record_input_def list_all_iff)

text \<open>
  Under a digest without collision on the two inputs, a record id determines what the record
  says: schema, mode, ordered parents, witness, and the canonical document of the body.
\<close>

definition record_preimage :: "golib \<Rightarrow> string \<Rightarrow> string \<Rightarrow> gmap \<Rightarrow> string list \<Rightarrow> string \<Rightarrow> string" where
  "record_preimage lib s m b c w =
    (case canonical_json_bytes lib (record_input s m b c w) of
       Inr t \<Rightarrow> canonical_prefix @ t | Inl _ \<Rightarrow> [])"

lemma RecordDigest_preimage:
  "RecordDigest lib s m b c w = Inr d \<Longrightarrow>
    d = digest_string lib (record_preimage lib s m b c w)
    \<and> (\<exists>t. canonical_json_bytes lib (record_input s m b c w) = Inr t
        \<and> record_preimage lib s m b c w = canonical_prefix @ t)"
  by (auto simp: RecordDigest_Inr CanonicalDigest_Inr record_preimage_def)

lemma RecordDigest_inject:
  assumes lib: "lib_ok lib" and ok: "gval_ok (VMap (elems b))" "gval_ok (VMap (elems b'))"
    and d: "RecordDigest lib s m b c w = Inr d" "RecordDigest lib s' m' b' c' w' = Inr d"
    and inj: "inj_on (sha256 lib) {record_preimage lib s m b c w, record_preimage lib s' m' b' c' w'}"
  shows "s = s' \<and> m = m' \<and> c = c' \<and> w = w' \<and>
    canonical_tree lib (VMap (elems b)) = canonical_tree lib (VMap (elems b'))"
proof -
  obtain t where t: "canonical_json_bytes lib (record_input s m b c w) = Inr t"
      "record_preimage lib s m b c w = canonical_prefix @ t"
      "d = digest_string lib (record_preimage lib s m b c w)"
    using RecordDigest_preimage[OF d(1)] by blast
  obtain t' where t': "canonical_json_bytes lib (record_input s' m' b' c' w') = Inr t'"
      "record_preimage lib s' m' b' c' w' = canonical_prefix @ t'"
      "d = digest_string lib (record_preimage lib s' m' b' c' w')"
    using RecordDigest_preimage[OF d(2)] by blast
  have "sha256 lib (record_preimage lib s m b c w) = sha256 lib (record_preimage lib s' m' b' c' w')"
    using t(3) t'(3) by (simp add: digest_string_inject)
  then have "t = t'" using inj t(2) t'(2) by (auto dest: inj_onD)
  then obtain j where "canonical_tree lib (record_input s m b c w) = Inr j"
      "canonical_tree lib (record_input s' m' b' c' w') = Inr j"
    using write_value_inject[OF lib record_input_ok[OF ok(1)] record_input_ok[OF ok(2)]] t(1) t'(1)
    unfolding canonical_json_bytes_def by blast
  then show ?thesis
    unfolding record_input_tree
    by (auto simp: bindR_eq_Inr check_string_def simp del: canonical_tree.simps split: if_splits
        dest!: canonical_items_strings) (metis list.inj_map_strong json.inject(3))+
qed

text \<open>The root witness is always accepted: its id is a digest.\<close>

lemma root_text: "\<exists>t. canonical_json_bytes lib (record_input RootWitnessSchemaRef Capture RootWitnessBody [] []) = Inr t"
proof -
  have v: "check_string x = Inr x" if "list_all (\<lambda>c. byte c < 128) x" for x
    using valid_string_ascii[OF that] by (simp add: check_string_def)
  have k: "check_string ''active_binding_refs'' = Inr ''active_binding_refs''"
    "check_string ''actor_ref'' = Inr ''actor_ref''" "check_string ''authority_refs'' = Inr ''authority_refs''"
    "check_string ''containment'' = Inr ''containment''" "check_string ''kernel:root'' = Inr ''kernel:root''"
    "check_string ''provenance_policy_refs'' = Inr ''provenance_policy_refs''"
    "check_string ''semantic_environment_refs'' = Inr ''semantic_environment_refs''"
    "check_string ''substrate_ref'' = Inr ''substrate_ref''" "check_string ''kernel'' = Inr ''kernel''"
    "check_string ''visibility_policy_refs'' = Inr ''visibility_policy_refs''" "check_string ''full'' = Inr ''full''"
    "check_string Capture = Inr Capture" "check_string RootWitnessSchemaRef = Inr RootWitnessSchemaRef"
    "check_string [] = Inr []"
    by (rule v, simp add: byte_def Capture_def RootWitnessSchemaRef_def)+
  have "\<exists>j. canonical_tree lib (VMap (elems RootWitnessBody)) = Inr j"
    by (simp add: RootWitnessBody_def sorted_fields_sorted k)
  then show ?thesis
    unfolding canonical_json_bytes_def write_value_print record_input_tree
    by (auto simp: k simp del: canonical_tree.simps)
qed

lemma root_body_equal: "mapEqual RootWitnessBody RootWitnessBody"
  by (simp add: mapEqual_def RootWitnessBody_def get_key_def anyEqual_def json_text_def)

lemma RootWitnessRecordID_total: "RootWitnessRecordID lib = Inr (RootWitnessRecordIDMust lib)"
proof -
  obtain t where "canonical_json_bytes lib (record_input RootWitnessSchemaRef Capture RootWitnessBody [] []) = Inr t"
    using root_text by blast
  then have "\<exists>i. RootWitnessRecordID lib = Inr i"
    by (auto simp: RootWitnessRecordID_def RecordDigest_Inr CanonicalDigest_Inr
        ValidateRootWitnessRecord_def root_body_equal)
  then show ?thesis by (auto simp: RootWitnessRecordIDMust_def)
qed

lemma root_id_digest: "has_prefix (RootWitnessRecordIDMust lib) ''sha256:''" "RootWitnessRecordIDMust lib \<noteq> []"
  using RootWitnessRecordID_total[of lib] RecordDigest_prefix
  unfolding RootWitnessRecordID_def by blast+

text \<open>Outside the root schema the digest looks at the body only through its canonical document.\<close>

lemma RecordDigest_tree:
  assumes "canonical_tree lib (VMap (elems b')) = canonical_tree lib (VMap (elems b))" "s \<noteq> RootWitnessSchemaRef"
    and "RecordDigest lib s m b c w = Inr i"
  shows "RecordDigest lib s m b' c w = Inr i"
proof -
  have "write_value lib False (record_input s m b' c w) = write_value lib False (record_input s m b c w)"
    unfolding write_value_print record_input_tree assms(1) by (rule refl)
  moreover have "w \<noteq> []" using RecordDigest_root[of lib s m b c i] assms(2,3) by blast
  ultimately show ?thesis using assms(2,3)
    by (simp add: RecordDigest_Inr CanonicalDigest_Inr canonical_json_bytes_def ValidateRootWitnessRecord_def)
qed

section \<open>Properties\<close>

text \<open>C7: A record id says what the record says: if the digest does not collide on the two inputs,
  records with the same id have the same schema, mode, ordered parents and witness, and
  bodies that denote the same document.\<close>

theorem record_id_determines_content:
  assumes "lib_ok lib" "gval_ok (VMap (elems b))" "gval_ok (VMap (elems b'))"
    and "RecordDigest lib s m b c w = Inr d" "RecordDigest lib s' m' b' c' w' = Inr d"
    and "inj_on (sha256 lib) {record_preimage lib s m b c w, record_preimage lib s' m' b' c' w'}"
  shows "s = s' \<and> m = m' \<and> c = c' \<and> w = w' \<and>
    canonical_tree lib (VMap (elems b)) = canonical_tree lib (VMap (elems b'))"
  by (rule RecordDigest_inject[OF assms])

theorem record_id_determines_content_witness:
  "RootWitnessSchemaRef = RootWitnessSchemaRef \<and> Capture = Capture \<and> ([] :: string list) = [] \<and> RootWitnessRef = RootWitnessRef \<and>
    canonical_tree \<lparr>sha256 = id, parse_float = Map.empty\<rparr> (VMap (elems RootWitnessBody))
      = canonical_tree \<lparr>sha256 = id, parse_float = Map.empty\<rparr> (VMap (elems RootWitnessBody))"
  using RootWitnessRecordID_total[of "\<lparr>sha256 = id, parse_float = Map.empty\<rparr>"]
  unfolding RootWitnessRecordID_def
  by (intro record_id_determines_content) (auto simp: lib_ok_def RootWitnessBody_def)

text \<open>The record digest enforces the witness law: it accepts the empty witness only for the root
  witness record (its schema, mode \<open>capture\<close>, no parents and its body), and refuses the root
  schema with any other witness; every id it produces starts with \<open>sha256:\<close>.\<close>

theorem record_digest_witness_law:
  assumes "RecordDigest lib s m b c w = Inr d"
  shows "(w = RootWitnessRef \<longleftrightarrow> s = RootWitnessSchemaRef)
    \<and> (w = RootWitnessRef \<longrightarrow> m = Capture \<and> c = [] \<and> mapEqual b RootWitnessBody) \<and> has_prefix d ''sha256:''"
proof (cases "w = []")
  case True
  with RecordDigest_root[of lib s m b c d] RecordDigest_prefix[OF assms] assms show ?thesis by simp
next
  case False
  with RecordDigest_nonroot[OF assms] RecordDigest_prefix[OF assms] show ?thesis by auto
qed

theorem record_digest_witness_law_witness:
  "has_prefix (RootWitnessRecordIDMust \<lparr>sha256 = id, parse_float = Map.empty\<rparr>) ''sha256:'' \<and> mapEqual RootWitnessBody RootWitnessBody"
proof -
  have "RecordDigest \<lparr>sha256 = id, parse_float = Map.empty\<rparr> RootWitnessSchemaRef Capture RootWitnessBody [] RootWitnessRef
      = Inr (RootWitnessRecordIDMust \<lparr>sha256 = id, parse_float = Map.empty\<rparr>)"
    using RootWitnessRecordID_total[of "\<lparr>sha256 = id, parse_float = Map.empty\<rparr>"] by (simp add: RootWitnessRecordID_def)
  from record_digest_witness_law[OF this] show ?thesis by blast
qed

text \<open>The package initialisation that caches the root witness id cannot panic: its digest
  succeeds, for every digest function.\<close>

theorem root_witness_id_total:
  "RootWitnessRecordID lib = Inr (RootWitnessRecordIDMust lib) \<and> RootWitnessRecordIDMust lib \<noteq> RootWitnessRef"
  using RootWitnessRecordID_total root_id_digest(2) by simp

end
