(* ===== verification/Trace_Types.thy ===== *)
theory Trace_Types
  imports Canonical_Record "HOL-Library.Product_Lexorder"
begin

text \<open>
  The data of \<open>types.go\<close> and \<open>effect.go\<close>, one record per struct.  Field names keep the
  source's, with a prefix where two structs share one.  A slice field is nil-able because its
  nil-ness reaches the JSON; an optional pointer is an \<open>option\<close>.  Ordinals are Go's \<open>int\<close>.
\<close>

definition VisibilityShapeOnly :: string where "VisibilityShapeOnly = ''shape_only''"
definition VisibilityPayload :: string where "VisibilityPayload = ''payload''"
definition VisibilityFullInternal :: string where "VisibilityFullInternal = ''full_internal''"

definition ModeBoth :: string where "ModeBoth = ''both''"
definition ModeDeclarationsOnly :: string where "ModeDeclarationsOnly = ''declarations_only''"
definition ModeCapturesOnly :: string where "ModeCapturesOnly = ''captures_only''"

definition OpAppend :: string where "OpAppend = ''append''"
definition OpRead :: string where "OpRead = ''read''"
definition OpPublishCut :: string where "OpPublishCut = ''publish_cut''"

definition ContainContained :: string where "ContainContained = ''contained''"

lemmas visibilities = VisibilityShapeOnly_def VisibilityPayload_def VisibilityFullInternal_def
lemmas mode_filters = ModeBoth_def ModeDeclarationsOnly_def ModeCapturesOnly_def

record RecordDraft =
  DraftMode :: string
  DraftSchemaRef :: string
  DraftPayload :: gmap
  DraftKindLabel :: string
  AppendLocalID :: string
  CausedByFactIDs :: "string slice"
  CausedByLocalRefs :: "string slice"

record RecordEnvelope =
  RecordID :: string
  Digest :: string
  SchemaRef :: string
  Mode :: string
  WitnessRef :: string
  CausedByIDs :: "string slice"

record RecordView =
  ViewOwner :: string
  ViewOrdinal :: int
  ViewContextRef :: string
  ViewKindLabel :: string

record Record =
  Envelope :: RecordEnvelope
  Body :: gmap
  View :: "RecordView option"

record RecordShape =
  ShapeEnvelope :: RecordEnvelope
  ShapeView :: "RecordView option"
  HiddenReason :: string

datatype VisibleRecord = Full Record | Shape RecordShape

fun GetEnvelope :: "VisibleRecord \<Rightarrow> RecordEnvelope" where
  "GetEnvelope (Full r) = Envelope r"
| "GetEnvelope (Shape s) = ShapeEnvelope s"

fun GetView :: "VisibleRecord \<Rightarrow> RecordView option" where
  "GetView (Full r) = View r"
| "GetView (Shape s) = ShapeView s"

record RetainedContext =
  ContextID :: string
  ActiveBindingRefs :: "string slice"
  CapabilityWitnessRefs :: "string slice"
  SemanticEnvironmentRefs :: "string slice"
  VisibilityPolicyRefs :: "string slice"
  SubstrateRef :: string
  Containment :: string

record AppendGroup =
  TraceOwnerID :: string
  GroupContext :: "RetainedContext option"
  CausalParents :: "string slice"
  FactDrafts :: "RecordDraft slice"

record AppendBatch =
  AppendIntentID :: string
  Groups :: "AppendGroup slice"

text \<open>A map \<open>map[string][2]int\<close> is an association list with distinct keys.\<close>

record AppendReceipt =
  ReceiptIntentID :: string
  FactIDs :: "string list"
  CommitReceipts :: "string list"
  OwnerRanges :: "(string \<times> int \<times> int) list"
  CausalEdges :: "(string \<times> string) list"
  ContextReceipts :: "string list"

record OperationContext =
  ActorRef :: string
  Operation :: string
  PresentedAuthorityRefs :: "string slice"
  SchemaEnvironmentRef :: string
  VisibilityProfile :: string
  TrustMode :: string

record AppendContext =
  AppendActorRef :: string
  AppendWitnessRefs :: "string slice"
  SchemaVersionSet :: string
  AppendTrustMode :: string

record ReadContext =
  ReadActorRef :: string
  ReadWitnessRefs :: "string slice"
  ReadVisibility :: string

definition append_operation_context :: "AppendContext \<Rightarrow> string \<Rightarrow> OperationContext" where
  "append_operation_context c op =
    \<lparr>ActorRef = AppendActorRef c, Operation = op, PresentedAuthorityRefs = AppendWitnessRefs c,
     SchemaEnvironmentRef = SchemaVersionSet c, VisibilityProfile = VisibilityPayload,
     TrustMode = AppendTrustMode c\<rparr>"

definition read_operation_context :: "ReadContext \<Rightarrow> OperationContext" where
  "read_operation_context c =
    \<lparr>ActorRef = ReadActorRef c, Operation = OpRead, PresentedAuthorityRefs = ReadWitnessRefs c,
     SchemaEnvironmentRef = [], VisibilityProfile = ReadVisibility c, TrustMode = []\<rparr>"

definition TrustedAppendContext :: AppendContext where
  "TrustedAppendContext =
    \<lparr>AppendActorRef = ''runtime:internal'', AppendWitnessRefs = Some [''trusted:internal''],
     SchemaVersionSet = ''shepherd2-slice-a'', AppendTrustMode = ''internal''\<rparr>"

definition TrustedReadContext :: ReadContext where
  "TrustedReadContext =
    \<lparr>ReadActorRef = ''runtime:internal'', ReadWitnessRefs = Some [''trusted:internal''],
     ReadVisibility = VisibilityPayload\<rparr>"

record Frontier =
  FrontierID :: string
  TargetTraceOwnerID :: string
  ThroughFactID :: string
  ThroughOwnerOrdinal :: int
  PublisherOwnerID :: string
  CreatedByFactID :: string

record FrontierSpec =
  SpecFrontierID :: string
  SpecTargetOwnerID :: string
  SpecThroughFactID :: string
  SpecPublisherOwnerID :: string
  SpecAppendIntentID :: string
  SpecCausedBy :: "string slice"

record ExternalAnchor =
  AnchorRef :: string
  AnchorKind :: string
  AnchorShape :: gmap
  AnchorHiddenReason :: string

record WitnessAnchor =
  WitnessAnchorRef :: string
  WitnessAnchorShape :: gmap
  WitnessAnchorHidden :: string

record ContextAnchor =
  AnchorContextID :: string
  ContextAnchorShape :: gmap
  ContextAnchorHidden :: string

text \<open>The maps of a slice are association lists in insertion order.\<close>

record Slice =
  SliceFrontier :: "Frontier option"
  SliceVisibility :: string
  SliceModeFilter :: string
  FactsByID :: "(string \<times> VisibleRecord) list"
  ContextsByID :: "(string \<times> RetainedContext) list"
  OwnerPaths :: "(string \<times> string list) list"
  OwnerPathOrder :: "string list"
  SliceCausalEdges :: "(string \<times> string) list"
  ExternalAnchors :: "ExternalAnchor list"
  ContextAnchors :: "ContextAnchor list"
  WitnessesByID :: "(string \<times> VisibleRecord) list"
  WitnessAnchors :: "WitnessAnchor list"

record EffectEvent =
  EventRecordID :: string
  EventIntentID :: string
  EventOwnerID :: string
  EventMode :: string
  EventSchemaRef :: string
  EventKindLabel :: string
  EventPayload :: gmap
  EventCausalParents :: "string slice"
  EventTimestamp :: nat

text \<open>\<open>Slice.FactIDs\<close>: the owner paths in first-seen order, or sorted when the recorded order
  does not cover them.\<close>

definition slice_fact_ids :: "Slice \<Rightarrow> string list" where
  "slice_fact_ids s =
    (let order = (if length (OwnerPathOrder s) \<noteq> length (OwnerPaths s)
                  then sort (map fst (OwnerPaths s)) else OwnerPathOrder s)
     in concat (map (\<lambda>ref. case map_of (OwnerPaths s) ref of None \<Rightarrow> [] | Some ids \<Rightarrow> ids) order))"

end
