(* ===== verification/Ordered_Map.thy ===== *)
theory Ordered_Map
  imports Trace_Types
begin

text \<open>
  The serialization helpers of \<open>store_json.go\<close> and the idiom several components share: a Go
  map paired with the order in which its keys were first inserted, emitted through
  \<open>orderedValues\<close>, so that a read result does not depend on Go's randomised iteration.
  The locale \<open>ordered_map\<close> is that interface; \<open>witnessSupport\<close> (overwriting inserts) and the
  anchor collections of \<open>buildSlice\<close> (first insert wins) provide it.
\<close>

section \<open>Helpers\<close>

definition NonNilStrings :: "string slice \<Rightarrow> string slice" where
  "NonNilStrings ss = Some (elems ss)"

definition nullableString :: "string \<Rightarrow> gval" where
  "nullableString s = (if s = [] then VNil else VString s)"

definition CopyMap :: "gmap \<Rightarrow> gmap" where
  "CopyMap m = (case m of None \<Rightarrow> None | Some kvs \<Rightarrow> Some kvs)"

lemma CopyMap_id [simp]: "CopyMap m = m"
  by (simp add: CopyMap_def split: option.splits)

lemma elems_NonNilStrings [simp]: "elems (NonNilStrings s) = elems s"
  by (simp add: NonNilStrings_def)

text \<open>\<open>append(a, b...)\<close> on slices: nil only if both are empty and the first is nil.\<close>

definition append_slice :: "'a slice \<Rightarrow> 'a slice \<Rightarrow> 'a slice" where
  "append_slice a b = (if elems b = [] then a else Some (elems a @ elems b))"

lemma elems_append_slice [simp]: "elems (append_slice a b) = elems a @ elems b"
  by (simp add: append_slice_def)

text \<open>\<open>deduplicate\<close>: first occurrences, in order; nil for an empty input.\<close>

fun dedup_loop :: "string set \<Rightarrow> string list \<Rightarrow> string list" where
  "dedup_loop seen [] = []"
| "dedup_loop seen (s # ss) = (if s \<in> seen then dedup_loop seen ss else s # dedup_loop (insert s seen) ss)"

definition deduplicate :: "string slice \<Rightarrow> string slice" where
  "deduplicate ss = (case dedup_loop {} (elems ss) of [] \<Rightarrow> None | x # xs \<Rightarrow> Some (x # xs))"

lemma dedup_loop_set: "set (dedup_loop seen ss) = set ss - seen"
  by (induction seen ss rule: dedup_loop.induct) auto

lemma dedup_loop_distinct: "distinct (dedup_loop seen ss)"
  by (induction seen ss rule: dedup_loop.induct) (auto simp: dedup_loop_set)

lemma dedup_loop_id: "distinct ss \<Longrightarrow> set ss \<inter> seen = {} \<Longrightarrow> dedup_loop seen ss = ss"
  by (induction seen ss rule: dedup_loop.induct) auto

lemma elems_deduplicate [simp]: "elems (deduplicate ss) = dedup_loop {} (elems ss)"
  by (simp add: deduplicate_def split: list.splits)

lemma deduplicate_set: "set (elems (deduplicate ss)) = set (elems ss)"
  by (simp add: dedup_loop_set)

lemma deduplicate_distinct: "distinct (elems (deduplicate ss))"
  by (simp add: dedup_loop_distinct)

section \<open>Maps with an insertion order\<close>

text \<open>A Go map and the slice of its keys in insertion order.\<close>

type_synonym 'v omap = "(string \<rightharpoonup> 'v) \<times> string list"

definition om_empty :: "'v omap" where
  "om_empty = (Map.empty, [])"

text \<open>Insert, overwriting a present value but keeping its place.\<close>

definition om_put :: "string \<Rightarrow> 'v \<Rightarrow> 'v omap \<Rightarrow> 'v omap" where
  "om_put k v m = ((fst m)(k \<mapsto> v), if fst m k = None then snd m @ [k] else snd m)"

text \<open>Insert unless present.\<close>

definition om_add :: "string \<Rightarrow> 'v \<Rightarrow> 'v omap \<Rightarrow> 'v omap" where
  "om_add k v m = (if fst m k = None then ((fst m)(k \<mapsto> v), snd m @ [k]) else m)"

text \<open>\<open>orderedValues\<close>.  The Go map's size is that of its key set; the guard falls back to the
  sorted keys when the recorded order does not cover it.\<close>

definition orderedValues :: "(string \<rightharpoonup> 'v) \<Rightarrow> string list \<Rightarrow> string list \<Rightarrow> 'v list" where
  "orderedValues m ks order =
    (let order' = (if length order \<noteq> length ks then sort ks else order)
     in List.map_filter m order')"

definition om_ok :: "'v omap \<Rightarrow> bool" where
  "om_ok m \<longleftrightarrow> distinct (snd m) \<and> dom (fst m) = set (snd m)"

definition om_values :: "'v omap \<Rightarrow> 'v list" where
  "om_values m = orderedValues (fst m) (snd m) (snd m)"

locale ordered_map =
  fixes empty :: 'm and insert_at :: "string \<Rightarrow> 'v \<Rightarrow> 'm \<Rightarrow> 'm"
    and look :: "'m \<Rightarrow> string \<Rightarrow> 'v option" and keys :: "'m \<Rightarrow> string list"
    and invar :: "'m \<Rightarrow> bool"
  assumes invar_empty: "invar empty"
    and invar_insert: "invar m \<Longrightarrow> invar (insert_at k v m)"
    and keys_empty: "keys empty = []"
    and keys_insert: "invar m \<Longrightarrow> keys (insert_at k v m) = (if look m k = None then keys m @ [k] else keys m)"
    and look_keys: "invar m \<Longrightarrow> look m k \<noteq> None \<longleftrightarrow> k \<in> set (keys m)"
    and keys_distinct: "invar m \<Longrightarrow> distinct (keys m)"
begin

definition insert_all :: "(string \<times> 'v) list \<Rightarrow> 'm \<Rightarrow> 'm" where
  "insert_all kvs m = fold (\<lambda>(k, v). insert_at k v) kvs m"

lemma insert_all_invar: "invar m \<Longrightarrow> invar (insert_all kvs m)"
  unfolding insert_all_def by (induction kvs arbitrary: m) (auto simp: invar_insert)

text \<open>The keys come out in first-seen order.\<close>

lemma insert_all_keys:
  assumes "invar m"
  shows "keys (insert_all kvs m) = keys m @ dedup_loop (set (keys m)) (map fst kvs)"
  using assms unfolding insert_all_def
proof (induction kvs arbitrary: m)
  case (Cons kv kvs)
  obtain k v where kv: "kv = (k, v)" by (cases kv)
  have i: "invar (insert_at k v m)" using Cons.prems by (rule invar_insert)
  show ?case
    using Cons.IH[OF i] Cons.prems look_keys[of m k]
    by (auto simp: kv keys_insert)
qed simp

lemma keys_first_seen: "keys (insert_all kvs empty) = dedup_loop {} (map fst kvs)"
  by (simp add: insert_all_keys invar_empty keys_empty)

end

interpretation om_overwrite: ordered_map om_empty om_put fst snd om_ok
  by unfold_locales (auto simp: om_empty_def om_put_def om_ok_def)

interpretation om_keep: ordered_map om_empty om_add fst snd om_ok
  by unfold_locales (auto simp: om_empty_def om_add_def om_ok_def)

lemma om_values_eq: "om_ok m \<Longrightarrow> om_values m = map (\<lambda>k. the (fst m k)) (snd m)"
proof -
  assume "om_ok m"
  then have "\<forall>k\<in>set (snd m). fst m k \<noteq> None" by (auto simp: om_ok_def)
  then have "List.map_filter (fst m) ks = map (\<lambda>k. the (fst m k)) ks" if "set ks \<subseteq> set (snd m)" for ks
    using that by (induction ks) (auto simp: List.map_filter_simps)
  then show ?thesis by (simp add: om_values_def orderedValues_def)
qed

end
