(* ===== verification/Effect_Bus.thy ===== *)
theory Effect_Bus
  imports Trace_Types
begin

text \<open>
  The effect bus (\<open>bus.go\<close>).  A subscriber holds a buffered channel; \<open>Publish\<close> never blocks
  and drops a subscriber's oldest event when its buffer is full.

  First a channel with its non-blocking operations and the locale \<open>event_channel\<close>, the laws
  the publisher relies on; then the bus with its five operations, every one under the bus
  lock; last the publishers as an interleaving: \<open>Publish\<close> takes only the read lock, so several
  may be between their channel operations at once, next to a receiving subscriber.
\<close>

section \<open>Channels\<close>

record 'e channel =
  Buffer :: "'e list"
  Capacity :: nat
  Closed :: bool

definition make_channel :: "nat \<Rightarrow> 'e channel" where
  "make_channel n = \<lparr>Buffer = [], Capacity = n, Closed = False\<rparr>"

text \<open>\<open>select { case ch <- e: default: }\<close>: whether it was sent, and the channel.  Sending on
  a closed channel panics.\<close>

definition try_send :: "'e \<Rightarrow> 'e channel \<Rightarrow> kerror + bool \<times> 'e channel" where
  "try_send e ch =
    (if Closed ch then Inl (Panic ''send on closed channel'')
     else if length (Buffer ch) < Capacity ch then Inr (True, ch\<lparr>Buffer := Buffer ch @ [e]\<rparr>)
     else Inr (False, ch))"

text \<open>\<open>select { case <-ch: default: }\<close>: a received element is discarded.\<close>

definition try_drain :: "'e channel \<Rightarrow> 'e channel" where
  "try_drain ch = ch\<lparr>Buffer := tl (Buffer ch)\<rparr>"

text \<open>A receive by the subscriber: the head, if there is one.\<close>

definition receive :: "'e channel \<Rightarrow> 'e option \<times> 'e channel" where
  "receive ch = (case Buffer ch of [] \<Rightarrow> (None, ch) | e # es \<Rightarrow> (Some e, ch\<lparr>Buffer := es\<rparr>))"

definition close_channel :: "'e channel \<Rightarrow> 'e channel" where
  "close_channel ch = ch\<lparr>Closed := True\<rparr>"

definition channel_ok :: "'e channel \<Rightarrow> bool" where
  "channel_ok ch \<longleftrightarrow> 0 < Capacity ch \<and> length (Buffer ch) \<le> Capacity ch"

text \<open>What a publisher relies on.\<close>

locale event_channel =
  fixes send :: "'e \<Rightarrow> 'c \<Rightarrow> kerror + bool \<times> 'c" and drain :: "'c \<Rightarrow> 'c"
    and contents :: "'c \<Rightarrow> 'e list" and cap :: "'c \<Rightarrow> nat" and is_open :: "'c \<Rightarrow> bool" and invar :: "'c \<Rightarrow> bool"
  assumes send_room: "invar c \<Longrightarrow> is_open c \<Longrightarrow> length (contents c) < cap c \<Longrightarrow>
      \<exists>c'. send e c = Inr (True, c') \<and> contents c' = contents c @ [e] \<and> cap c' = cap c \<and> is_open c' \<and> invar c'"
    and send_full: "invar c \<Longrightarrow> is_open c \<Longrightarrow> \<not> length (contents c) < cap c \<Longrightarrow> send e c = Inr (False, c)"
    and drain_contents: "contents (drain c) = tl (contents c)" "cap (drain c) = cap c" "is_open (drain c) = is_open c"
    and drain_invar: "invar c \<Longrightarrow> invar (drain c)"
    and cap_pos: "invar c \<Longrightarrow> 0 < cap c" and within: "invar c \<Longrightarrow> length (contents c) \<le> cap c"
begin

text \<open>Send, else drain one and send again.\<close>

definition offer :: "'e \<Rightarrow> 'c \<Rightarrow> kerror + 'c" where
  "offer e c = bindR (send e c) (\<lambda>(sent, c').
     if sent then Inr c' else bindR (send e (drain c')) (\<lambda>(_, c''). Inr c''))"

definition last_n :: "nat \<Rightarrow> 'a list \<Rightarrow> 'a list" where
  "last_n n xs = drop (length xs - n) xs"

lemma offer_keeps_last:
  assumes "invar c" "is_open c"
  shows "\<exists>c'. offer e c = Inr c' \<and> contents c' = last_n (cap c) (contents c @ [e])
    \<and> cap c' = cap c \<and> is_open c' \<and> invar c'"
proof (cases "length (contents c) < cap c")
  case True
  obtain c' where "send e c = Inr (True, c')" "contents c' = contents c @ [e]" "cap c' = cap c" "is_open c'" "invar c'"
    using send_room[OF assms True] by blast
  with True show ?thesis by (simp add: offer_def last_n_def)
next
  case False
  then have l: "length (contents c) = cap c" using within[OF assms(1)] by simp
  have "length (contents (drain c)) < cap (drain c)"
    using l cap_pos[OF assms(1)] by (simp add: drain_contents)
  then obtain c' where "send e (drain c) = Inr (True, c')" "contents c' = contents (drain c) @ [e]"
      "cap c' = cap (drain c)" "is_open c'" "invar c'"
    using send_room[OF drain_invar[OF assms(1)], of e] assms(2) by (auto simp: drain_contents)
  moreover have "last_n (cap c) (contents c @ [e]) = tl (contents c) @ [e]"
    using l cap_pos[OF assms(1)] by (cases "contents c") (auto simp: last_n_def)
  ultimately show ?thesis
    using send_full[OF assms False, of e] by (simp add: offer_def drain_contents)
qed

lemma last_n_within: "length xs \<le> n \<Longrightarrow> last_n n (xs @ ys) = last_n n (last_n n xs @ ys)"
  by (simp add: last_n_def)

lemma last_n_append: "0 < n \<Longrightarrow> last_n n (last_n n xs @ [e]) = last_n n (xs @ [e])"
  by (cases "length xs < n") (auto simp: last_n_def Suc_diff_le drop_Cons')

text \<open>A run of offers to a subscriber that receives nothing: the last \<open>cap\<close> events survive.\<close>

fun offer_all :: "'e list \<Rightarrow> 'c \<Rightarrow> kerror + 'c" where
  "offer_all [] c = Inr c"
| "offer_all (e # es) c = bindR (offer e c) (offer_all es)"

lemma offer_all_keeps_last:
  assumes "invar c" "is_open c" "contents c = last_n (cap c) xs"
  shows "\<exists>c'. offer_all es c = Inr c' \<and> contents c' = last_n (cap c) (xs @ es)
    \<and> cap c' = cap c \<and> is_open c' \<and> invar c'"
  using assms
proof (induction es arbitrary: c xs)
  case (Cons e es)
  obtain c' where c': "offer e c = Inr c'" "contents c' = last_n (cap c) (contents c @ [e])"
      "cap c' = cap c" "is_open c'" "invar c'"
    using offer_keeps_last[OF Cons.prems(1,2)] by blast
  have "contents c' = last_n (cap c') (xs @ [e])"
    using c'(2,3) Cons.prems(3) last_n_append[OF cap_pos[OF Cons.prems(1)], of xs e] by simp
  from Cons.IH[OF c'(5,4) this] c'(1,3) show ?case by simp
qed simp

end

interpretation go_channel: event_channel try_send try_drain Buffer Capacity "\<lambda>c. \<not> Closed c" channel_ok
  by unfold_locales (auto simp: try_send_def try_drain_def channel_ok_def)

section \<open>The bus\<close>

text \<open>Channels are shared with the subscribers, so they live in a heap; the map of the bus
  holds addresses, in the order in which Go happens to range over it.\<close>

record bus =
  Heap :: "nat \<Rightarrow> EffectEvent channel"
  NextChannel :: nat
  Subscribers :: "(string \<times> nat) list"
  BufferSize :: int
  BusClosed :: bool

definition defaultBusBufferSize :: int where
  "defaultBusBufferSize = 64"

definition NewEffectBus :: "int \<Rightarrow> bus" where
  "NewEffectBus bufferSize =
    \<lparr>Heap = (\<lambda>_. make_channel 0), NextChannel = 0, Subscribers = [],
     BufferSize = (if bufferSize \<le> 0 then defaultBusBufferSize else bufferSize), BusClosed = False\<rparr>"

text \<open>\<open>close\<close> of a closed channel panics.\<close>

definition close_at :: "nat \<Rightarrow> (nat \<Rightarrow> EffectEvent channel) \<Rightarrow> kerror + (nat \<Rightarrow> EffectEvent channel)" where
  "close_at a h = (if Closed (h a) then Inl (Panic ''close of closed channel'')
                   else Inr (h(a := close_channel (h a))))"

definition map_delete :: "string \<Rightarrow> (string \<times> 'v) list \<Rightarrow> (string \<times> 'v) list" where
  "map_delete k m = filter (\<lambda>(k', _). k' \<noteq> k) m"

definition Subscribe :: "string \<Rightarrow> bus \<Rightarrow> kerror + nat \<times> bus" where
  "Subscribe i b =
    (let a = NextChannel b in
     if BusClosed b then
       Inr (a, b\<lparr>Heap := (Heap b)(a := close_channel (make_channel 0)), NextChannel := a + 1\<rparr>)
     else
       bindR (case map_of (Subscribers b) i of None \<Rightarrow> Inr (Heap b) | Some old \<Rightarrow> close_at old (Heap b))
         (\<lambda>h. Inr (a, b\<lparr>Heap := h(a := make_channel (nat (BufferSize b))), NextChannel := a + 1,
                Subscribers := map_delete i (Subscribers b) @ [(i, a)]\<rparr>)))"

definition Unsubscribe :: "string \<Rightarrow> bus \<Rightarrow> kerror + bus" where
  "Unsubscribe i b =
    (case map_of (Subscribers b) i of
       None \<Rightarrow> Inr b
     | Some a \<Rightarrow> bindR (close_at a (Heap b))
         (\<lambda>h. Inr (b\<lparr>Heap := h, Subscribers := map_delete i (Subscribers b)\<rparr>)))"

definition publish_one :: "EffectEvent \<Rightarrow> EffectEvent channel \<Rightarrow> kerror + EffectEvent channel" where
  "publish_one event ch =
    bindR (try_send event ch) (\<lambda>(sent, ch).
      if sent then Inr ch
      else bindR (try_send event (try_drain ch)) (\<lambda>(_, ch). Inr ch))"

definition Publish :: "EffectEvent \<Rightarrow> bus \<Rightarrow> kerror + bus" where
  "Publish event b =
    (if BusClosed b then Inr b
     else bindR (foldR (\<lambda>h (i, a). bindR (publish_one event (h a)) (\<lambda>ch. Inr (h(a := ch))))
                   (Heap b) (Subscribers b))
            (\<lambda>h. Inr (b\<lparr>Heap := h\<rparr>)))"

definition Close :: "bus \<Rightarrow> kerror + bus" where
  "Close b =
    (if BusClosed b then Inr b
     else bindR (foldR (\<lambda>h (i, a). close_at a h) (Heap b) (Subscribers b))
            (\<lambda>h. Inr (b\<lparr>Heap := h, Subscribers := [], BusClosed := True\<rparr>)))"

definition SubscriberCount :: "bus \<Rightarrow> nat" where
  "SubscriberCount b = length (Subscribers b)"

text \<open>A subscriber receives from the channel it was handed.\<close>

definition Receive :: "nat \<Rightarrow> bus \<Rightarrow> EffectEvent option \<times> bus" where
  "Receive a b = (case receive (Heap b a) of (e, ch) \<Rightarrow> (e, b\<lparr>Heap := (Heap b)(a := ch)\<rparr>))"

section \<open>The invariant, and that nothing panics\<close>

text \<open>Subscribers have distinct ids and distinct, allocated, open channels with room for at
  least one event; a closed bus has no subscribers.\<close>

definition bus_ok :: "bus \<Rightarrow> bool" where
  "bus_ok b \<longleftrightarrow> distinct (map fst (Subscribers b)) \<and> distinct (map snd (Subscribers b))
    \<and> 0 < BufferSize b
    \<and> (\<forall>(i, a)\<in>set (Subscribers b). a < NextChannel b \<and> \<not> Closed (Heap b a) \<and> channel_ok (Heap b a)
        \<and> Capacity (Heap b a) = nat (BufferSize b))
    \<and> (BusClosed b \<longrightarrow> Subscribers b = [])"

lemma bus_okI:
  assumes "distinct (map fst (Subscribers b))" "distinct (map snd (Subscribers b))" "0 < BufferSize b"
    and "\<And>i a. (i, a) \<in> set (Subscribers b) \<Longrightarrow> a < NextChannel b \<and> \<not> Closed (Heap b a)
      \<and> channel_ok (Heap b a) \<and> Capacity (Heap b a) = nat (BufferSize b)"
    and "BusClosed b \<Longrightarrow> Subscribers b = []"
  shows "bus_ok b"
  using assms by (auto simp: bus_ok_def)

lemma publish_one_offer: "publish_one e ch = go_channel.offer e ch"
  by (simp add: publish_one_def go_channel.offer_def)

lemma publish_one_last:
  assumes "channel_ok ch" "\<not> Closed ch"
  shows "\<exists>ch'. publish_one e ch = Inr ch' \<and> Buffer ch' = go_channel.last_n (Capacity ch) (Buffer ch @ [e])
    \<and> Capacity ch' = Capacity ch \<and> \<not> Closed ch' \<and> channel_ok ch'"
  using go_channel.offer_keeps_last[OF assms] by (simp add: publish_one_offer)

lemma map_delete_set: "set (map_delete k m) = {(k', v) \<in> set m. k' \<noteq> k}"
  by (auto simp: map_delete_def)

lemma map_delete_distinct:
  "distinct (map fst m) \<Longrightarrow> distinct (map fst (map_delete k m))"
  "distinct (map snd m) \<Longrightarrow> distinct (map snd (map_delete k m))"
  by (simp_all add: map_delete_def distinct_map_filter)

lemma distinct_snd: "distinct (map snd m) \<Longrightarrow> (i, a) \<in> set m \<Longrightarrow> (j, a) \<in> set m \<Longrightarrow> i = j"
  by (induction m) force+

lemma NewEffectBus_ok: "bus_ok (NewEffectBus n)"
  by (simp add: bus_ok_def NewEffectBus_def defaultBusBufferSize_def)

text \<open>The heap after the publishing loop: each subscriber's channel has been offered the event,
  every other one is untouched.\<close>

definition publish_step :: "EffectEvent \<Rightarrow> (nat \<Rightarrow> EffectEvent channel) \<Rightarrow> string \<times> nat
    \<Rightarrow> kerror + (nat \<Rightarrow> EffectEvent channel)" where
  "publish_step e h = (\<lambda>(i, a). bindR (publish_one e (h a)) (\<lambda>ch. Inr (h(a := ch))))"

lemma publish_loop:
  assumes "distinct (map snd subs)"
    and "\<And>i a. (i, a) \<in> set subs \<Longrightarrow> \<not> Closed (h a) \<and> channel_ok (h a)"
  shows "\<exists>h'. foldR (publish_step e) h subs = Inr h'
    \<and> (\<forall>a. a \<notin> snd ` set subs \<longrightarrow> h' a = h a)
    \<and> (\<forall>a\<in>snd ` set subs. publish_one e (h a) = Inr (h' a))"
  using assms
proof (induction subs arbitrary: h)
  case (Cons ia subs)
  obtain i a where ia: "ia = (i, a)" by (cases ia)
  obtain ch where ch: "publish_one e (h a) = Inr ch"
    using publish_one_last[of "h a" e] Cons.prems(2)[of i a] ia by auto
  have fresh: "a \<notin> snd ` set subs" using Cons.prems(1) ia by auto
  define h1 where "h1 = h(a := ch)"
  have h1: "h1 a = ch" "\<And>b. b \<noteq> a \<Longrightarrow> h1 b = h b" by (simp_all add: h1_def)
  have d: "distinct (map snd subs)" using Cons.prems(1) by simp
  have ok: "\<not> Closed (h1 b) \<and> channel_ok (h1 b)" if "(j, b) \<in> set subs" for j b
  proof -
    have "b \<noteq> a" using that fresh by force
    with Cons.prems(2)[of j b] that show ?thesis by (simp add: h1(2))
  qed
  obtain h' where h': "foldR (publish_step e) h1 subs = Inr h'"
    "\<forall>b. b \<notin> snd ` set subs \<longrightarrow> h' b = h1 b" "\<forall>b\<in>snd ` set subs. publish_one e (h1 b) = Inr (h' b)"
    using Cons.IH[OF d, of h1] ok by blast
  have s: "foldR (publish_step e) h (ia # subs) = Inr h'"
    using h'(1) ch by (simp add: ia publish_step_def h1_def)
  have "b \<noteq> a" if "b \<in> snd ` set subs" for b using that fresh by blast
  then have old: "\<forall>b\<in>snd ` set subs. publish_one e (h b) = Inr (h' b)"
    using h'(3) h1(2) by auto
  have "h' a = ch" using h'(2) fresh h1(1) by auto
  with s old h'(2) h1(2) ch show ?case by (intro exI[of _ h']) (auto simp: ia)
qed simp

lemma Publish_step: "Publish e b =
    (if BusClosed b then Inr b
     else bindR (foldR (publish_step e) (Heap b) (Subscribers b)) (\<lambda>h. Inr (b\<lparr>Heap := h\<rparr>)))"
proof -
  have "(\<lambda>h (i, a). bindR (publish_one e (h a)) (\<lambda>ch. Inr (h(a := ch)))) = publish_step e"
    by (intro ext) (auto simp: publish_step_def)
  then show ?thesis by (simp add: Publish_def)
qed

text \<open>Publishing panics never, keeps the invariant, and leaves each subscriber the last events that
  fit its buffer.\<close>

lemma Publish_effect:
  assumes "bus_ok b"
  shows "\<exists>b'. Publish e b = Inr b' \<and> bus_ok b' \<and> Subscribers b' = Subscribers b \<and> BusClosed b' = BusClosed b
    \<and> (\<forall>(i, a)\<in>set (Subscribers b).
         Buffer (Heap b' a) = go_channel.last_n (nat (BufferSize b)) (Buffer (Heap b a) @ [e]))
    \<and> (\<forall>a. a \<notin> snd ` set (Subscribers b) \<longrightarrow> Heap b' a = Heap b a)"
proof (cases "BusClosed b")
  case True
  with assms show ?thesis by (auto simp: Publish_def bus_ok_def)
next
  case False
  have ok: "a < NextChannel b" "\<not> Closed (Heap b a)" "channel_ok (Heap b a)" "Capacity (Heap b a) = nat (BufferSize b)"
    if "(i, a) \<in> set (Subscribers b)" for i a
    using assms that by (auto simp: bus_ok_def)
  obtain h where h: "foldR (publish_step e) (Heap b) (Subscribers b) = Inr h"
    "\<forall>a. a \<notin> snd ` set (Subscribers b) \<longrightarrow> h a = Heap b a"
    "\<forall>a\<in>snd ` set (Subscribers b). publish_one e (Heap b a) = Inr (h a)"
    using publish_loop[of "Subscribers b" "Heap b" e] assms ok by (auto simp: bus_ok_def)
  have each: "Buffer (h a) = go_channel.last_n (nat (BufferSize b)) (Buffer (Heap b a) @ [e])"
    "Capacity (h a) = nat (BufferSize b)" "\<not> Closed (h a)" "channel_ok (h a)"
    if "(i, a) \<in> set (Subscribers b)" for i a
  proof -
    have "publish_one e (Heap b a) = Inr (h a)" using h(3) that by force
    then show "Buffer (h a) = go_channel.last_n (nat (BufferSize b)) (Buffer (Heap b a) @ [e])"
      "Capacity (h a) = nat (BufferSize b)" "\<not> Closed (h a)" "channel_ok (h a)"
      using publish_one_last[OF ok(3)[OF that] ok(2)[OF that], of e] ok(4)[OF that] by auto
  qed
  have "bus_ok (b\<lparr>Heap := h\<rparr>)"
    using assms each ok(1) by (auto simp: bus_ok_def)
  with h False each show ?thesis
    by (intro exI[of _ "b\<lparr>Heap := h\<rparr>"]) (auto simp: Publish_step)
qed

lemma close_at_ok: "\<not> Closed (h a) \<Longrightarrow> close_at a h = Inr (h(a := close_channel (h a)))"
  by (simp add: close_at_def)

lemma Subscribe_ok:
  assumes "bus_ok b"
  shows "\<exists>a b'. Subscribe i b = Inr (a, b') \<and> bus_ok b' \<and> a = NextChannel b
    \<and> Buffer (Heap b' a) = [] \<and> (Closed (Heap b' a) \<longleftrightarrow> BusClosed b)"
proof (cases "BusClosed b")
  case True
  with assms show ?thesis by (auto simp: Subscribe_def Let_def bus_ok_def close_channel_def make_channel_def)
next
  case False
  note ok = assms[unfolded bus_ok_def]
  define h where "h = (case map_of (Subscribers b) i of None \<Rightarrow> Heap b
                       | Some old \<Rightarrow> (Heap b)(old := close_channel (Heap b old)))"
  have c: "(case map_of (Subscribers b) i of None \<Rightarrow> Inr (Heap b) | Some old \<Rightarrow> close_at old (Heap b)) = Inr h"
    using ok by (auto simp: h_def close_at_ok split: option.splits dest!: map_of_SomeD)
  have keep: "h a = Heap b a" if "(j, a) \<in> set (map_delete i (Subscribers b))" for j a
    using that ok distinct_snd[of "Subscribers b" i a j]
    by (auto simp: h_def map_delete_set split: option.splits dest!: map_of_SomeD)
  let ?b = "b\<lparr>Heap := h(NextChannel b := make_channel (nat (BufferSize b))), NextChannel := NextChannel b + 1,
              Subscribers := map_delete i (Subscribers b) @ [(i, NextChannel b)]\<rparr>"
  have "bus_ok ?b"
  proof (rule bus_okI)
    fix j a
    assume m: "(j, a) \<in> set (Subscribers ?b)"
    show "a < NextChannel ?b \<and> \<not> Closed (Heap ?b a) \<and> channel_ok (Heap ?b a)
      \<and> Capacity (Heap ?b a) = nat (BufferSize ?b)"
    proof (cases "a = NextChannel b")
      case True
      with ok show ?thesis by (simp add: make_channel_def channel_ok_def)
    next
      case f: False
      then have d: "(j, a) \<in> set (map_delete i (Subscribers b))" using m by simp
      then have "(j, a) \<in> set (Subscribers b)" by (simp add: map_delete_set)
      with ok have "a < NextChannel b \<and> \<not> Closed (Heap b a) \<and> channel_ok (Heap b a)
        \<and> Capacity (Heap b a) = nat (BufferSize b)" by blast
      with f keep[OF d] show ?thesis by simp
    qed
  qed (use ok map_delete_distinct[of "Subscribers b" i] False in \<open>auto simp: map_delete_set\<close>)
  with False c show ?thesis by (auto simp: Subscribe_def Let_def make_channel_def)
qed

lemma Unsubscribe_ok:
  assumes "bus_ok b"
  shows "\<exists>b'. Unsubscribe i b = Inr b' \<and> bus_ok b' \<and> i \<notin> fst ` set (Subscribers b')"
proof (cases "map_of (Subscribers b) i")
  case None
  then have "Unsubscribe i b = Inr b" by (simp add: Unsubscribe_def)
  moreover have "i \<notin> fst ` set (Subscribers b)" using None by (simp add: map_of_eq_None_iff)
  ultimately show ?thesis using assms by blast
next
  case (Some a)
  note ok = assms[unfolded bus_ok_def]
  have m: "(i, a) \<in> set (Subscribers b)" using Some by (rule map_of_SomeD)
  then have c: "close_at a (Heap b) = Inr ((Heap b)(a := close_channel (Heap b a)))"
    using ok by (auto simp: close_at_ok)
  let ?b = "b\<lparr>Heap := (Heap b)(a := close_channel (Heap b a)), Subscribers := map_delete i (Subscribers b)\<rparr>"
  have "a' \<noteq> a" if "(j, a') \<in> set (map_delete i (Subscribers b))" for j a'
    using that ok distinct_snd[of "Subscribers b" i a j] m by (auto simp: map_delete_set)
  moreover have "distinct (map fst (Subscribers ?b))" "distinct (map snd (Subscribers ?b))"
    using ok map_delete_distinct[of "Subscribers b" i] by auto
  moreover have "map_delete i [] = []" by (simp add: map_delete_def)
  ultimately have "bus_ok ?b" using ok by (auto simp: bus_ok_def map_delete_set)
  moreover have "i \<notin> fst ` set (map_delete i (Subscribers b))" by (auto simp: map_delete_set)
  ultimately show ?thesis using Some c by (auto simp: Unsubscribe_def)
qed

lemma Close_loop:
  "distinct (map snd subs) \<Longrightarrow> (\<And>i a. (i, a) \<in> set subs \<Longrightarrow> \<not> Closed (h a)) \<Longrightarrow>
   \<exists>h'. foldR (\<lambda>h (i, a). close_at a h) h subs = Inr h' \<and> (\<forall>a\<in>snd ` set subs. Closed (h' a))
     \<and> (\<forall>a. a \<notin> snd ` set subs \<longrightarrow> h' a = h a)"
proof (induction subs arbitrary: h)
  case (Cons ia subs)
  obtain i a where ia: "ia = (i, a)" by (cases ia)
  define h1 where "h1 = h(a := close_channel (h a))"
  have c: "close_at a h = Inr h1" using Cons.prems(2)[of i a] by (simp add: h1_def ia close_at_ok)
  have d: "distinct (map snd subs)" and fresh: "a \<notin> snd ` set subs" using Cons.prems(1) ia by auto
  have o: "\<not> Closed (h1 b)" if "(j, b) \<in> set subs" for j b
  proof -
    have "b \<noteq> a" using that fresh by force
    with Cons.prems(2)[of j b] that show ?thesis by (simp add: h1_def)
  qed
  obtain h' where h': "foldR (\<lambda>h (i, a). close_at a h) h1 subs = Inr h'" "\<forall>a\<in>snd ` set subs. Closed (h' a)"
      "\<forall>a. a \<notin> snd ` set subs \<longrightarrow> h' a = h1 a"
    using Cons.IH[OF d, of h1] o by blast
  have "Closed (h' a)" using h'(3) fresh by (auto simp: h1_def close_channel_def)
  with h' c show ?case by (intro exI[of _ h']) (auto simp: ia h1_def)
qed simp

lemma Close_ok:
  assumes "bus_ok b"
  shows "\<exists>b'. Close b = Inr b' \<and> bus_ok b' \<and> BusClosed b' \<and> SubscriberCount b' = 0
    \<and> (\<forall>(i, a)\<in>set (Subscribers b). Closed (Heap b' a))"
proof (cases "BusClosed b")
  case True
  with assms show ?thesis by (auto simp: Close_def bus_ok_def SubscriberCount_def)
next
  case False
  obtain h' where "foldR (\<lambda>h (i, a). close_at a h) (Heap b) (Subscribers b) = Inr h'"
      "\<forall>a\<in>snd ` set (Subscribers b). Closed (h' a)"
    using Close_loop[of "Subscribers b" "Heap b"] assms by (auto simp: bus_ok_def)
  with False assms show ?thesis by (force simp: Close_def bus_ok_def SubscriberCount_def)
qed


section \<open>Concurrent publishers\<close>

text \<open>
  \<open>Publish\<close> holds the read lock only, so several publishers may be inside the two \<open>select\<close>
  statements for the same channel, next to the receiving subscriber.  The program counter of a
  publisher is which channel operation it performs next; \<open>Finished e sent\<close> tells whether its
  last send went through.  Every channel operation is one atomic step.
\<close>

datatype 'e publisher = Trying 'e | Draining 'e | Retrying 'e | Finished 'e bool

type_synonym 'e pub_state = "'e channel \<times> 'e publisher list"

inductive pub_step :: "'e pub_state \<Rightarrow> 'e pub_state \<Rightarrow> bool" where
  pub_try: "i < length ps \<Longrightarrow> ps ! i = Trying e \<Longrightarrow> try_send e ch = Inr (sent, ch') \<Longrightarrow>
    pub_step (ch, ps) (ch', ps[i := if sent then Finished e True else Draining e])"
| pub_drain: "i < length ps \<Longrightarrow> ps ! i = Draining e \<Longrightarrow>
    pub_step (ch, ps) (try_drain ch, ps[i := Retrying e])"
| pub_retry: "i < length ps \<Longrightarrow> ps ! i = Retrying e \<Longrightarrow> try_send e ch = Inr (sent, ch') \<Longrightarrow>
    pub_step (ch, ps) (ch', ps[i := Finished e sent])"
| sub_receive: "pub_step (ch, ps) (snd (receive ch), ps)"

inductive_simps pub_step_two: "pub_step (ch, [p, q]) (ch', ps')"

abbreviation pub_reach :: "'e pub_state \<Rightarrow> 'e pub_state \<Rightarrow> bool" where
  "pub_reach \<equiv> pub_step\<^sup>*\<^sup>*"

lemma receive_buffer: "snd (receive ch) = ch\<lparr>Buffer := tl (Buffer ch)\<rparr>"
  by (cases "Buffer ch") (auto simp: receive_def)

lemma try_send_ok:
  "channel_ok ch \<Longrightarrow> \<not> Closed ch \<Longrightarrow> try_send e ch = Inr (sent, ch') \<Longrightarrow>
   channel_ok ch' \<and> \<not> Closed ch' \<and> Capacity ch' = Capacity ch"
  by (auto simp: try_send_def channel_ok_def split: if_splits)

lemma try_drain_ok: "channel_ok ch \<Longrightarrow> channel_ok (try_drain ch)"
  by (auto simp: try_drain_def channel_ok_def)

lemma pub_step_ok:
  "pub_step s s' \<Longrightarrow> channel_ok (fst s) \<Longrightarrow> \<not> Closed (fst s) \<Longrightarrow>
   channel_ok (fst s') \<and> \<not> Closed (fst s') \<and> length (snd s') = length (snd s)"
proof (induction rule: pub_step.induct)
  case (pub_try i ps e ch sent ch')
  then show ?case using try_send_ok[OF _ _ pub_try.hyps(3)] by simp
next
  case (pub_drain i ps e ch)
  then show ?case using try_drain_ok[of ch] by (simp add: try_drain_def)
next
  case (pub_retry i ps e ch sent ch')
  then show ?case using try_send_ok[OF _ _ pub_retry.hyps(3)] by simp
next
  case (sub_receive ch ps)
  then show ?case using try_drain_ok[of ch] by (simp add: try_drain_def receive_buffer)
qed

lemma pub_reach_ok:
  assumes "pub_reach (ch, ps) s'" "channel_ok ch" "\<not> Closed ch"
  shows "channel_ok (fst s') \<and> \<not> Closed (fst s') \<and> length (snd s') = length ps"
  using assms(1)
proof (induction rule: rtranclp_induct)
  case (step s s')
  then show ?case using pub_step_ok[of s s'] by simp
qed (use assms in simp)

text \<open>The operations a publisher still has before it.\<close>

fun pub_rank :: "'e publisher \<Rightarrow> nat" where
  "pub_rank (Trying _) = 3"
| "pub_rank (Draining _) = 2"
| "pub_rank (Retrying _) = 1"
| "pub_rank (Finished _ _) = 0"

lemma pub_enabled:
  assumes "channel_ok ch" "\<not> Closed ch" "i < length ps" "0 < pub_rank (ps ! i)"
  shows "\<exists>ch' ps'. pub_step (ch, ps) (ch', ps') \<and> pub_rank (ps' ! i) < pub_rank (ps ! i)"
proof -
  have send: "\<exists>sent ch'. try_send e ch = Inr (sent, ch')" for e
    using assms(2) by (cases "length (Buffer ch) < Capacity ch") (simp_all add: try_send_def ex_bool_eq)
  show ?thesis
  proof (cases "ps ! i")
    case (Trying e)
    obtain sent ch' where "try_send e ch = Inr (sent, ch')" using send by blast
    from pub_try[OF assms(3) Trying this] Trying assms(3) show ?thesis
      by (intro exI conjI) (assumption, simp)
  next
    case (Draining e)
    from pub_drain[OF assms(3) Draining, of ch] Draining assms(3) show ?thesis
      by (intro exI conjI) (assumption, simp)
  next
    case (Retrying e)
    obtain sent ch' where "try_send e ch = Inr (sent, ch')" using send by blast
    from pub_retry[OF assms(3) Retrying this] Retrying assms(3) show ?thesis
      by (intro exI conjI) (assumption, simp)
  next
    case (Finished e sent)
    with assms(4) show ?thesis by simp
  qed
qed

text \<open>A lone publisher, next to a receiver, always gets its event through.\<close>

fun lone_inv :: "'e pub_state \<Rightarrow> bool" where
  "lone_inv (ch, [Retrying e]) = (length (Buffer ch) < Capacity ch)"
| "lone_inv (ch, [Finished e sent]) = sent"
| "lone_inv (ch, ps) = True"

lemma lone_step:
  "pub_step s s' \<Longrightarrow> length (snd s) = 1 \<Longrightarrow> channel_ok (fst s) \<Longrightarrow> \<not> Closed (fst s) \<Longrightarrow> lone_inv s \<Longrightarrow> lone_inv s'"
proof (induction rule: pub_step.induct)
  case (pub_try i ps e ch sent ch')
  then obtain p where "ps = [p]" by (auto simp: length_Suc_conv)
  with pub_try show ?case by (cases sent) simp_all
next
  case (pub_drain i ps e ch)
  then obtain p where "ps = [p]" by (auto simp: length_Suc_conv)
  with pub_drain show ?case by (auto simp: try_drain_def channel_ok_def)
next
  case (pub_retry i ps e ch sent ch')
  then obtain p where "ps = [p]" by (auto simp: length_Suc_conv)
  with pub_retry show ?case by (auto simp: try_send_def split: if_splits)
next
  case (sub_receive ch ps)
  then obtain p where "ps = [p]" by (auto simp: length_Suc_conv)
  with sub_receive show ?case by (cases p) (auto simp: receive_buffer)
qed

lemma lone_reach:
  assumes "pub_reach (ch, [Trying e]) s" "channel_ok ch" "\<not> Closed ch"
  shows "lone_inv s \<and> length (snd s) = 1"
  using assms(1)
proof (induction rule: rtranclp_induct)
  case (step s s')
  have "channel_ok (fst s)" "\<not> Closed (fst s)"
    using pub_reach_ok[OF step.hyps(1) assms(2,3)] by simp_all
  with lone_step[OF step.hyps(2)] pub_step_ok[OF step.hyps(2)] step.IH show ?case by simp
qed simp

text \<open>A step next to a lone publisher: the receiver's leaves it where it is, its own brings it closer to its
  end, with the same event; the step that ends it has put the event last.\<close>

fun pub_event :: "'e publisher \<Rightarrow> 'e" where
  "pub_event (Trying e) = e"
| "pub_event (Draining e) = e"
| "pub_event (Retrying e) = e"
| "pub_event (Finished e _) = e"

lemma lone_moves:
  assumes "pub_step (c, [p]) (c', ps)"
  obtains "ps = [p]" | p' where "ps = [p']" "pub_rank p' < pub_rank p" "pub_event p' = pub_event p"
    "\<And>e. p' = Finished e True \<Longrightarrow> Buffer c' \<noteq> [] \<and> last (Buffer c') = e"
  using assms
proof cases
  case (pub_try i e sent)
  then have i: "i = 0" "p = Trying e" by simp_all
  show thesis
  proof (cases sent)
    case True
    with pub_try(4) have "Buffer c' = Buffer c @ [e]" by (auto simp: try_send_def split: if_splits)
    with True i pub_try(1) show thesis by (intro that(2)[of "Finished e True"]) simp_all
  next
    case False
    with i pub_try(1) show thesis by (intro that(2)[of "Draining e"]) simp_all
  qed
next
  case (pub_drain i e)
  then show thesis by (intro that(2)[of "Retrying e"]) simp_all
next
  case (pub_retry i e sent)
  then have i: "i = 0" "p = Retrying e" by simp_all
  have "sent \<Longrightarrow> Buffer c' = Buffer c @ [e]" using pub_retry(4) by (auto simp: try_send_def split: if_splits)
  with i pub_retry(1) show thesis by (intro that(2)[of "Finished e sent"]) auto
qed (use that(1) in simp)

section \<open>Fair runs\<close>

text \<open>A run is an infinite sequence of steps.  It is fair to the publishers when no operation of theirs is for
  ever possible and never taken; a receiver may run as often as it likes, or never.\<close>

definition pub_run :: "(nat \<Rightarrow> 'e pub_state) \<Rightarrow> bool" where
  "pub_run run \<longleftrightarrow> (\<forall>k. pub_step (run k) (run (Suc k)))"

definition pub_can_move :: "'e pub_state \<Rightarrow> bool" where
  "pub_can_move s \<longleftrightarrow> (\<exists>s'. pub_step s s' \<and> snd s' \<noteq> snd s)"

definition pub_fair :: "(nat \<Rightarrow> 'e pub_state) \<Rightarrow> bool" where
  "pub_fair run \<longleftrightarrow> (\<forall>k. (\<forall>j\<ge>k. pub_can_move (run j)) \<longrightarrow> (\<exists>j\<ge>k. snd (run (Suc j)) \<noteq> snd (run j)))"

lemma run_reach: "pub_run run \<Longrightarrow> pub_reach (run 0) (run k)"
  by (induction k) (auto simp: pub_run_def intro: rtranclp.rtrancl_into_rtrancl)

lemma unfinished_can_move:
  assumes "channel_ok c" "\<not> Closed c" "0 < pub_rank p"
  shows "pub_can_move (c, [p])"
proof -
  obtain c' ps where "pub_step (c, [p]) (c', ps)" "pub_rank (ps ! 0) < pub_rank ([p] ! 0)"
    using pub_enabled[OF assms(1,2), of 0 "[p]"] assms(3) by auto
  moreover from this(2) have "ps \<noteq> [p]" by auto
  ultimately show ?thesis unfolding pub_can_move_def by (intro exI[of _ "(c', ps)"]) simp
qed

lemma lone_run:
  assumes "channel_ok ch" "\<not> Closed ch" "run 0 = (ch, [Trying e])" "pub_run run"
  obtains c p where "run k = (c, [p])" "channel_ok c" "\<not> Closed c" "lone_inv (c, [p])" "pub_event p = e"
proof -
  have r: "pub_reach (ch, [Trying e]) (run k)" using run_reach[OF assms(4), of k] assms(3) by simp
  obtain c p where cp: "run k = (c, [p])"
    using lone_reach[OF r assms(1,2)] by (cases "run k") (auto simp: length_Suc_conv)
  have "\<exists>c p. run j = (c, [p]) \<and> pub_event p = e" for j
  proof (induction j)
    case (Suc j)
    then obtain c p where j: "run j = (c, [p])" "pub_event p = e" by blast
    obtain c' ps where s: "run (Suc j) = (c', ps)" by (cases "run (Suc j)")
    have "pub_step (c, [p]) (c', ps)" using assms(4) j(1) s unfolding pub_run_def by metis
    then show ?case by (rule lone_moves) (use j s in auto)
  qed (simp add: assms(3))
  then have "pub_event p = e" using cp by (metis list.inject prod.inject)
  with that[OF cp] pub_reach_ok[OF r assms(1,2)] lone_reach[OF r assms(1,2)] show thesis by (simp add: cp)
qed

lemma lone_finishes:
  assumes "channel_ok ch" "\<not> Closed ch" "run 0 = (ch, [Trying e])" "pub_run run" "pub_fair run"
    and "run k = (c, [p])" "0 < pub_rank p"
  shows "\<exists>j c'. run j = (c', [Finished e True]) \<and> Buffer c' \<noteq> [] \<and> last (Buffer c') = e"
  using assms(6,7)
proof (induction "pub_rank p" arbitrary: k c p rule: less_induct)
  case less
  note lone = lone_run[OF assms(1-4)]
  have "\<exists>j\<ge>k. snd (run (Suc j)) \<noteq> snd (run j)"
  proof (rule ccontr)
    assume still: "\<not> (\<exists>j\<ge>k. snd (run (Suc j)) \<noteq> snd (run j))"
    have "snd (run j) = [p]" if "k \<le> j" for j
      using that by (induction j rule: dec_induct) (use less.prems still in auto)
    then have "pub_can_move (run j)" if "k \<le> j" for j
      using that less.prems(2) lone[of j "pub_can_move (run j)"] by (metis list.inject snd_conv unfinished_can_move)
    with assms(5) still show False unfolding pub_fair_def by blast
  qed
  then obtain j where j: "k \<le> j" "snd (run (Suc j)) \<noteq> snd (run j)" "\<forall>i. k \<le> i \<longrightarrow> i < j \<longrightarrow> snd (run (Suc i)) = snd (run i)"
    using exists_least_iff[of "\<lambda>j. k \<le> j \<and> snd (run (Suc j)) \<noteq> snd (run j)"] by blast
  have "snd (run j) = [p]" using j(1,3)
    by (induction j rule: dec_induct) (use less.prems in auto)
  then obtain d where d: "run j = (d, [p])" by (cases "run j") auto
  obtain d' ps where d': "run (Suc j) = (d', ps)" by (cases "run (Suc j)")
  have "pub_step (d, [p]) (d', ps)" using assms(4) d d' unfolding pub_run_def by metis
  then show ?case
  proof (rule lone_moves)
    assume "ps = [p]"
    with j(2) d d' show ?thesis by simp
  next
    fix p'
    assume p': "ps = [p']" "pub_rank p' < pub_rank p" "\<And>e. p' = Finished e True \<Longrightarrow> Buffer d' \<noteq> [] \<and> last (Buffer d') = e"
    show ?thesis
    proof (cases "pub_rank p' = 0")
      case True
      obtain e' sent where f: "p' = Finished e' sent" using True by (cases p') auto
      obtain d'' q where q: "run (Suc j) = (d'', [q])" "lone_inv (d'', [q])" "pub_event q = e" by (rule lone[of "Suc j"])
      then have "q = p'" using d' p'(1) by simp
      with q(2,3) f have "p' = Finished e True" by simp
      with p'(1,3) d' show ?thesis by blast
    next
      case False
      with less.hyps[OF p'(2)] d' p'(1) show ?thesis by blast
    qed
  qed
qed

section \<open>Properties\<close>

text \<open>C31: Publishing never panics or blocks, keeps the bus well formed, and leaves every subscriber
  exactly the last events that fit its buffer; a channel that is not subscribed is untouched.\<close>

theorem publish_keeps_newest:
  assumes "bus_ok b"
  shows "\<exists>b'. Publish e b = Inr b' \<and> bus_ok b' \<and> Subscribers b' = Subscribers b
    \<and> (\<forall>(i, a)\<in>set (Subscribers b).
         Buffer (Heap b' a) = go_channel.last_n (nat (BufferSize b)) (Buffer (Heap b a) @ [e]))
    \<and> (\<forall>a. a \<notin> snd ` set (Subscribers b) \<longrightarrow> Heap b' a = Heap b a)"
  using Publish_effect[OF assms, of e] by blast

definition sample_event :: EffectEvent where
  "sample_event = \<lparr>EventRecordID = ''r'', EventIntentID = ''i'', EventOwnerID = ''o'', EventMode = ''capture'',
    EventSchemaRef = ''s'', EventKindLabel = [], EventPayload = None, EventCausalParents = None, EventTimestamp = 0\<rparr>"

lemma sample_bus:
  "\<exists>a b. Subscribe ''x'' (NewEffectBus 1) = Inr (a, b) \<and> bus_ok b \<and> Buffer (Heap b a) = []
    \<and> (''x'', a) \<in> set (Subscribers b) \<and> BufferSize b = 1"
proof -
  from Subscribe_ok[OF NewEffectBus_ok, of "''x''" 1] obtain a b
    where "Subscribe ''x'' (NewEffectBus 1) = Inr (a, b)" "bus_ok b" "Buffer (Heap b a) = []" by blast
  then show ?thesis by (intro exI[of _ a] exI[of _ b]) (auto simp: Subscribe_def NewEffectBus_def Let_def)
qed

theorem publish_keeps_newest_witness:
  "\<exists>a b b'. Subscribe ''x'' (NewEffectBus 1) = Inr (a, b) \<and> Publish sample_event b = Inr b' \<and> bus_ok b'
    \<and> Buffer (Heap b' a) = [sample_event]"
proof -
  from sample_bus obtain a b where b: "Subscribe ''x'' (NewEffectBus 1) = Inr (a, b)" "bus_ok b"
    "Buffer (Heap b a) = []" "(''x'', a) \<in> set (Subscribers b)" "BufferSize b = 1" by blast
  from publish_keeps_newest[OF b(2), of sample_event] obtain b' where
    "Publish sample_event b = Inr b'" "bus_ok b'"
    "\<forall>(i, a)\<in>set (Subscribers b).
         Buffer (Heap b' a) = go_channel.last_n (nat (BufferSize b)) (Buffer (Heap b a) @ [sample_event])" by blast
  with b show ?thesis by (fastforce simp: go_channel.last_n_def)
qed

text \<open>Subscribing, unsubscribing and closing never panic (no channel is closed twice or sent to
  when closed) and keep the bus well formed: a subscriber gets an empty channel, open unless
  the bus is closed; an unsubscribed id is gone; closing drops every subscriber and closes its
  channel.\<close>

theorem subscriptions_safe:
  assumes "bus_ok b"
  shows "(\<exists>a b'. Subscribe i b = Inr (a, b') \<and> bus_ok b' \<and> Buffer (Heap b' a) = []
        \<and> (Closed (Heap b' a) \<longleftrightarrow> BusClosed b))
    \<and> (\<exists>b'. Unsubscribe i b = Inr b' \<and> bus_ok b' \<and> i \<notin> fst ` set (Subscribers b'))
    \<and> (\<exists>b'. Close b = Inr b' \<and> bus_ok b' \<and> BusClosed b' \<and> SubscriberCount b' = 0
        \<and> (\<forall>(i, a)\<in>set (Subscribers b). Closed (Heap b' a)))"
  using Subscribe_ok[OF assms, of i] Unsubscribe_ok[OF assms, of i] Close_ok[OF assms] by blast

theorem subscriptions_safe_witness:
  "\<exists>a b b'. Subscribe ''x'' (NewEffectBus 1) = Inr (a, b) \<and> Close b = Inr b' \<and> SubscriberCount b' = 0
    \<and> Closed (Heap b' a)"
proof -
  from sample_bus obtain a b where b: "Subscribe ''x'' (NewEffectBus 1) = Inr (a, b)" "bus_ok b"
    "(''x'', a) \<in> set (Subscribers b)" by blast
  from subscriptions_safe[OF b(2)] obtain b' where "Close b = Inr b'" "SubscriberCount b' = 0"
    "\<forall>(i, a)\<in>set (Subscribers b). Closed (Heap b' a)" by blast
  with b show ?thesis by blast
qed

text \<open>C32: A publisher that is alone on an open channel, next to a receiving subscriber, gets its event in: in
  every run that is fair to it, whatever the receiver does, there is a moment at which it has finished, its send
  went through, and its event is the last of the buffer.  And it never blocks: in every state of the run
  in which it has not finished, its next operation is possible.\<close>

theorem lone_publisher_delivers:
  assumes "channel_ok ch" "\<not> Closed ch" "run 0 = (ch, [Trying e])" "pub_run run" "pub_fair run"
  shows "(\<exists>k c. run k = (c, [Finished e True]) \<and> Buffer c \<noteq> [] \<and> last (Buffer c) = e)
    \<and> (\<forall>k c p. run k = (c, [p]) \<and> 0 < pub_rank p \<longrightarrow> pub_can_move (run k))"
proof
  show "\<exists>k c. run k = (c, [Finished e True]) \<and> Buffer c \<noteq> [] \<and> last (Buffer c) = e"
    using lone_finishes[OF assms assms(3)] by simp
  show "\<forall>k c p. run k = (c, [p]) \<and> 0 < pub_rank p \<longrightarrow> pub_can_move (run k)"
  proof (intro allI impI)
    fix k c p
    assume "run k = (c, [p]) \<and> 0 < pub_rank p"
    moreover obtain d q where "run k = (d, [q])" "channel_ok d" "\<not> Closed d" by (rule lone_run[OF assms(1-4), of k])
    ultimately show "pub_can_move (run k)" by (simp add: unfinished_can_move)
  qed
qed

text \<open>A publisher that finds its buffer full, drains it and sends; the receiver takes the event, and then
  waits.\<close>

definition sample_run :: "nat \<Rightarrow> nat pub_state" where
  "sample_run k =
    (let c = (\<lambda>b. \<lparr>Buffer = b, Capacity = 1, Closed = False\<rparr>) in
     if k = 0 then (c [3], [Trying 7]) else if k = 1 then (c [3], [Draining 7]) else if k = 2 then (c [], [Retrying 7])
     else if k = 3 then (c [7], [Finished 7 True]) else (c [], [Finished 7 True]))"

lemma sample_run_steps: "pub_run sample_run"
  unfolding pub_run_def
proof
  fix k :: nat
  let ?c = "\<lambda>b. \<lparr>Buffer = b, Capacity = 1, Closed = False\<rparr> :: nat channel"
  consider "k = 0" | "k = 1" | "k = 2" | "k = 3" | "4 \<le> k" by linarith
  then show "pub_step (sample_run k) (sample_run (Suc k))"
  proof cases
    case 1
    then show ?thesis using pub_try[of 0 "[Trying 7]" 7 "?c [3]" False] by (simp add: sample_run_def try_send_def)
  next
    case 2
    then show ?thesis using pub_drain[of 0 "[Draining 7]" 7 "?c [3]"] by (simp add: sample_run_def try_drain_def)
  next
    case 3
    then show ?thesis using pub_retry[of 0 "[Retrying 7]" 7 "?c []" True] by (simp add: sample_run_def try_send_def)
  next
    case 4
    then show ?thesis using sub_receive[of "?c [7]" "[Finished 7 True]"] by (simp add: sample_run_def receive_buffer)
  next
    case 5
    then show ?thesis using sub_receive[of "?c []" "[Finished 7 True]"] by (simp add: sample_run_def receive_buffer)
  qed
qed

theorem lone_publisher_delivers_witness:
  "\<exists>k c. sample_run k = (c, [Finished 7 True]) \<and> last (Buffer c) = 7"
proof -
  have start: "sample_run 0 = (\<lparr>Buffer = [3], Capacity = 1, Closed = False\<rparr>, [Trying 7])" by (simp add: sample_run_def)
  have "pub_fair sample_run"
    unfolding pub_fair_def
  proof (intro allI impI)
    fix k
    assume "\<forall>j\<ge>k. pub_can_move (sample_run j)"
    then have "pub_can_move (sample_run (max k 4))" by simp
    moreover have "sample_run n = (\<lparr>Buffer = [], Capacity = 1, Closed = False\<rparr>, [Finished 7 True])" if "4 \<le> n" for n
      using that by (simp add: sample_run_def)
    ultimately have "pub_can_move (\<lparr>Buffer = [], Capacity = 1, Closed = False\<rparr> :: nat channel, [Finished 7 True])"
      by (metis max.cobounded2)
    then obtain s where s: "pub_step (\<lparr>Buffer = [], Capacity = 1, Closed = False\<rparr> :: nat channel, [Finished 7 True]) s"
      "snd s \<noteq> [Finished 7 True]" by (auto simp: pub_can_move_def)
    from s(1) have False by cases (use s(2) in auto)
    then show "\<exists>j\<ge>k. snd (sample_run (Suc j)) \<noteq> snd (sample_run j)" ..
  qed
  from lone_publisher_delivers[OF _ _ start sample_run_steps this] show ?thesis by (auto simp: channel_ok_def)
qed

text \<open>With two publishers the comment on \<open>Publish\<close> (a full buffer drops the oldest event) fails:
  both can find the buffer full, one drains and refills it, and the second, having drained
  before, finds it full again and drops its own event, the newest one.\<close>

theorem concurrent_publishers_drop_newest:
  "pub_reach (\<lparr>Buffer = [old], Capacity = 1, Closed = False\<rparr>, [Trying e1, Trying e2])
    (\<lparr>Buffer = [e1], Capacity = 1, Closed = False\<rparr>, [Finished e1 True, Finished e2 False])"
proof -
  let ?c = "\<lambda>b. \<lparr>Buffer = b, Capacity = 1, Closed = False\<rparr> :: 'a channel"
  have s: "try_send e (?c [x]) = Inr (False, ?c [x])" "try_send e (?c []) = Inr (True, ?c [e])" for e x
    by (simp_all add: try_send_def)
  have d: "try_drain (?c b) = ?c (tl b)" for b by (simp add: try_drain_def)
  have 1: "pub_step (?c [old], [Trying e1, Trying e2]) (?c [old], [Draining e1, Trying e2])"
    using pub_try[of 0 "[Trying e1, Trying e2]" e1 "?c [old]" False] s by simp
  have 2: "pub_step (?c [old], [Draining e1, Trying e2]) (?c [old], [Draining e1, Draining e2])"
    using pub_try[of 1 "[Draining e1, Trying e2]" e2 "?c [old]" False] s by simp
  have 3: "pub_step (?c [old], [Draining e1, Draining e2]) (?c [], [Draining e1, Retrying e2])"
    using pub_drain[of 1 "[Draining e1, Draining e2]" e2 "?c [old]"] d by simp
  have 4: "pub_step (?c [], [Draining e1, Retrying e2]) (?c [], [Retrying e1, Retrying e2])"
    using pub_drain[of 0 "[Draining e1, Retrying e2]" e1 "?c []"] d by simp
  have 5: "pub_step (?c [], [Retrying e1, Retrying e2]) (?c [e1], [Finished e1 True, Retrying e2])"
    using pub_retry[of 0 "[Retrying e1, Retrying e2]" e1 "?c []" True] s by simp
  have 6: "pub_step (?c [e1], [Finished e1 True, Retrying e2]) (?c [e1], [Finished e1 True, Finished e2 False])"
    using pub_retry[of 1 "[Finished e1 True, Retrying e2]" e2 "?c [e1]" False] s by simp
  show ?thesis using 1 2 3 4 5 6 by (meson converse_rtranclp_into_rtranclp rtranclp.rtrancl_refl)
qed

end
