(* ===== verification/Store_Db.thy ===== *)
theory Store_Db
  imports Ordered_Map Effect_Bus "HOL-Library.AList"
begin

text \<open>
  The tables of \<open>store_schema.go\<close> and the statements the store runs on them.  A table is the
  list of its rows in insertion order; a statement that breaks a \<open>PRIMARY KEY\<close>, \<open>UNIQUE\<close>,
  \<open>CHECK\<close> or \<open>FOREIGN KEY\<close> clause is the driver's error, and changes nothing.  A column that
  holds JSON text holds the document here; decoding replaces invalid UTF-8, as
  \<open>encoding/json\<close> does.  The timestamps of the rows are not modelled: nothing reads them.

  \<open>keyed_table\<close> is the interface every table with a text primary key provides.
\<close>

section \<open>Documents in columns\<close>

text \<open>\<open>stringToJSON\<close> and \<open>jsonToStrings\<close>.  A nil slice is \<open>null\<close>.\<close>

definition stringToJSON :: "string slice \<Rightarrow> json" where
  "stringToJSON ss = (case ss of None \<Rightarrow> JNull | Some xs \<Rightarrow> JArr (map JStr xs))"

fun json_string :: "json \<Rightarrow> string" where
  "json_string (JStr s) = to_valid s"
| "json_string _ = []"

fun jsonToStrings :: "json \<Rightarrow> string slice" where
  "jsonToStrings (JArr js) = Some (map json_string js)"
| "jsonToStrings _ = None"

definition strings_ok :: "string slice \<Rightarrow> bool" where
  "strings_ok ss \<longleftrightarrow> list_all valid_string (elems ss)"

lemma strings_ok_simps [simp]: "strings_ok None" "strings_ok (Some xs) \<longleftrightarrow> list_all valid_string xs"
  by (simp_all add: strings_ok_def)

lemma strings_round_trip [simp]: "strings_ok ss \<Longrightarrow> jsonToStrings (stringToJSON ss) = ss"
  by (auto simp: stringToJSON_def list_all_iff to_valid_id split: option.splits intro: map_idI)

text \<open>\<open>bodyToJSON\<close> swallows the marshalling error and stores the empty string, which
  \<open>bodyFromJSON\<close> then fails to decode; \<open>None\<close> is that string.  The \<open>null\<close> document decodes
  to a nil map.\<close>

definition bodyToJSON :: "gmap \<Rightarrow> json option" where
  "bodyToJSON body = (case json_marshal (of_gmap body) of Inr j \<Rightarrow> Some j | Inl _ \<Rightarrow> None)"

definition bodyFromJSON :: "json option \<Rightarrow> kerror + gmap" where
  "bodyFromJSON t =
    (case t of
       None \<Rightarrow> Inl (Plain ''decode retained body: EOF'' [])
     | Some JNull \<Rightarrow> Inr None
     | Some (JObj js) \<Rightarrow> Inr (Some (map (\<lambda>(k, j). (to_valid k, json_decode j)) js))
     | Some _ \<Rightarrow> Inl (Plain ''decode retained body: json: cannot unmarshal into map[string]interface {}'' []))"

section \<open>Receipts\<close>

text \<open>\<open>receiptToJSON\<close>: the members in the order of the struct, the map of ranges with its keys
  sorted.  The slices that \<open>prepareAppend\<close> grows from nil are \<open>null\<close> when empty.\<close>

definition json_strings_or_null :: "string list \<Rightarrow> json" where
  "json_strings_or_null xs = (if xs = [] then JNull else JArr (map JStr xs))"

definition receiptToJSON :: "AppendReceipt \<Rightarrow> json" where
  "receiptToJSON r = JObj
    [(''AppendIntentID'', JStr (ReceiptIntentID r)),
     (''FactIDs'', JArr (map JStr (FactIDs r))),
     (''CommitReceipts'', json_strings_or_null (CommitReceipts r)),
     (''OwnerRanges'', JObj (map (\<lambda>(ow, lo, hi). (ow, JArr [JNum (itoa lo), JNum (itoa hi)]))
        (sorted_fields (OwnerRanges r)))),
     (''CausalEdges'', if CausalEdges r = [] then JNull
        else JArr (map (\<lambda>(p, c). JArr [JStr p, JStr c]) (CausalEdges r))),
     (''ContextReceipts'', json_strings_or_null (ContextReceipts r))]"

definition unmarshal_error :: kerror where
  "unmarshal_error = Plain ''json: cannot unmarshal'' []"

fun to_string_json :: "json \<Rightarrow> kerror + string" where
  "to_string_json JNull = Inr []"
| "to_string_json (JStr s) = Inr (to_valid s)"
| "to_string_json _ = Inl unmarshal_error"

fun to_int_json :: "json \<Rightarrow> kerror + int" where
  "to_int_json JNull = Inr 0"
| "to_int_json (JNum t) = (case parse_int64 t of None \<Rightarrow> Inl unmarshal_error | Some i \<Rightarrow> Inr i)"
| "to_int_json _ = Inl unmarshal_error"

fun to_list_json :: "(json \<Rightarrow> kerror + 'a) \<Rightarrow> json \<Rightarrow> kerror + 'a list" where
  "to_list_json f JNull = Inr []"
| "to_list_json f (JArr js) = mapR f js"
| "to_list_json f _ = Inl unmarshal_error"

text \<open>A Go array of length two: missing elements stay zero, surplus ones are dropped.\<close>

definition to_pair_json :: "(json \<Rightarrow> kerror + 'a) \<Rightarrow> json \<Rightarrow> kerror + 'a \<times> 'a" where
  "to_pair_json f j =
    (case j of
       JNull \<Rightarrow> bindR (f JNull) (\<lambda>z. Inr (z, z))
     | JArr js \<Rightarrow> (case js @ [JNull, JNull] of
          a # b # _ \<Rightarrow> bindR (f a) (\<lambda>x. bindR (f b) (\<lambda>y. Inr (x, y)))
        | _ \<Rightarrow> Inl unmarshal_error)
     | _ \<Rightarrow> Inl unmarshal_error)"

fun to_map_json :: "(json \<Rightarrow> kerror + 'a) \<Rightarrow> json \<Rightarrow> kerror + (string \<times> 'a) list" where
  "to_map_json f JNull = Inr []"
| "to_map_json f (JObj js) = mapR (\<lambda>(k, j). bindR (f j) (\<lambda>x. Inr (to_valid k, x))) js"
| "to_map_json f _ = Inl unmarshal_error"

definition member :: "(string \<times> json) list \<Rightarrow> string \<Rightarrow> json" where
  "member js k = (case map_of js k of None \<Rightarrow> JNull | Some j \<Rightarrow> j)"

text \<open>Decoding into a struct: the members of an object; \<open>null\<close> leaves every field zero.\<close>

fun struct_members :: "json \<Rightarrow> kerror + (string \<times> json) list" where
  "struct_members (JObj js) = Inr js"
| "struct_members JNull = Inr []"
| "struct_members _ = Inl unmarshal_error"

definition receiptFromJSON :: "json \<Rightarrow> kerror + AppendReceipt" where
  "receiptFromJSON j =
    bindR (struct_members j) (\<lambda>js.
         bindR (to_string_json (member js ''AppendIntentID'')) (\<lambda>i.
         bindR (to_list_json to_string_json (member js ''FactIDs'')) (\<lambda>fs.
         bindR (to_list_json to_string_json (member js ''CommitReceipts'')) (\<lambda>cs.
         bindR (to_map_json (to_pair_json to_int_json) (member js ''OwnerRanges'')) (\<lambda>rs.
         bindR (to_list_json (to_pair_json to_string_json) (member js ''CausalEdges'')) (\<lambda>es.
         bindR (to_list_json to_string_json (member js ''ContextReceipts'')) (\<lambda>xs.
         Inr \<lparr>ReceiptIntentID = i, FactIDs = fs, CommitReceipts = cs, OwnerRanges = rs,
              CausalEdges = es, ContextReceipts = xs\<rparr>)))))))"

definition receipt_ok :: "AppendReceipt \<Rightarrow> bool" where
  "receipt_ok r \<longleftrightarrow> valid_string (ReceiptIntentID r) \<and> list_all valid_string (FactIDs r)
    \<and> list_all valid_string (CommitReceipts r) \<and> list_all valid_string (ContextReceipts r)
    \<and> list_all (\<lambda>(p, c). valid_string p \<and> valid_string c) (CausalEdges r)
    \<and> list_all (\<lambda>(ow, lo, hi). valid_string ow \<and> - (2 ^ 63) \<le> lo \<and> lo < 2 ^ 63 \<and> - (2 ^ 63) \<le> hi \<and> hi < 2 ^ 63)
        (OwnerRanges r)"

lemma mapR_id: "(\<And>x. x \<in> set xs \<Longrightarrow> f (g x) = Inr x) \<Longrightarrow> mapR f (map g xs) = Inr xs"
  by (induction xs) auto

lemma to_list_strings:
  "list_all valid_string xs \<Longrightarrow> to_list_json to_string_json (JArr (map JStr xs)) = Inr xs"
  "list_all valid_string xs \<Longrightarrow> to_list_json to_string_json (json_strings_or_null xs) = Inr xs"
  by (auto simp: json_strings_or_null_def list_all_iff to_valid_id intro!: mapR_id)

text \<open>Decoding an encoded receipt gives it back, its ranges listed by owner.\<close>

lemma receipt_round_trip:
  assumes "receipt_ok r"
  shows "receiptFromJSON (receiptToJSON r) = Inr (r\<lparr>OwnerRanges := sorted_fields (OwnerRanges r)\<rparr>)"
proof -
  note ok = assms[unfolded receipt_ok_def]
  have e: "to_list_json (to_pair_json to_string_json)
      (if CausalEdges r = [] then JNull else JArr (map (\<lambda>(p, c). JArr [JStr p, JStr c]) (CausalEdges r)))
    = Inr (CausalEdges r)"
    using ok by (auto simp: list_all_iff to_pair_json_def to_valid_id intro!: mapR_id)
  have m: "mapR (\<lambda>(k, j). bindR (to_pair_json to_int_json j) (\<lambda>x. Inr (to_valid k, x)))
      (map (\<lambda>(ow, lo, hi). (ow, JArr [JNum (itoa lo), JNum (itoa hi)])) xs) = Inr xs"
    if "list_all (\<lambda>(ow, lo, hi). valid_string ow \<and> - (2 ^ 63) \<le> lo \<and> lo < 2 ^ 63 \<and> - (2 ^ 63) \<le> hi \<and> hi < 2 ^ 63) xs"
    for xs
    using that by (induction xs) (auto simp: to_pair_json_def parse_int64_itoa to_valid_id)
  have "list_all (\<lambda>(ow, lo, hi). valid_string ow \<and> - (2 ^ 63) \<le> lo \<and> lo < 2 ^ 63 \<and> - (2 ^ 63) \<le> hi \<and> hi < 2 ^ 63)
      (sorted_fields (OwnerRanges r))"
    using ok by (simp add: sorted_fields_def list_all_iff)
  note m = m[OF this]
  show ?thesis
    using ok by (simp add: receiptFromJSON_def receiptToJSON_def member_def to_list_strings e m to_valid_id
        del: to_list_json.simps)
qed


section \<open>Tables\<close>

record intent_row =
  IntentID :: string
  IntentDigest :: string
  IntentReceipt :: json

record ledger_row =
  LedgerID :: string
  LedgerDigest :: string
  LedgerReceipt :: json

record context_row =
  CtxID :: string
  CtxActive :: json
  CtxCapability :: json
  CtxSemantic :: json
  CtxVisibility :: json
  CtxSubstrate :: string
  CtxContainment :: string
  CtxIntent :: string

record record_row =
  RowID :: string
  RowDigest :: string
  RowSchema :: string
  RowMode :: string
  RowWitness :: string
  RowCausedBy :: json
  RowBody :: "json option"
  RowIntent :: string

record edge_row =
  EdgeParent :: string
  EdgeChild :: string
  EdgePosition :: int

record path_row =
  PathRef :: string
  PathOrdinal :: int
  PathRecord :: string
  PathContext :: string
  PathKind :: string
  PathIntent :: string
  PathCommit :: string

record snapshot_row =
  SnapID :: string
  SnapScope :: string
  SnapSeq :: int
  SnapState :: "json option"
  SnapBytes :: string
  SnapCreated :: int

record frontier_row =
  FrID :: string
  FrTarget :: string
  FrThrough :: string
  FrOrdinal :: int
  FrPublisher :: string
  FrCreatedBy :: string
  FrIntent :: string

text \<open>The table \<open>meta\<close> has the one key \<open>next_commit_seq\<close>.\<close>

record db =
  NextCommitSeq :: "int option"
  AppendIntents :: "intent_row list"
  Ledger :: "ledger_row list"
  Contexts :: "context_row list"
  OwnerOrdinals :: "(string \<times> int) list"
  Records :: "record_row list"
  RecordEdges :: "edge_row list"
  PathEntries :: "path_row list"
  Snapshots :: "snapshot_row list"
  Frontiers :: "frontier_row list"

definition empty_db :: db where
  "empty_db = \<lparr>NextCommitSeq = None, AppendIntents = [], Ledger = [], Contexts = [],
    OwnerOrdinals = [], Records = [], RecordEdges = [], PathEntries = [], Snapshots = [], Frontiers = []\<rparr>"

definition unique_error :: "string \<Rightarrow> kerror" where
  "unique_error c = Driver (''UNIQUE constraint failed: '' @ c)"

definition foreign_key_error :: kerror where
  "foreign_key_error = Driver ''FOREIGN KEY constraint failed''"

definition check_error :: "string \<Rightarrow> kerror" where
  "check_error c = Driver (''CHECK constraint failed: '' @ c)"

section \<open>Inserts\<close>

definition insert_intent :: "intent_row \<Rightarrow> db \<Rightarrow> kerror + db" where
  "insert_intent r d =
    bindR (guardR (IntentID r \<notin> IntentID ` set (AppendIntents d)) (unique_error ''append_intents.append_intent_id'')) (\<lambda>_.
    Inr (d\<lparr>AppendIntents := AppendIntents d @ [r]\<rparr>))"

definition insert_context :: "context_row \<Rightarrow> db \<Rightarrow> kerror + db" where
  "insert_context r d =
    bindR (guardR (CtxID r \<notin> CtxID ` set (Contexts d)) (unique_error ''contexts.context_id'')) (\<lambda>_.
    bindR (guardR (CtxIntent r \<in> IntentID ` set (AppendIntents d)) foreign_key_error) (\<lambda>_.
    Inr (d\<lparr>Contexts := Contexts d @ [r]\<rparr>)))"

definition insert_record :: "record_row \<Rightarrow> db \<Rightarrow> kerror + db" where
  "insert_record r d =
    bindR (guardR (RowID r = RowDigest r) (check_error ''record_id = digest'')) (\<lambda>_.
    bindR (guardR (RowID r \<notin> RowID ` set (Records d)) (unique_error ''records.record_id'')) (\<lambda>_.
    bindR (guardR (RowIntent r \<in> IntentID ` set (AppendIntents d)) foreign_key_error) (\<lambda>_.
    Inr (d\<lparr>Records := Records d @ [r]\<rparr>))))"

definition insert_edge :: "edge_row \<Rightarrow> db \<Rightarrow> kerror + db" where
  "insert_edge r d =
    bindR (guardR (0 \<le> EdgePosition r) (check_error ''parent_position >= 0'')) (\<lambda>_.
    bindR (guardR ((EdgeChild r, EdgePosition r) \<notin> (\<lambda>r. (EdgeChild r, EdgePosition r)) ` set (RecordEdges d))
      (unique_error ''record_edges.child_record_id, record_edges.parent_position'')) (\<lambda>_.
    bindR (guardR (EdgeParent r \<in> RowID ` set (Records d) \<and> EdgeChild r \<in> RowID ` set (Records d)) foreign_key_error) (\<lambda>_.
    Inr (d\<lparr>RecordEdges := RecordEdges d @ [r]\<rparr>))))"

definition insert_path :: "path_row \<Rightarrow> db \<Rightarrow> kerror + db" where
  "insert_path r d =
    bindR (guardR (0 \<le> PathOrdinal r) (check_error ''path_ordinal >= 0'')) (\<lambda>_.
    bindR (guardR ((PathRef r, PathOrdinal r) \<notin> (\<lambda>r. (PathRef r, PathOrdinal r)) ` set (PathEntries d))
      (unique_error ''path_entries.path_ref, path_entries.path_ordinal'')) (\<lambda>_.
    bindR (guardR (PathCommit r \<notin> PathCommit ` set (PathEntries d)) (unique_error ''path_entries.commit_receipt'')) (\<lambda>_.
    bindR (guardR (PathRecord r \<in> RowID ` set (Records d) \<and> PathIntent r \<in> IntentID ` set (AppendIntents d))
      foreign_key_error) (\<lambda>_.
    Inr (d\<lparr>PathEntries := PathEntries d @ [r]\<rparr>)))))"

definition insert_frontier :: "frontier_row \<Rightarrow> db \<Rightarrow> kerror + db" where
  "insert_frontier r d =
    bindR (guardR (0 \<le> FrOrdinal r) (check_error ''through_owner_ordinal >= 0'')) (\<lambda>_.
    bindR (guardR (FrID r \<notin> FrID ` set (Frontiers d)) (unique_error ''frontiers.frontier_id'')) (\<lambda>_.
    bindR (guardR (FrCreatedBy r \<notin> FrCreatedBy ` set (Frontiers d)) (unique_error ''frontiers.created_by_fact_id'')) (\<lambda>_.
    bindR (guardR (FrIntent r \<notin> FrIntent ` set (Frontiers d)) (unique_error ''frontiers.append_intent_id'')) (\<lambda>_.
    bindR (guardR (FrThrough r \<in> RowID ` set (Records d) \<and> FrCreatedBy r \<in> RowID ` set (Records d)
      \<and> FrIntent r \<in> IntentID ` set (AppendIntents d)) foreign_key_error) (\<lambda>_.
    Inr (d\<lparr>Frontiers := Frontiers d @ [r]\<rparr>))))))"

text \<open>The upsert of an owner's next ordinal, and the update of the commit sequence, which
  touches no row when the key is missing.\<close>

definition upsert_ordinal :: "string \<Rightarrow> int \<Rightarrow> db \<Rightarrow> kerror + db" where
  "upsert_ordinal ow n d =
    bindR (guardR (0 \<le> n) (check_error ''next_ordinal >= 0'')) (\<lambda>_.
    Inr (d\<lparr>OwnerOrdinals := AList.update ow n (OwnerOrdinals d)\<rparr>))"

definition update_commit_seq :: "int \<Rightarrow> db \<Rightarrow> db" where
  "update_commit_seq n d = d\<lparr>NextCommitSeq := map_option (\<lambda>_. n) (NextCommitSeq d)\<rparr>"

lemmas insert_defs = insert_intent_def insert_context_def insert_record_def insert_edge_def
  insert_path_def insert_frontier_def upsert_ordinal_def update_commit_seq_def

section \<open>Lookups\<close>

definition find_intent :: "db \<Rightarrow> string \<Rightarrow> intent_row option" where
  "find_intent d i = find (\<lambda>r. IntentID r = i) (AppendIntents d)"

definition find_context :: "db \<Rightarrow> string \<Rightarrow> context_row option" where
  "find_context d i = find (\<lambda>r. CtxID r = i) (Contexts d)"

definition find_record :: "db \<Rightarrow> string \<Rightarrow> record_row option" where
  "find_record d i = find (\<lambda>r. RowID r = i) (Records d)"

definition find_frontier :: "db \<Rightarrow> string \<Rightarrow> frontier_row option" where
  "find_frontier d i = find (\<lambda>r. FrID r = i) (Frontiers d)"

lemmas find_defs = find_intent_def find_context_def find_record_def find_frontier_def

lemma find_append: "find P (xs @ ys) = (case find P xs of None \<Rightarrow> find P ys | Some x \<Rightarrow> Some x)"
  by (induction xs) auto

text \<open>What a table with a primary key promises: an insert extends the rows by one with a fresh
  key, or fails; a lookup is by key.\<close>

locale keyed_table =
  fixes rows :: "'d \<Rightarrow> 'r list" and key :: "'r \<Rightarrow> string"
    and ins :: "'r \<Rightarrow> 'd \<Rightarrow> kerror + 'd" and look :: "'d \<Rightarrow> string \<Rightarrow> 'r option"
  assumes ins_Inr: "ins r d = Inr d' \<Longrightarrow> key r \<notin> key ` set (rows d) \<and> rows d' = rows d @ [r]"
    and look_find: "look d k = find (\<lambda>r. key r = k) (rows d)"
begin

definition keys_ok :: "'d \<Rightarrow> bool" where
  "keys_ok d \<longleftrightarrow> distinct (map key (rows d))"

lemma look_None: "look d k = None \<longleftrightarrow> k \<notin> key ` set (rows d)"
  by (auto simp: look_find find_None_iff)

lemma look_Some: "look d k = Some r \<Longrightarrow> r \<in> set (rows d) \<and> key r = k"
  by (auto simp: look_find find_Some_iff)

lemma look_in: "r \<in> set (rows d) \<Longrightarrow> keys_ok d \<Longrightarrow> look d (key r) = Some r"
proof -
  assume r: "r \<in> set (rows d)" and k: "keys_ok d"
  then obtain r' where r': "look d (key r) = Some r'" using look_None[of d "key r"] by fastforce
  then have "r' \<in> set (rows d)" "key r' = key r" using look_Some by blast+
  with r k have "r' = r" unfolding keys_ok_def by (metis distinct_map inj_onD)
  with r' show ?thesis by simp
qed

lemma keys_ok_ins: "ins r d = Inr d' \<Longrightarrow> keys_ok d \<Longrightarrow> keys_ok d'"
  using ins_Inr[of r d d'] by (simp add: keys_ok_def)

lemma look_inserted:
  assumes "ins r d = Inr d'"
  shows "look d' k = (if k = key r then Some r else look d k)"
proof (cases "k = key r")
  case True
  have "find (\<lambda>s. key s = k) (rows d) = None"
    using ins_Inr[OF assms] True look_None[of d k] by (simp add: look_find)
  then show ?thesis using ins_Inr[OF assms] True by (simp add: look_find find_append)
next
  case False
  then show ?thesis using ins_Inr[OF assms] by (simp add: look_find find_append split: option.splits)
qed

text \<open>Rows are never lost: a lookup that succeeded keeps its answer.\<close>

lemma look_stable: "ins r d = Inr d' \<Longrightarrow> look d k = Some s \<Longrightarrow> look d' k = Some s"
  using look_inserted[of r d d' k] look_None[of d k] ins_Inr[of r d d'] by (auto split: if_splits)

end

interpretation intents: keyed_table AppendIntents IntentID insert_intent find_intent
  by unfold_locales (auto simp: insert_intent_def find_intent_def bindR_eq_Inr)

interpretation ctxs: keyed_table Contexts CtxID insert_context find_context
  by unfold_locales (auto simp: insert_context_def find_context_def bindR_eq_Inr)

interpretation recs: keyed_table Records RowID insert_record find_record
  by unfold_locales (auto simp: insert_record_def find_record_def bindR_eq_Inr)

interpretation cuts: keyed_table Frontiers FrID insert_frontier find_frontier
  by unfold_locales (auto simp: insert_frontier_def find_frontier_def bindR_eq_Inr)

section \<open>Schema\<close>

definition expectedTables :: "string list" where
  "expectedTables =
    [''meta'', ''append_intents'', ''materialization_intents'', ''contexts'', ''owner_ordinals'',
     ''records'', ''record_edges'', ''path_entries'', ''checkpoint_snapshots'', ''frontiers'']"

text \<open>A database file: the tables it has and what they hold.\<close>

record db_file =
  Tables :: "string list"
  Content :: db

definition createSchema :: "db_file \<Rightarrow> db_file" where
  "createSchema f =
    f\<lparr>Tables := Tables f @ filter (\<lambda>t. t \<notin> set (Tables f)) expectedTables,
      Content := (Content f)\<lparr>NextCommitSeq :=
        (case NextCommitSeq (Content f) of None \<Rightarrow> Some 0 | Some n \<Rightarrow> Some n)\<rparr>\<rparr>"

definition validateExistingSchema :: "db_file \<Rightarrow> kerror + unit" where
  "validateExistingSchema f =
    (let missing = filter (\<lambda>t. t \<notin> set (Tables f)) expectedTables in
     if missing \<noteq> [] then Inl (Plain ''not a trace database: missing tables: '' missing) else Inr ())"

text \<open>The store: its database, the attached bus and the blob limit (0 is unset).\<close>

record store =
  Db :: db
  Bus :: "bus option"
  BlobLimit :: int

definition DefaultCheckpointBlobLimit :: int where
  "DefaultCheckpointBlobLimit = 1048576"

definition WithBus :: "bus \<Rightarrow> store \<Rightarrow> store" where
  "WithBus b s = s\<lparr>Bus := Some b\<rparr>"

definition WithCheckpointBlobLimit :: "int \<Rightarrow> store \<Rightarrow> store" where
  "WithCheckpointBlobLimit limit s = s\<lparr>BlobLimit := (if limit \<le> 0 then DefaultCheckpointBlobLimit else limit)\<rparr>"

definition CheckpointBlobLimitOrDefault :: "store \<Rightarrow> int" where
  "CheckpointBlobLimitOrDefault s = (if BlobLimit s > 0 then BlobLimit s else DefaultCheckpointBlobLimit)"

text \<open>The two openers.  What SQLite answers to each statement before the schema step is
  \<open>pragma\<close>: the error text of the first that fails.  The writing one creates what is missing;
  the read-only one leaves the file alone.\<close>

definition NewSQLiteTraceStore :: "kerror option \<Rightarrow> db_file \<Rightarrow> (kerror + store) \<times> db_file" where
  "NewSQLiteTraceStore pragma f =
    (case pragma of
       Some e \<Rightarrow> (Inl e, f)
     | None \<Rightarrow> (let f' = createSchema f in (Inr \<lparr>Db = Content f', Bus = None, BlobLimit = 0\<rparr>, f')))"

definition OpenSQLiteTraceStoreReadOnly :: "kerror option \<Rightarrow> string \<Rightarrow> db_file \<Rightarrow> kerror + store" where
  "OpenSQLiteTraceStoreReadOnly pragma path f =
    (if path = [] \<or> path = '':memory:''
     then Inl (Plain ''read-only open requires an existing database file, not'' [path])
     else case pragma of
       Some e \<Rightarrow> Inl e
     | None \<Rightarrow> bindR (validateExistingSchema f) (\<lambda>_. Inr \<lparr>Db = Content f, Bus = None, BlobLimit = 0\<rparr>))"

lemma createSchema_valid: "validateExistingSchema (createSchema f) = Inr ()"
proof -
  have "filter (\<lambda>t. t \<notin> set (Tables (createSchema f))) expectedTables = []"
    by (auto simp: createSchema_def filter_empty_conv)
  then show ?thesis by (simp add: validateExistingSchema_def)
qed

lemma createSchema_idempotent: "createSchema (createSchema f) = createSchema f"
proof -
  have "filter (\<lambda>t. t \<notin> set (Tables (createSchema f))) expectedTables = []"
    by (auto simp: createSchema_def filter_empty_conv)
  then show ?thesis
    by (simp add: createSchema_def[of "createSchema f"]) (simp add: createSchema_def split: option.splits)
qed

section \<open>Properties\<close>

text \<open>A receipt survives the ledger: decoding the stored text of a receipt gives the receipt
  back, with the ranges of the owners in key order.\<close>

theorem receipts_round_trip:
  assumes "receipt_ok r"
  shows "receiptFromJSON (receiptToJSON r) = Inr (r\<lparr>OwnerRanges := sorted_fields (OwnerRanges r)\<rparr>)"
  using assms by (rule receipt_round_trip)

definition sample_receipt :: AppendReceipt where
  "sample_receipt = \<lparr>ReceiptIntentID = [], FactIDs = [[]], CommitReceipts = [[]],
    OwnerRanges = [([], 3, 4)], CausalEdges = [([], [])], ContextReceipts = []\<rparr>"

theorem receipts_round_trip_witness: "receiptFromJSON (receiptToJSON sample_receipt) = Inr sample_receipt"
proof -
  have "valid_string []" by (rule valid_string_ascii) simp
  then have "receipt_ok sample_receipt" by (simp add: receipt_ok_def sample_receipt_def)
  moreover have "sample_receipt\<lparr>OwnerRanges := sorted_fields (OwnerRanges sample_receipt)\<rparr> = sample_receipt"
    by (simp add: sample_receipt_def sorted_fields_def)
  ultimately show ?thesis using receipts_round_trip[of sample_receipt] by simp
qed

text \<open>The writing opener leaves a file every later read-only open accepts with the same content,
  and running it again changes nothing; the read-only opener accepts only a file that has every
  expected table.\<close>

theorem openers_agree:
  assumes "NewSQLiteTraceStore None f = (Inr s, f')" "p \<noteq> []" "p \<noteq> '':memory:''"
  shows "OpenSQLiteTraceStoreReadOnly None p f' = Inr s \<and> NewSQLiteTraceStore None f' = (Inr s, f')
    \<and> (\<forall>pragma g s''. OpenSQLiteTraceStoreReadOnly pragma p g = Inr s'' \<longrightarrow>
          set expectedTables \<subseteq> set (Tables g) \<and> Db s'' = Content g)"
proof (intro conjI allI impI)
  show "OpenSQLiteTraceStoreReadOnly None p f' = Inr s" "NewSQLiteTraceStore None f' = (Inr s, f')"
    using assms createSchema_valid[of f] createSchema_idempotent[of f]
    by (auto simp: NewSQLiteTraceStore_def OpenSQLiteTraceStoreReadOnly_def Let_def)
next
  fix pragma g s''
  assume "OpenSQLiteTraceStoreReadOnly pragma p g = Inr s''"
  then show "set expectedTables \<subseteq> set (Tables g)" "Db s'' = Content g"
    by (auto simp: OpenSQLiteTraceStoreReadOnly_def validateExistingSchema_def Let_def bindR_eq_Inr filter_empty_conv
        split: if_splits option.splits)
qed

theorem openers_agree_witness:
  "OpenSQLiteTraceStoreReadOnly None ''t.db'' (createSchema \<lparr>Tables = [], Content = empty_db\<rparr>)
     = Inr \<lparr>Db = Content (createSchema \<lparr>Tables = [], Content = empty_db\<rparr>), Bus = None, BlobLimit = 0\<rparr>
   \<and> set expectedTables \<subseteq> set (Tables (createSchema \<lparr>Tables = [], Content = empty_db\<rparr>))"
proof -
  let ?f = "\<lparr>Tables = [], Content = empty_db\<rparr>"
  let ?s = "\<lparr>Db = Content (createSchema ?f), Bus = None, BlobLimit = 0\<rparr>"
  have "NewSQLiteTraceStore None ?f = (Inr ?s, createSchema ?f)" by (simp add: NewSQLiteTraceStore_def Let_def)
  from openers_agree[OF this, of "''t.db''"] show ?thesis by blast
qed

end
