(* ===== verification/Store_Context.thy ===== *)
theory Store_Context
  imports Store_Db
begin

text \<open>
  Retained contexts (\<open>store_context.go\<close>): the context a group resolves to, its id, and its
  row.  The functions come in pairs, one on the transaction and one on the connection, with
  the same text; both read the one database of the model, so the second is the first.  The
  prefix that \<open>fmt.Errorf\<close> with a wrapped error adds is not part of an error here: callers
  look through it.
\<close>

section \<open>Contexts and their ids\<close>

definition defaultContextDraft :: RetainedContext where
  "defaultContextDraft =
    \<lparr>ContextID = [], ActiveBindingRefs = None, CapabilityWitnessRefs = None,
     SemanticEnvironmentRefs = None, VisibilityPolicyRefs = None,
     SubstrateRef = ''sqlite.local.v1'', Containment = ContainContained\<rparr>"

definition contextPayload :: "RetainedContext \<Rightarrow> OperationContext \<Rightarrow> RetainedContext" where
  "contextPayload draft ctx =
    \<lparr>ContextID = [],
     ActiveBindingRefs = Some (elems (ActiveBindingRefs draft)),
     CapabilityWitnessRefs = Some (elems (CapabilityWitnessRefs draft)),
     SemanticEnvironmentRefs =
       deduplicate (Some (elems (SemanticEnvironmentRefs draft) @ [SchemaEnvironmentRef ctx])),
     VisibilityPolicyRefs = Some (elems (VisibilityPolicyRefs draft)),
     SubstrateRef = SubstrateRef draft, Containment = Containment draft\<rparr>"

definition context_document :: "RetainedContext \<Rightarrow> gval" where
  "context_document payload = VMap
    [(''active_binding_refs'', of_strings (ActiveBindingRefs payload)),
     (''capability_witness_refs'', of_strings (CapabilityWitnessRefs payload)),
     (''semantic_environment_refs'', of_strings (SemanticEnvironmentRefs payload)),
     (''visibility_policy_refs'', of_strings (VisibilityPolicyRefs payload)),
     (''substrate_ref'', VString (SubstrateRef payload)),
     (''containment'', VString (Containment payload))]"

definition context_preimage :: "string \<Rightarrow> nat \<Rightarrow> string \<Rightarrow> string" where
  "context_preimage intent index body = intent @ chr 0 # itoa (int index) @ chr 0 # body"

definition contextIDFor :: "golib \<Rightarrow> string \<Rightarrow> nat \<Rightarrow> RetainedContext \<Rightarrow> kerror + string" where
  "contextIDFor lib intent index payload =
    bindR (canonical_json_ascii_bytes lib (context_document payload)) (\<lambda>body.
    Inr (''context:'' @ take 32 (hex (sha256 lib (context_preimage intent index body)))))"

text \<open>\<open>contextEqual\<close> compares the \<open>json.Marshal\<close> texts of the structs.\<close>

definition context_json :: "RetainedContext \<Rightarrow> json" where
  "context_json c = JObj
    [(''ContextID'', JStr (ContextID c)),
     (''ActiveBindingRefs'', stringToJSON (ActiveBindingRefs c)),
     (''CapabilityWitnessRefs'', stringToJSON (CapabilityWitnessRefs c)),
     (''SemanticEnvironmentRefs'', stringToJSON (SemanticEnvironmentRefs c)),
     (''VisibilityPolicyRefs'', stringToJSON (VisibilityPolicyRefs c)),
     (''SubstrateRef'', JStr (SubstrateRef c)),
     (''Containment'', JStr (Containment c))]"

definition contextEqual :: "RetainedContext \<Rightarrow> RetainedContext \<Rightarrow> bool" where
  "contextEqual a b \<longleftrightarrow> print_json go_render (context_json a) = print_json go_render (context_json b)"

text \<open>\<open>contextDraftJSON\<close>: nothing, a reuse reference, or an explicit draft.\<close>

definition contextDraftJSON :: "RetainedContext option \<Rightarrow> gval" where
  "contextDraftJSON rc =
    (let draft = (\<lambda>active cap sem vis sub cont reuse. VMap
          [(''active_binding_refs'', active), (''capability_witness_refs'', cap),
           (''semantic_environment_refs'', sem), (''visibility_policy_refs'', vis),
           (''substrate_ref'', VString sub), (''containment'', VString cont),
           (''reuse_context_id'', reuse)]);
         default = draft (VSlice []) (VSlice []) (VSlice []) (VSlice [])
           (SubstrateRef defaultContextDraft) (Containment defaultContextDraft)
     in case rc of
       None \<Rightarrow> default VNil
     | Some c \<Rightarrow>
        if ContextID c \<noteq> [] \<and> SubstrateRef c = [] then default (VString (ContextID c))
        else draft (of_strings (NonNilStrings (ActiveBindingRefs c)))
          (of_strings (NonNilStrings (CapabilityWitnessRefs c)))
          (of_strings (NonNilStrings (SemanticEnvironmentRefs c)))
          (of_strings (NonNilStrings (VisibilityPolicyRefs c)))
          (SubstrateRef c) (Containment c) VNil)"

section \<open>Rows\<close>

definition context_row_of :: "RetainedContext \<Rightarrow> string \<Rightarrow> context_row" where
  "context_row_of c intent =
    \<lparr>CtxID = ContextID c, CtxActive = stringToJSON (ActiveBindingRefs c),
     CtxCapability = stringToJSON (CapabilityWitnessRefs c),
     CtxSemantic = stringToJSON (SemanticEnvironmentRefs c),
     CtxVisibility = stringToJSON (VisibilityPolicyRefs c),
     CtxSubstrate = SubstrateRef c, CtxContainment = Containment c, CtxIntent = intent\<rparr>"

definition context_of_row :: "context_row \<Rightarrow> RetainedContext" where
  "context_of_row r =
    \<lparr>ContextID = CtxID r, ActiveBindingRefs = jsonToStrings (CtxActive r),
     CapabilityWitnessRefs = jsonToStrings (CtxCapability r),
     SemanticEnvironmentRefs = jsonToStrings (CtxSemantic r),
     VisibilityPolicyRefs = jsonToStrings (CtxVisibility r),
     SubstrateRef = CtxSubstrate r, Containment = CtxContainment r\<rparr>"

definition readContextTx :: "db \<Rightarrow> string \<Rightarrow> kerror + RetainedContext" where
  "readContextTx d i =
    (case find_context d i of
       None \<Rightarrow> Inl (TraceStoreError ''unknown context id: '' [i])
     | Some r \<Rightarrow> Inr (context_of_row r))"

definition readContext :: "db \<Rightarrow> string \<Rightarrow> kerror + RetainedContext" where
  "readContext = readContextTx"

definition contextExistsTx :: "db \<Rightarrow> string \<Rightarrow> bool" where
  "contextExistsTx d i \<longleftrightarrow> find_context d i \<noteq> None"

text \<open>Without a transaction; the error of the query is dropped, so a failing one reads as \<open>False\<close>.\<close>

definition contextExists :: "kerror option \<Rightarrow> db \<Rightarrow> string \<Rightarrow> bool" where
  "contextExists query d i \<longleftrightarrow> query = None \<and> contextExistsTx d i"

definition insertContextTx :: "RetainedContext \<Rightarrow> string \<Rightarrow> db \<Rightarrow> kerror + db" where
  "insertContextTx c intent d = insert_context (context_row_of c intent) d"

definition insertContext :: "RetainedContext \<Rightarrow> string \<Rightarrow> db \<Rightarrow> kerror + db" where
  "insertContext = insertContextTx"

section \<open>Resolution\<close>

definition resolve_draft ::
    "golib \<Rightarrow> db \<Rightarrow> string \<Rightarrow> nat \<Rightarrow> OperationContext \<Rightarrow> RetainedContext \<Rightarrow> kerror + RetainedContext" where
  "resolve_draft lib d intent index ctx draft =
    (let payload = contextPayload draft ctx in
     bindR (contextIDFor lib intent index payload) (\<lambda>i.
     let newCtx = payload\<lparr>ContextID := i\<rparr> in
     case readContextTx d i of
       Inr existing \<Rightarrow>
         if \<not> contextEqual existing newCtx
         then Inl (TraceStoreError ''context id already names a different context'' [i])
         else Inr existing
     | Inl _ \<Rightarrow> Inr newCtx))"

definition resolveGroupContextTx ::
    "golib \<Rightarrow> db \<Rightarrow> string \<Rightarrow> nat \<Rightarrow> AppendGroup \<Rightarrow> OperationContext \<Rightarrow> kerror + RetainedContext" where
  "resolveGroupContextTx lib d intent index grp ctx =
    (case GroupContext grp of
       None \<Rightarrow> resolve_draft lib d intent index ctx defaultContextDraft
     | Some c \<Rightarrow>
         if ContextID c \<noteq> [] \<and> SubstrateRef c = [] then readContextTx d (ContextID c)
         else resolve_draft lib d intent index ctx c)"

definition resolveGroupContext ::
    "golib \<Rightarrow> db \<Rightarrow> string \<Rightarrow> nat \<Rightarrow> AppendGroup \<Rightarrow> OperationContext \<Rightarrow> kerror + RetainedContext" where
  "resolveGroupContext = resolveGroupContextTx"

section \<open>Facts\<close>

definition context_strings_ok :: "RetainedContext \<Rightarrow> bool" where
  "context_strings_ok c \<longleftrightarrow> strings_ok (ActiveBindingRefs c) \<and> strings_ok (CapabilityWitnessRefs c)
    \<and> strings_ok (SemanticEnvironmentRefs c) \<and> strings_ok (VisibilityPolicyRefs c)"

lemma context_round_trip: "context_strings_ok c \<Longrightarrow> context_of_row (context_row_of c i) = c"
  by (simp add: context_strings_ok_def context_of_row_def context_row_of_def)

lemma canonical_strings_ok: "canonical_tree lib (of_strings ss) = Inr j \<Longrightarrow> strings_ok ss"
proof -
  have "canonical_items lib (map VString xs) = Inr js \<Longrightarrow> list_all valid_string xs" for xs js
    by (induction xs arbitrary: js) (auto simp: bindR_eq_Inr check_string_def split: if_splits)
  then show "canonical_tree lib (of_strings ss) = Inr j \<Longrightarrow> strings_ok ss"
    by (auto simp: of_strings_def bindR_eq_Inr split: option.splits)
qed

lemma canonical_fields_in:
  "canonical_fields lib kvs = Inr js \<Longrightarrow> (k, v) \<in> set kvs \<Longrightarrow> valid_string k \<and> (\<exists>j. canonical_tree lib v = Inr j)"
  by (induction kvs arbitrary: js) (auto simp: bindR_eq_Inr check_string_def split: if_splits)

lemma canonical_map_in:
  "canonical_tree lib (VMap kvs) = Inr j \<Longrightarrow> (k, v) \<in> set kvs \<Longrightarrow> valid_string k \<and> (\<exists>j. canonical_tree lib v = Inr j)"
  using canonical_fields_in[of lib "sorted_fields kvs" _ k v]
  by (auto simp: bindR_eq_Inr sorted_fields_def)

text \<open>A context that received an id holds valid strings only, so its row reads back as it.\<close>

lemma contextIDFor_strings: "contextIDFor lib i n p = Inr c \<Longrightarrow> context_strings_ok p"
proof -
  assume "contextIDFor lib i n p = Inr c"
  then obtain j where "canonical_tree lib (context_document p) = Inr j"
    by (auto simp: contextIDFor_def canonical_json_ascii_bytes_def write_value_print bindR_eq_Inr)
  then have v: "\<exists>j. canonical_tree lib v = Inr j"
    if "v \<in> {of_strings (ActiveBindingRefs p), of_strings (CapabilityWitnessRefs p),
      of_strings (SemanticEnvironmentRefs p), of_strings (VisibilityPolicyRefs p)}" for v
    using that canonical_map_in unfolding context_document_def by fastforce
  have "strings_ok ss" if "of_strings ss \<in> {of_strings (ActiveBindingRefs p), of_strings (CapabilityWitnessRefs p),
      of_strings (SemanticEnvironmentRefs p), of_strings (VisibilityPolicyRefs p)}" for ss
    using v[OF that] canonical_strings_ok by blast
  then show ?thesis unfolding context_strings_ok_def by blast
qed

lemma contextIDFor_valid: "contextIDFor lib i n p = Inr c \<Longrightarrow> valid_string c"
proof -
  assume "contextIDFor lib i n p = Inr c"
  then obtain s where c: "c = ''context:'' @ take 32 (hex s)" by (auto simp: contextIDFor_def bindR_eq_Inr)
  have "list_all (\<lambda>c. byte c < 128) (hex s)" by (rule hex_ascii)
  then have "list_all (\<lambda>c. byte c < 128) (take 32 (hex s))"
    by (metis append_take_drop_id list_all_append)
  then show ?thesis unfolding c by (intro valid_string_ascii) (simp add: byte_def)
qed

text \<open>A resolved context is a retained one, or it is fresh and holds valid strings.\<close>

lemma resolve_draft_cases:
  assumes "resolve_draft lib d intent n ctx draft = Inr c"
  shows "find_context d (ContextID c) = None \<and> context_strings_ok c \<and> valid_string (ContextID c)
    \<or> readContextTx d (ContextID c) = Inr c"
proof -
  obtain i where i: "contextIDFor lib intent n (contextPayload draft ctx) = Inr i"
    using assms by (auto simp: resolve_draft_def Let_def bindR_eq_Inr)
  show ?thesis
  proof (cases "find_context d i")
    case None
    then have "c = (contextPayload draft ctx)\<lparr>ContextID := i\<rparr>"
      using assms i by (simp add: resolve_draft_def Let_def readContextTx_def)
    with None i contextIDFor_strings[OF i] contextIDFor_valid[OF i] show ?thesis
      by (simp add: context_strings_ok_def)
  next
    case (Some r)
    then have "c = context_of_row r" and "CtxID r = i"
      using assms i ctxs.look_Some[of d i r]
      by (auto simp: resolve_draft_def Let_def readContextTx_def split: if_splits)
    with Some show ?thesis by (simp add: readContextTx_def context_of_row_def)
  qed
qed

lemma readContextTx_id: "readContextTx d i = Inr c \<Longrightarrow> ContextID c = i"
  by (auto simp: readContextTx_def context_of_row_def split: option.splits dest: ctxs.look_Some)

lemma resolveGroupContextTx_cases:
  assumes "resolveGroupContextTx lib d intent n g ctx = Inr c"
  shows "find_context d (ContextID c) = None \<and> context_strings_ok c \<and> valid_string (ContextID c)
    \<or> readContextTx d (ContextID c) = Inr c"
proof (cases "\<exists>i. readContextTx d i = Inr c")
  case True
  then show ?thesis using readContextTx_id by blast
next
  case False
  then have "\<exists>draft. resolve_draft lib d intent n ctx draft = Inr c"
    using assms by (auto simp: resolveGroupContextTx_def split: option.splits if_splits)
  then show ?thesis using resolve_draft_cases by blast
qed

end
