(* ===== verification/Store_Record.thy ===== *)
theory Store_Record
  imports Store_Context
begin

text \<open>
  Records and their paths (\<open>store_record.go\<close>): the row of a record, the scan of a row, the
  owner ordinals and the commit sequence, and the insertion of a fact, which shares a record
  already retained under the same id.  \<open>recordContentMatches\<close> of \<open>store_witness.go\<close> is here
  because the insertion calls it.
\<close>

section \<open>Reading\<close>

text \<open>\<open>scanRecord\<close>: the columns of \<open>records\<close>, then owner, ordinal, context and label.\<close>

definition scanRecord :: "(record_row \<times> string \<times> int \<times> string \<times> string) option \<Rightarrow> kerror + Record" where
  "scanRecord row =
    (case row of
       None \<Rightarrow> Inl (UnknownFactError ''unknown fact'')
     | Some (r, owner, ordinal, ctx, label) \<Rightarrow>
         bindR (bodyFromJSON (RowBody r)) (\<lambda>body.
         Inr \<lparr>Envelope = \<lparr>RecordID = RowID r, Digest = RowDigest r, SchemaRef = RowSchema r,
                 Mode = RowMode r, WitnessRef = RowWitness r, CausedByIDs = jsonToStrings (RowCausedBy r)\<rparr>,
              Body = body,
              View = Some \<lparr>ViewOwner = owner, ViewOrdinal = ordinal, ViewContextRef = ctx, ViewKindLabel = label\<rparr>\<rparr>))"

text \<open>The join of a path entry with its record.\<close>

definition join_entry :: "db \<Rightarrow> path_row \<Rightarrow> (record_row \<times> string \<times> int \<times> string \<times> string) option" where
  "join_entry d p =
    (case find_record d (PathRecord p) of
       None \<Rightarrow> None
     | Some r \<Rightarrow> Some (r, PathRef p, PathOrdinal p, PathContext p, PathKind p))"

definition entry_key :: "path_row \<Rightarrow> string \<times> int" where
  "entry_key p = (PathRef p, PathOrdinal p)"

text \<open>\<open>ORDER BY path_ref ASC, path_ordinal ASC LIMIT 1\<close>.\<close>

definition first_entry :: "db \<Rightarrow> string \<Rightarrow> path_row option" where
  "first_entry d i =
    (case sort_key entry_key (filter (\<lambda>p. PathRecord p = i) (PathEntries d)) of
       [] \<Rightarrow> None | p # ps \<Rightarrow> Some p)"

definition readFactTx :: "db \<Rightarrow> string \<Rightarrow> kerror + Record" where
  "readFactTx d i = scanRecord (case first_entry d i of None \<Rightarrow> None | Some p \<Rightarrow> join_entry d p)"

definition readRecordTx :: "db \<Rightarrow> string \<Rightarrow> kerror + Record" where
  "readRecordTx d i =
    scanRecord (case find_record d i of None \<Rightarrow> None | Some r \<Rightarrow> Some (r, [], -1, [], []))"

definition readRecord :: "db \<Rightarrow> string \<Rightarrow> kerror + Record" where
  "readRecord = readRecordTx"

definition factExistsTx :: "db \<Rightarrow> string \<Rightarrow> bool" where
  "factExistsTx d i \<longleftrightarrow> find_record d i \<noteq> None"

definition factExists :: "db \<Rightarrow> string \<Rightarrow> bool" where
  "factExists = factExistsTx"

definition nextOwnerOrdinalTx :: "db \<Rightarrow> string \<Rightarrow> int" where
  "nextOwnerOrdinalTx d owner = (case map_of (OwnerOrdinals d) owner of None \<Rightarrow> 0 | Some n \<Rightarrow> n)"

definition nextOwnerOrdinal :: "db \<Rightarrow> string \<Rightarrow> int" where
  "nextOwnerOrdinal = nextOwnerOrdinalTx"

definition nextCommitSeqTx :: "db \<Rightarrow> kerror + int" where
  "nextCommitSeqTx d =
    (case NextCommitSeq d of None \<Rightarrow> Inl (Driver ''sql: no rows in result set'') | Some n \<Rightarrow> Inr n)"

definition nextCommitSeq_store :: "db \<Rightarrow> kerror + int" where
  "nextCommitSeq_store = nextCommitSeqTx"

definition factIDs :: "Record list \<Rightarrow> string list" where
  "factIDs facts = map (\<lambda>f. RecordID (Envelope f)) facts"

definition groupOwner :: "AppendGroup \<Rightarrow> string" where
  "groupOwner g = TraceOwnerID g"

section \<open>Comparing content\<close>

definition content_value :: "Record \<Rightarrow> gval" where
  "content_value r = VMap
    [(''schema_ref'', VString (SchemaRef (Envelope r))),
     (''mode'', VString (Mode (Envelope r))),
     (''witness_ref'', VString (WitnessRef (Envelope r))),
     (''caused_by'', of_strings (CausedByIDs (Envelope r))),
     (''body'', of_gmap (Body r))]"

text \<open>A marshalling error is dropped, which leaves the empty text.\<close>

definition content_text :: "Record \<Rightarrow> string" where
  "content_text r = (case json_text (content_value r) of Inr s \<Rightarrow> s | Inl _ \<Rightarrow> [])"

definition recordContentMatches :: "Record \<Rightarrow> Record \<Rightarrow> bool" where
  "recordContentMatches a b \<longleftrightarrow> content_text a = content_text b"

section \<open>Writing\<close>

definition record_row_of :: "Record \<Rightarrow> string \<Rightarrow> record_row" where
  "record_row_of rec intent =
    \<lparr>RowID = RecordID (Envelope rec), RowDigest = Digest (Envelope rec),
     RowSchema = SchemaRef (Envelope rec), RowMode = Mode (Envelope rec),
     RowWitness = WitnessRef (Envelope rec), RowCausedBy = stringToJSON (CausedByIDs (Envelope rec)),
     RowBody = bodyToJSON (Body rec), RowIntent = intent\<rparr>"

definition insert_edges :: "string \<Rightarrow> string list \<Rightarrow> db \<Rightarrow> kerror + db" where
  "insert_edges child parents d =
    foldR (\<lambda>d (i, p). insert_edge \<lparr>EdgeParent = p, EdgeChild = child, EdgePosition = int i\<rparr> d)
      d (enumerate 0 parents)"

definition insertRecordIfMissingTx :: "Record \<Rightarrow> string \<Rightarrow> db \<Rightarrow> kerror + db" where
  "insertRecordIfMissingTx rec intent d =
    (let i = RecordID (Envelope rec) in
     if i \<noteq> Digest (Envelope rec) then Inl (TraceStoreError ''record_id must equal digest'' [])
     else if factExistsTx d i then
       bindR (readRecordTx d i) (\<lambda>existing.
       if \<not> recordContentMatches existing rec
       then Inl (TraceStoreError ''record id already names different content'' [i])
       else Inr d)
     else
       bindR (insert_record (record_row_of rec intent) d)
         (insert_edges i (elems (CausedByIDs (Envelope rec)))))"

definition insertRecordIfMissing :: "Record \<Rightarrow> string \<Rightarrow> db \<Rightarrow> kerror + db" where
  "insertRecordIfMissing = insertRecordIfMissingTx"

definition insertFactRowTx :: "Record \<Rightarrow> string \<Rightarrow> string \<Rightarrow> db \<Rightarrow> kerror + db" where
  "insertFactRowTx rec commitReceipt intent d =
    (case View rec of
       None \<Rightarrow> Inl (TraceStoreError ''path append requires record view metadata'' [])
     | Some view \<Rightarrow>
         bindR (insertRecordIfMissingTx rec intent d)
           (insert_path \<lparr>PathRef = ViewOwner view, PathOrdinal = ViewOrdinal view,
              PathRecord = RecordID (Envelope rec), PathContext = ViewContextRef view,
              PathKind = ViewKindLabel view, PathIntent = intent, PathCommit = commitReceipt\<rparr>))"

definition insertFactRow :: "Record \<Rightarrow> string \<Rightarrow> string \<Rightarrow> db \<Rightarrow> kerror + db" where
  "insertFactRow = insertFactRowTx"

section \<open>What a stored record reads back as\<close>

lemma first_entry_cases:
  "first_entry d i = None \<longleftrightarrow> i \<notin> PathRecord ` set (PathEntries d)"
  "first_entry d i = Some p \<Longrightarrow> p \<in> set (PathEntries d) \<and> PathRecord p = i
     \<and> (\<forall>q\<in>set (PathEntries d). PathRecord q = i \<longrightarrow> entry_key p \<le> entry_key q)"
proof -
  let ?ps = "sort_key entry_key (filter (\<lambda>p. PathRecord p = i) (PathEntries d))"
  have m: "set ?ps = {p \<in> set (PathEntries d). PathRecord p = i}" by simp
  have s: "sorted (map entry_key ?ps)" by simp
  show "first_entry d i = None \<longleftrightarrow> i \<notin> PathRecord ` set (PathEntries d)"
    using m by (cases ?ps) (auto simp: first_entry_def)
  assume "first_entry d i = Some p"
  then obtain ps where ps: "?ps = p # ps" by (auto simp: first_entry_def split: list.splits)
  then have "p \<in> set (PathEntries d) \<and> PathRecord p = i" using m by (metis (mono_tags) list.set_intros(1) mem_Collect_eq)
  moreover have "entry_key p \<le> entry_key q" if "q \<in> set (PathEntries d)" "PathRecord q = i" for q
  proof -
    have "q \<in> set (p # ps)" using that m ps by (metis (mono_tags) mem_Collect_eq)
    with s ps show ?thesis by auto
  qed
  ultimately show "p \<in> set (PathEntries d) \<and> PathRecord p = i
     \<and> (\<forall>q\<in>set (PathEntries d). PathRecord q = i \<longrightarrow> entry_key p \<le> entry_key q)" by blast
qed

lemma bodyFromJSON_marshal:
  assumes "json_marshal (of_gmap m) = Inr j"
  shows "\<exists>b. bodyFromJSON (Some j) = Inr b \<and> of_gmap b = (if j = JNull then VNilMap else json_decode j)"
proof (cases m)
  case None
  with assms show ?thesis by (simp add: of_gmap_def bodyFromJSON_def)
next
  case (Some kvs)
  then obtain js where "j = JObj js" using assms by (auto simp: of_gmap_def bindR_eq_Inr)
  then show ?thesis by (simp add: bodyFromJSON_def of_gmap_def)
qed

lemma storable_marshal:
  "storable v \<Longrightarrow> json_marshal v = Inr j \<Longrightarrow> json_marshal (json_decode j) = Inr j"
  "list_all storable xs \<Longrightarrow> marshal_items xs = Inr js \<Longrightarrow> marshal_items (map json_decode js) = Inr js"
  "list_all (\<lambda>(k, v). valid_string k \<and> storable v) kvs \<Longrightarrow> marshal_fields kvs = Inr kjs \<Longrightarrow>
     marshal_fields (map decode_field kjs) = Inr kjs"
proof (induction v and xs and kvs arbitrary: j and js and kjs
    rule: json_marshal_marshal_items_marshal_fields.induct)
  case (9 kvs)
  then obtain kjs where m: "marshal_fields (sorted_fields kvs) = Inr kjs" "j = JObj kjs"
    by (auto simp: bindR_eq_Inr)
  have ok: "list_all (\<lambda>(k, v). valid_string k \<and> storable v) (sorted_fields kvs)"
    using 9(2) by (simp add: sorted_fields_def list_all_iff)
  have k: "map fst kjs = map fst (sorted_fields kvs)" by (rule marshal_fields_keys[OF m(1)])
  have "valid_string x" if "x \<in> set (map fst kjs)" for x
    using that ok unfolding k by (auto simp: list_all_iff)
  then have "map fst (map decode_field kjs) = map fst kjs"
    by (auto simp: decode_field_def to_valid_id)
  then have "sorted_fields (map decode_field kjs) = map decode_field kjs"
    by (intro sorted_fields_sorted) (simp add: k sorted_fields_def)
  with 9(1)[OF ok m(1)] m(2) show ?case by (simp add: json_decode_obj del: json_decode.simps(6))
next
  case (3 s)
  then show ?case by (auto split: if_splits simp: valid_json_number_def number_int_part_def)
next
  case (6 i)
  then show ?case using itoa_valid_number by auto
qed (auto simp: bindR_eq_Inr to_valid_id decode_field_def split: if_splits)

end
