(* ===== verification/Store_Witness.thy ===== *)
theory Store_Witness
  imports Store_Record
begin

text \<open>
  Witnesses (\<open>store_witness.go\<close>): the plan of the root witness and of a group's ordinary
  witness, their insertion on the path \<open>kernel:witness\<close>, and the closure a read computes over
  witness references.  Following a chain ends: a reference is visited once, and every one
  visited is a retained record or already in the support, which are finitely many.
\<close>

section \<open>Plans\<close>

definition witnessTraceOwnerID :: string where
  "witnessTraceOwnerID = ''kernel:witness''"

record witnessPlan =
  planID :: string
  planSchema :: string
  planKind :: string
  planBody :: gmap
  planWitness :: string

definition ordinary_body :: "RetainedContext \<Rightarrow> OperationContext \<Rightarrow> gmap" where
  "ordinary_body ctx opCtx = Some
    [(''actor_ref'', VString (ActorRef opCtx)),
     (''authority_refs'', of_strings (NonNilStrings (CapabilityWitnessRefs ctx))),
     (''active_binding_refs'', of_strings (NonNilStrings (ActiveBindingRefs ctx))),
     (''semantic_environment_refs'', of_strings (NonNilStrings (SemanticEnvironmentRefs ctx))),
     (''visibility_policy_refs'', of_strings (NonNilStrings (VisibilityPolicyRefs ctx))),
     (''provenance_policy_refs'', VSlice []),
     (''substrate_ref'', VString (SubstrateRef ctx)),
     (''containment'', VString (Containment ctx))]"

definition ordinaryWitnessPlan :: "golib \<Rightarrow> RetainedContext \<Rightarrow> OperationContext \<Rightarrow> kerror + witnessPlan" where
  "ordinaryWitnessPlan lib ctx opCtx =
    (let body = ordinary_body ctx opCtx; rootID = RootWitnessRecordIDMust lib in
     bindR (ValidateWitnessBody WitnessSchemaRef body) (\<lambda>_.
     bindR (RecordDigest lib WitnessSchemaRef Capture body [] rootID) (\<lambda>recordID.
     Inr \<lparr>planID = recordID, planSchema = WitnessSchemaRef, planKind = ''witness'',
          planBody = body, planWitness = rootID\<rparr>)))"

definition rootWitnessPlan :: "golib \<Rightarrow> witnessPlan" where
  "rootWitnessPlan lib =
    \<lparr>planID = RootWitnessRecordIDMust lib, planSchema = RootWitnessSchemaRef,
     planKind = ''witness_root'', planBody = RootWitnessBody, planWitness = RootWitnessRef\<rparr>"

definition witnessFactMatchesPlan :: "Record \<Rightarrow> witnessPlan \<Rightarrow> bool" where
  "witnessFactMatchesPlan w plan \<longleftrightarrow>
    SchemaRef (Envelope w) = planSchema plan \<and> Mode (Envelope w) = Capture
    \<and> WitnessRef (Envelope w) = planWitness plan"

definition witness_fact :: "witnessPlan \<Rightarrow> int \<Rightarrow> Record" where
  "witness_fact plan ordinal =
    \<lparr>Envelope = \<lparr>RecordID = planID plan, Digest = planID plan, SchemaRef = planSchema plan,
        Mode = Capture, WitnessRef = planWitness plan, CausedByIDs = None\<rparr>,
     Body = CopyMap (planBody plan),
     View = Some \<lparr>ViewOwner = witnessTraceOwnerID, ViewOrdinal = ordinal, ViewContextRef = [],
        ViewKindLabel = planKind plan\<rparr>\<rparr>"

definition insertWitnessRecordIfMissingTx :: "witnessPlan \<Rightarrow> string \<Rightarrow> db \<Rightarrow> kerror + db" where
  "insertWitnessRecordIfMissingTx plan intent d =
    (if factExistsTx d (planID plan) then
       bindR (readFactTx d (planID plan)) (\<lambda>existing.
       if \<not> witnessFactMatchesPlan existing plan
       then Inl (TraceStoreError ''witness record id already names a different witness'' [planID plan])
       else Inr d)
     else
       (let ordinal = nextOwnerOrdinalTx d witnessTraceOwnerID in
        bindR (insertFactRowTx (witness_fact plan ordinal) (''witness:'' @ planID plan) intent d)
          (upsert_ordinal witnessTraceOwnerID (ordinal + 1))))"

definition insertWitnessRecordIfMissing :: "witnessPlan \<Rightarrow> string \<Rightarrow> db \<Rightarrow> kerror + db" where
  "insertWitnessRecordIfMissing = insertWitnessRecordIfMissingTx"

definition witnessAnchor :: "Record \<Rightarrow> WitnessAnchor" where
  "witnessAnchor w =
    \<lparr>WitnessAnchorRef = RecordID (Envelope w),
     WitnessAnchorShape = Some [(''schema_ref'', VString (SchemaRef (Envelope w))),
                                (''witness_ref'', VString (WitnessRef (Envelope w)))],
     WitnessAnchorHidden = ''hidden_by_visibility''\<rparr>"

section \<open>The support of a read\<close>

record witnessSupport =
  byID :: "(string \<times> Record) list"
  order :: "string list"

definition newWitnessSupport :: witnessSupport where
  "newWitnessSupport = \<lparr>byID = [], order = []\<rparr>"

definition support_put :: "string \<Rightarrow> Record \<Rightarrow> witnessSupport \<Rightarrow> witnessSupport" where
  "support_put i rec w =
    \<lparr>byID = AList.update i rec (byID w),
     order = (if map_of (byID w) i = None then order w @ [i] else order w)\<rparr>"

definition support_add :: "Record \<Rightarrow> witnessSupport \<Rightarrow> witnessSupport" where
  "support_add rec w = support_put (RecordID (Envelope rec)) rec w"

definition support_get :: "witnessSupport \<Rightarrow> string \<Rightarrow> Record option" where
  "support_get w i = map_of (byID w) i"

definition support_records :: "witnessSupport \<Rightarrow> Record list" where
  "support_records w = List.map_filter (support_get w) (order w)"

definition support_ok :: "witnessSupport \<Rightarrow> bool" where
  "support_ok w \<longleftrightarrow> distinct (order w) \<and> set (order w) = fst ` set (byID w)"

interpretation support: ordered_map newWitnessSupport support_put support_get order support_ok
proof unfold_locales
  fix m k v
  show "support_ok (support_put k v m)" if "support_ok m"
    using that by (auto simp: support_ok_def support_put_def dom_update map_of_eq_None_iff)
  show "support_get m k \<noteq> None \<longleftrightarrow> k \<in> set (order m)" if "support_ok m"
    using that by (simp add: support_ok_def support_get_def map_of_eq_None_iff)
qed (auto simp: support_ok_def newWitnessSupport_def support_put_def support_get_def)

section \<open>Following a chain to the root\<close>

definition is_witness_schema :: "string \<Rightarrow> bool" where
  "is_witness_schema s \<longleftrightarrow> s = RootWitnessSchemaRef \<or> s = WitnessSchemaRef"

text \<open>The witness of a reference: from the support, or read and added to it.\<close>

definition load_witness :: "db \<Rightarrow> string \<Rightarrow> witnessSupport \<Rightarrow> kerror + Record \<times> witnessSupport" where
  "load_witness d ref support =
    (case support_get support ref of
       Some w \<Rightarrow> Inr (w, support)
     | None \<Rightarrow>
        (case readFactTx d ref of
           Inl _ \<Rightarrow> Inl (TraceStoreError ''witness ref does not resolve: '' [ref])
         | Inr w \<Rightarrow>
             if \<not> is_witness_schema (SchemaRef (Envelope w))
             then Inl (TraceStoreError ''witness_ref does not resolve to a witness record: '' [ref])
             else Inr (w, support_add w support)))"

lemma readFactTx_Inr:
  assumes "readFactTx d i = Inr r"
  obtains p row b where "first_entry d i = Some p" "find_record d i = Some row" "bodyFromJSON (RowBody row) = Inr b"
    "r = \<lparr>Envelope = \<lparr>RecordID = i, Digest = RowDigest row, SchemaRef = RowSchema row, Mode = RowMode row,
           WitnessRef = RowWitness row, CausedByIDs = jsonToStrings (RowCausedBy row)\<rparr>,
         Body = b, View = Some \<lparr>ViewOwner = PathRef p, ViewOrdinal = PathOrdinal p,
           ViewContextRef = PathContext p, ViewKindLabel = PathKind p\<rparr>\<rparr>"
proof -
  obtain p where p: "first_entry d i = Some p"
    using assms by (auto simp: readFactTx_def scanRecord_def split: option.splits)
  have pi: "PathRecord p = i" using first_entry_cases(2)[OF p] by simp
  obtain row where row: "find_record d i = Some row"
    using assms p pi by (auto simp: readFactTx_def scanRecord_def join_entry_def split: option.splits)
  then have "RowID row = i" using recs.look_Some by blast
  with that p row pi assms show ?thesis
    by (auto simp: readFactTx_def scanRecord_def join_entry_def bindR_eq_Inr)
qed

lemma readFactTx_id:
  assumes "readFactTx d i = Inr r"
  shows "RecordID (Envelope r) = i" "i \<in> RowID ` set (Records d)"
  using assms by (auto elim!: readFactTx_Inr dest!: recs.look_Some)

lemma load_witness_cases:
  assumes "load_witness d ref support = Inr (w, support')"
  shows "support_get support ref = Some w \<and> support' = support
    \<or> support_get support ref = None \<and> readFactTx d ref = Inr w \<and> is_witness_schema (SchemaRef (Envelope w))
      \<and> support' = support_put ref w support"
  using assms readFactTx_id(1)[of d ref w]
  by (auto simp: load_witness_def support_add_def split: option.splits sum.splits if_splits)

lemma load_witness_universe:
  assumes "load_witness d ref support = Inr (w, support')"
  shows "ref \<in> RowID ` set (Records d) \<union> fst ` set (byID support)"
    and "RowID ` set (Records d) \<union> fst ` set (byID support')
      = RowID ` set (Records d) \<union> fst ` set (byID support)"
proof -
  have "support_get support ref = Some x \<Longrightarrow> ref \<in> fst ` set (byID support)" for x
    unfolding support_get_def by (metis map_of_eq_None_iff option.distinct(1))
  with load_witness_cases[OF assms] show "ref \<in> RowID ` set (Records d) \<union> fst ` set (byID support)"
    using readFactTx_id(2)[of d ref w] by auto
  have "fst ` set (byID (support_put ref w support)) = insert ref (fst ` set (byID support))"
    by (simp add: support_put_def dom_update)
  with load_witness_cases[OF assms] show "RowID ` set (Records d) \<union> fst ` set (byID support')
      = RowID ` set (Records d) \<union> fst ` set (byID support)"
    using readFactTx_id(2)[of d ref w] by auto
qed

function chain_loop :: "db \<Rightarrow> string \<Rightarrow> string set \<Rightarrow> witnessSupport \<Rightarrow> string set
    \<Rightarrow> kerror + witnessSupport \<times> string set" where
  "chain_loop d ref seen support validated =
    (if ref \<in> validated then Inr (support, validated)
     else if ref \<in> seen then Inl (TraceStoreError ''witness chain cycle before root witness: '' [ref])
     else
       (case load_witness d ref support of
          Inl e \<Rightarrow> Inl e
        | Inr (w, support') \<Rightarrow>
           if \<not> is_witness_schema (SchemaRef (Envelope w))
           then Inl (TraceStoreError ''witness_ref does not resolve to a witness record: '' [ref])
           else if SchemaRef (Envelope w) = RootWitnessSchemaRef then
             (if WitnessRef (Envelope w) \<noteq> RootWitnessRef
              then Inl (TraceStoreError ''root witness record must use the empty witness sentinel'' [])
              else Inr (support', insert ref seen \<union> validated))
           else if WitnessRef (Envelope w) = []
           then Inl (TraceStoreError ''non-root witness has empty witness_ref: '' [ref])
           else chain_loop d (WitnessRef (Envelope w)) (insert ref seen) support' validated))"
  by pat_completeness auto
termination
proof (relation "measure (\<lambda>(d, ref, seen, support, validated).
    card ((RowID ` set (Records d) \<union> fst ` set (byID support)) - seen))", goal_cases)
  case (2 d ref seen support validated ws w support')
  then have l: "load_witness d ref support = Inr (w, support')" by simp
  have "ref \<in> RowID ` set (Records d) \<union> fst ` set (byID support)" using load_witness_universe(1)[OF l] .
  moreover have "ref \<notin> seen" using 2 by simp
  ultimately have "RowID ` set (Records d) \<union> fst ` set (byID support) - insert ref seen
      \<subset> RowID ` set (Records d) \<union> fst ` set (byID support) - seen" by blast
  then have "card (RowID ` set (Records d) \<union> fst ` set (byID support) - insert ref seen)
      < card (RowID ` set (Records d) \<union> fst ` set (byID support) - seen)"
    by (intro psubset_card_mono) simp_all
  then show ?case unfolding load_witness_universe(2)[OF l, symmetric] by (simp add: load_witness_universe(2)[OF l])
qed simp

declare chain_loop.simps [simp del]

definition validateWitnessChain :: "db \<Rightarrow> string \<Rightarrow> witnessSupport \<Rightarrow> string set
    \<Rightarrow> kerror + witnessSupport \<times> string set" where
  "validateWitnessChain d startRef support validated = chain_loop d startRef {} support validated"

definition witnessSupportClosure :: "db \<Rightarrow> Record list \<Rightarrow> kerror + Record list" where
  "witnessSupportClosure d records =
    (case find (\<lambda>r. WitnessRef (Envelope r) = [] \<and> SchemaRef (Envelope r) \<noteq> RootWitnessSchemaRef) records of
       Some r \<Rightarrow> Inl (TraceStoreError ''non-root record has empty witness_ref: '' [RecordID (Envelope r)])
     | None \<Rightarrow>
        bindR (foldR (\<lambda>(support, validated) r.
            if WitnessRef (Envelope r) \<noteq> [] then validateWitnessChain d (WitnessRef (Envelope r)) support validated
            else Inr (support, validated))
          (newWitnessSupport, {}) records)
        (\<lambda>(support, _). Inr (support_records support)))"


section \<open>The support is closed to the root\<close>

text \<open>The specification: following witness references through \<open>S\<close> ends at a root witness,
  which carries the empty sentinel.\<close>

inductive to_root :: "(string \<rightharpoonup> Record) \<Rightarrow> string \<Rightarrow> bool" where
  at_root: "S ref = Some w \<Longrightarrow> SchemaRef (Envelope w) = RootWitnessSchemaRef \<Longrightarrow>
    WitnessRef (Envelope w) = RootWitnessRef \<Longrightarrow> to_root S ref"
| via: "S ref = Some w \<Longrightarrow> SchemaRef (Envelope w) = WitnessSchemaRef \<Longrightarrow>
    WitnessRef (Envelope w) \<noteq> [] \<Longrightarrow> to_root S (WitnessRef (Envelope w)) \<Longrightarrow> to_root S ref"

lemma to_root_mono: "to_root S ref \<Longrightarrow> S \<subseteq>\<^sub>m T \<Longrightarrow> to_root T ref"
  by (induction rule: to_root.induct) (auto intro: to_root.intros simp: map_le_def dom_def)

lemma to_root_dom: "to_root S ref \<Longrightarrow> \<exists>w. S ref = Some w"
  by (auto elim: to_root.cases)

text \<open>What the support holds was read from the store, under its own id.\<close>

definition support_reads :: "db \<Rightarrow> witnessSupport \<Rightarrow> bool" where
  "support_reads d w \<longleftrightarrow> support_ok w
    \<and> (\<forall>i r. support_get w i = Some r \<longrightarrow> readFactTx d i = Inr r \<and> is_witness_schema (SchemaRef (Envelope r)))"

lemma support_put_get: "support_get (support_put i r w) = (support_get w)(i \<mapsto> r)"
  by (rule ext) (simp add: support_get_def support_put_def update_conv')

lemma load_witness_step:
  assumes "load_witness d ref support = Inr (w, support')" "support_reads d support"
  shows "support_get support \<subseteq>\<^sub>m support_get support'" "support_get support' ref = Some w" "support_reads d support'"
  using load_witness_cases[OF assms(1)] assms(2) support.invar_insert[of support ref w]
  by (auto simp: map_le_def support_put_get support_reads_def split: if_splits)

lemma chain_loop_closed:
  assumes "chain_loop d ref seen support validated = Inr (support', validated')"
    and "support_reads d support"
    and "\<forall>v\<in>validated. to_root (support_get support) v"
    and "\<forall>x\<in>seen. \<forall>S. support_get support \<subseteq>\<^sub>m S \<longrightarrow> to_root S ref \<longrightarrow> to_root S x"
  shows "support_get support \<subseteq>\<^sub>m support_get support' \<and> support_reads d support'
    \<and> (\<forall>v\<in>validated'. to_root (support_get support') v) \<and> to_root (support_get support') ref"
  using assms
proof (induction d ref seen support validated rule: chain_loop.induct)
  case (1 d ref seen support validated)
  show ?case
  proof (cases "ref \<in> validated")
    case True
    with 1(2-4) show ?thesis by (simp add: chain_loop.simps[of d ref])
  next
    case False
    note unf = chain_loop.simps[of d ref seen support validated]
    have ns: "ref \<notin> seen" using 1(2) False unfolding unf by auto
    obtain w s1 where l: "load_witness d ref support = Inr (w, s1)"
      using 1(2) False ns unfolding unf by (auto split: sum.splits)
    note step = load_witness_step[OF l 1(3)]
    have sch: "is_witness_schema (SchemaRef (Envelope w))"
      using 1(2) False ns l unfolding unf by (auto split: if_splits)
    show ?thesis
    proof (cases "SchemaRef (Envelope w) = RootWitnessSchemaRef")
      case True
      then have r: "WitnessRef (Envelope w) = RootWitnessRef" "support' = s1" "validated' = insert ref seen \<union> validated"
        using 1(2) False ns l sch unfolding unf by (auto split: if_splits)
      have root: "to_root (support_get s1) ref" using step(2) True r(1) by (rule at_root)
      have "to_root (support_get s1) v" if "v \<in> validated" for v
        using to_root_mono[OF _ step(1)] 1(4) that by blast
      moreover have "to_root (support_get s1) x" if "x \<in> seen" for x using 1(5) that step(1) root by blast
      ultimately show ?thesis using step root r by auto
    next
      case nr: False
      let ?next = "WitnessRef (Envelope w)"
      have nz: "?next \<noteq> []" and rec: "chain_loop d ?next (insert ref seen) s1 validated = Inr (support', validated')"
        using 1(2) False ns l sch nr unfolding unf by (auto split: if_splits)
      have ws: "SchemaRef (Envelope w) = WitnessSchemaRef" using sch nr by (simp add: is_witness_schema_def)
      have link: "to_root S ref" if "support_get s1 \<subseteq>\<^sub>m S" "to_root S ?next" for S
        using that step(2) ws nz by (intro via[of S ref w]) (auto simp: map_le_def dom_def)
      have v: "\<forall>v\<in>validated. to_root (support_get s1) v" using to_root_mono[OF _ step(1)] 1(4) by blast
      have le: "support_get support \<subseteq>\<^sub>m S" if "support_get s1 \<subseteq>\<^sub>m S" for S
        using map_le_trans[OF step(1) that] .
      have seen: "\<forall>x\<in>insert ref seen. \<forall>S. support_get s1 \<subseteq>\<^sub>m S \<longrightarrow> to_root S ?next \<longrightarrow> to_root S x"
        using link le 1(5) by blast
      have ih: "support_get s1 \<subseteq>\<^sub>m support_get support' \<and> support_reads d support'
          \<and> (\<forall>v\<in>validated'. to_root (support_get support') v) \<and> to_root (support_get support') ?next"
        using 1(1)[OF False ns l refl _ nr nz rec step(3) v seen] sch by blast
      then show ?thesis using link map_le_trans[OF step(1)] by blast
    qed
  qed
qed

lemma support_records_eq:
  assumes "support_ok w"
  shows "support_records w = map (\<lambda>i. the (support_get w i)) (order w)"
proof -
  have "\<exists>r. support_get w i = Some r" if "i \<in> set (order w)" for i
    using support.look_keys[OF assms, of i] that by auto
  then have "List.map_filter (support_get w) ks = map (\<lambda>i. the (support_get w i)) ks" if "set ks \<subseteq> set (order w)" for ks
    using that by (induction ks) (force simp: List.map_filter_simps)+
  then show ?thesis by (simp add: support_records_def)
qed

definition closure_step :: "db \<Rightarrow> witnessSupport \<times> string set \<Rightarrow> Record \<Rightarrow> kerror + witnessSupport \<times> string set" where
  "closure_step d = (\<lambda>(support, validated) r.
     if WitnessRef (Envelope r) \<noteq> [] then validateWitnessChain d (WitnessRef (Envelope r)) support validated
     else Inr (support, validated))"

lemma closure_loop:
  assumes "foldR (closure_step d) (support, validated) records = Inr (support', validated')"
    and "support_reads d support" "\<forall>v\<in>validated. to_root (support_get support) v"
  shows "support_get support \<subseteq>\<^sub>m support_get support' \<and> support_reads d support'
    \<and> (\<forall>r\<in>set records. WitnessRef (Envelope r) \<noteq> [] \<longrightarrow> to_root (support_get support') (WitnessRef (Envelope r)))"
  using assms
proof (induction records arbitrary: support validated)
  case (Cons r records)
  obtain s1 v1 where s1: "closure_step d (support, validated) r = Inr (s1, v1)"
      "foldR (closure_step d) (s1, v1) records = Inr (support', validated')"
    using Cons.prems(1) by (auto simp: bindR_eq_Inr)
  have step: "support_get support \<subseteq>\<^sub>m support_get s1 \<and> support_reads d s1
      \<and> (\<forall>v\<in>v1. to_root (support_get s1) v) \<and> (WitnessRef (Envelope r) \<noteq> [] \<longrightarrow> to_root (support_get s1) (WitnessRef (Envelope r)))"
  proof (cases "WitnessRef (Envelope r) = []")
    case True
    with s1(1) Cons.prems show ?thesis by (simp add: closure_step_def)
  next
    case False
    then have "chain_loop d (WitnessRef (Envelope r)) {} support validated = Inr (s1, v1)"
      using s1(1) by (simp add: closure_step_def validateWitnessChain_def)
    from chain_loop_closed[OF this Cons.prems(2,3)] show ?thesis by blast
  qed
  with Cons.IH[OF s1(2)] show ?case using to_root_mono map_le_trans by fastforce
qed simp

lemma witnessSupportClosure_step: "witnessSupportClosure d records =
    (case find (\<lambda>r. WitnessRef (Envelope r) = [] \<and> SchemaRef (Envelope r) \<noteq> RootWitnessSchemaRef) records of
       Some r \<Rightarrow> Inl (TraceStoreError ''non-root record has empty witness_ref: '' [RecordID (Envelope r)])
     | None \<Rightarrow> bindR (foldR (closure_step d) (newWitnessSupport, {}) records) (\<lambda>(support, _). Inr (support_records support)))"
proof -
  have "closure_step d = (\<lambda>(support, validated) r.
     if WitnessRef (Envelope r) \<noteq> [] then validateWitnessChain d (WitnessRef (Envelope r)) support validated
     else Inr (support, validated))"
    by (intro ext) (auto simp: closure_step_def)
  then show ?thesis by (simp add: witnessSupportClosure_def cong: option.case_cong)
qed

lemma witnessSupportClosure_closed:
  assumes "witnessSupportClosure d records = Inr ws"
  shows "distinct (map (\<lambda>w. RecordID (Envelope w)) ws)
    \<and> (\<forall>w\<in>set ws. readFactTx d (RecordID (Envelope w)) = Inr w \<and> is_witness_schema (SchemaRef (Envelope w)))
    \<and> (\<forall>r\<in>set records. WitnessRef (Envelope r) = [] \<longrightarrow> SchemaRef (Envelope r) = RootWitnessSchemaRef)
    \<and> (\<forall>r\<in>set records. WitnessRef (Envelope r) \<noteq> [] \<longrightarrow>
        to_root (map_of (map (\<lambda>w. (RecordID (Envelope w), w)) ws)) (WitnessRef (Envelope r)))"
proof -
  have f: "find (\<lambda>r. WitnessRef (Envelope r) = [] \<and> SchemaRef (Envelope r) \<noteq> RootWitnessSchemaRef) records = None"
    using assms by (auto simp: witnessSupportClosure_def split: option.splits)
  with assms obtain support v where l: "foldR (closure_step d) (newWitnessSupport, {}) records = Inr (support, v)"
      "ws = support_records support"
    unfolding witnessSupportClosure_step by (auto simp: bindR_eq_Inr)
  have "support_reads d newWitnessSupport"
    using support.invar_empty by (simp add: support_reads_def support_get_def newWitnessSupport_def)
  from closure_loop[OF l(1) this] have c: "support_reads d support"
    "\<And>r. r \<in> set records \<Longrightarrow> WitnessRef (Envelope r) \<noteq> [] \<Longrightarrow> to_root (support_get support) (WitnessRef (Envelope r))"
    by auto
  have ok: "support_ok support" using c(1) by (simp add: support_reads_def)
  have some: "\<exists>r. support_get support i = Some r" if "i \<in> set (order support)" for i
    using support.look_keys[OF ok, of i] that by auto
  have rid: "RecordID (Envelope r) = i" "readFactTx d i = Inr r" "is_witness_schema (SchemaRef (Envelope r))"
    if "support_get support i = Some r" for i r
    using c(1) that readFactTx_id(1) unfolding support_reads_def by blast+
  have ids: "map (\<lambda>w. RecordID (Envelope w)) ws = order support"
    unfolding l(2) support_records_eq[OF ok] map_map comp_def using some rid(1) by (intro map_idI) fastforce
  have "map_of (map (\<lambda>w. (RecordID (Envelope w), w)) ws) i = support_get support i" for i
  proof (cases "i \<in> set (order support)")
    case True
    then obtain r where r: "support_get support i = Some r" using some by blast
    have d: "distinct (map fst (map (\<lambda>w. (RecordID (Envelope w), w)) ws))"
      using ids support.keys_distinct[OF ok] by (simp add: comp_def)
    have "r \<in> set ws" using True r unfolding l(2) support_records_eq[OF ok] by force
    then have "(i, r) \<in> set (map (\<lambda>w. (RecordID (Envelope w), w)) ws)" using rid(1)[OF r] by auto
    with d r show ?thesis by (simp only: map_of_is_SomeI)
  next
    case False
    then have "support_get support i = None" using support.look_keys[OF ok, of i] by auto
    moreover have "i \<notin> fst ` set (map (\<lambda>w. (RecordID (Envelope w), w)) ws)"
      using False unfolding ids[symmetric] by force
    ultimately show ?thesis by (metis map_of_eq_None_iff)
  qed
  then have "map_of (map (\<lambda>w. (RecordID (Envelope w), w)) ws) = support_get support" by (rule ext)
  moreover have "readFactTx d (RecordID (Envelope w)) = Inr w \<and> is_witness_schema (SchemaRef (Envelope w))"
    if "w \<in> set ws" for w
  proof -
    have "w \<in> (\<lambda>i. the (support_get support i)) ` set (order support)"
      using that unfolding l(2) support_records_eq[OF ok] by simp
    then obtain i where "i \<in> set (order support)" "w = the (support_get support i)" by blast
    then show ?thesis using some[of i] rid[of i w] by auto
  qed
  ultimately show ?thesis
    using ids support.keys_distinct[OF ok] c(2) f by (auto simp: find_None_iff)
qed

end
