(* ===== verification/Store_Read.thy ===== *)
theory Store_Read
  imports Store_Witness
begin

text \<open>
  Reads (\<open>store_read.go\<close>): the guards, the owner prefix, the causal closure (a breadth-first
  search over the parents), the canonical order of a set of facts, the slice that a read
  returns, and the scan by schema.  What the driver answers to the query of several rows is a
  parameter: an error, or the rows in the order of its \<open>ORDER BY\<close>.
\<close>

section \<open>Guards\<close>

definition ensureReadAuthorized :: "OperationContext \<Rightarrow> kerror + unit" where
  "ensureReadAuthorized ctx =
    (if VisibilityProfile ctx \<noteq> VisibilityShapeOnly \<and> VisibilityProfile ctx \<noteq> VisibilityPayload
        \<and> VisibilityProfile ctx \<noteq> VisibilityFullInternal
     then Inl (Plain ''unknown visibility profile: '' [VisibilityProfile ctx])
     else if VisibilityProfile ctx = VisibilityFullInternal
        \<and> ''trusted:internal'' \<notin> set (elems (PresentedAuthorityRefs ctx))
     then Inl (TraceStoreError ''full_internal reads require trusted internal witness'' [])
     else Inr ())"

definition ensureModeFilter :: "string \<Rightarrow> kerror + unit" where
  "ensureModeFilter f =
    (if f \<noteq> ModeBoth \<and> f \<noteq> ModeDeclarationsOnly \<and> f \<noteq> ModeCapturesOnly
     then Inl (Plain ''unknown mode filter: '' [f]) else Inr ())"

definition ensureClosurePolicy :: "string \<Rightarrow> kerror + unit" where
  "ensureClosurePolicy p =
    (if p \<noteq> ''visible_only'' \<and> p \<noteq> ''include_external_anchors''
     then Inl (Plain ''unknown closure policy: '' [p]) else Inr ())"

definition modeMatches :: "Record \<Rightarrow> string \<Rightarrow> bool" where
  "modeMatches fct modeFilter =
    (if modeFilter = ModeBoth then True
     else if modeFilter = ModeDeclarationsOnly then Mode (Envelope fct) = Declaration
     else if modeFilter = ModeCapturesOnly then Mode (Envelope fct) = Capture
     else True)"

definition visibleFact :: "Record \<Rightarrow> string \<Rightarrow> VisibleRecord" where
  "visibleFact fct visibility =
    (if visibility = VisibilityPayload \<or> visibility = VisibilityFullInternal then Full fct
     else if visibility = VisibilityShapeOnly
     then Shape \<lparr>ShapeEnvelope = Envelope fct, ShapeView = View fct, HiddenReason = ''payload_hidden''\<rparr>
     else Full fct)"

section \<open>Path entries\<close>

record pathEntry =
  peRecord :: string
  peRef :: string
  peOrdinal :: int

definition entry_of_row :: "path_row \<Rightarrow> pathEntry" where
  "entry_of_row p = \<lparr>peRecord = PathRecord p, peRef = PathRef p, peOrdinal = PathOrdinal p\<rparr>"

definition readFactAtPath :: "db \<Rightarrow> pathEntry \<Rightarrow> kerror + Record" where
  "readFactAtPath d pe =
    scanRecord (case find (\<lambda>p. PathRecord p = peRecord pe \<and> PathRef p = peRef pe \<and> PathOrdinal p = peOrdinal pe)
        (PathEntries d) of
      None \<Rightarrow> None | Some p \<Rightarrow> join_entry d p)"

definition readFact :: "db \<Rightarrow> string \<Rightarrow> kerror + Record" where
  "readFact = readFactTx"

text \<open>The two queries of the prefix read.\<close>

definition prefix_rows :: "db \<Rightarrow> string \<Rightarrow> int \<Rightarrow> path_row list" where
  "prefix_rows d ownerID through =
    (if ownerID = [] then sort_key entry_key (filter (\<lambda>p. PathOrdinal p \<le> through) (PathEntries d))
     else sort_key PathOrdinal (filter (\<lambda>p. PathRef p = ownerID \<and> PathOrdinal p \<le> through) (PathEntries d)))"

text \<open>\<open>canonicalFactOrder\<close>: the first row of every record; a query error yields no entries.\<close>

fun first_rows :: "string set \<Rightarrow> path_row list \<Rightarrow> path_row list" where
  "first_rows seen [] = []"
| "first_rows seen (p # ps) =
    (if PathRecord p \<in> seen then first_rows seen ps else p # first_rows (insert (PathRecord p) seen) ps)"

definition canonicalFactOrder :: "kerror option \<Rightarrow> db \<Rightarrow> string set \<Rightarrow> pathEntry list" where
  "canonicalFactOrder query d ids =
    (if ids = {} then []
     else case query of
       Some e \<Rightarrow> []
     | None \<Rightarrow> map entry_of_row (first_rows {}
         (sort_key (\<lambda>p. (PathRef p, PathOrdinal p, PathRecord p)) (filter (\<lambda>p. PathRecord p \<in> ids) (PathEntries d)))))"

section \<open>Slices\<close>

definition externalAnchorKindFact :: string where
  "externalAnchorKindFact = ''fact''"

definition anchorForFact :: "db \<Rightarrow> string \<Rightarrow> string \<Rightarrow> ExternalAnchor" where
  "anchorForFact d factID hiddenReason =
    (case readFact d factID of
       Inl _ \<Rightarrow> \<lparr>AnchorRef = factID, AnchorKind = externalAnchorKindFact, AnchorShape = None, AnchorHiddenReason = ''unknown''\<rparr>
     | Inr fct \<Rightarrow>
        (let kind = (case View fct of None \<Rightarrow> [] | Some v \<Rightarrow> ViewKindLabel v);
             owner = (case View fct of None \<Rightarrow> [] | Some v \<Rightarrow> ViewOwner v);
             ordinal = (case View fct of None \<Rightarrow> -1 | Some v \<Rightarrow> ViewOrdinal v)
         in \<lparr>AnchorRef = factID, AnchorKind = externalAnchorKindFact,
             AnchorShape = Some
              [(''kind_label'', VString kind), (''schema_ref'', VString (SchemaRef (Envelope fct))),
               (''trace_owner_id'', VString owner), (''owner_ordinal'', VInt ordinal),
               (''witness_ref'', VString (WitnessRef (Envelope fct)))],
             AnchorHiddenReason = hiddenReason\<rparr>))"

text \<open>What the loop over the loaded facts accumulates.\<close>

record sliceParts =
  spFacts :: "(string \<times> VisibleRecord) list"
  spContexts :: "(string \<times> RetainedContext) list"
  spPaths :: "(string \<times> string list) list"
  spPathOrder :: "string list"
  spEdges :: "(string \<times> string) list"
  spExternal :: "ExternalAnchor omap"
  spContextAnchors :: "ContextAnchor omap"

definition no_parts :: sliceParts where
  "no_parts = \<lparr>spFacts = [], spContexts = [], spPaths = [], spPathOrder = [], spEdges = [],
    spExternal = om_empty, spContextAnchors = om_empty\<rparr>"

definition add_path :: "pathEntry \<Rightarrow> sliceParts \<Rightarrow> sliceParts" where
  "add_path pe sp =
    sp\<lparr>spPathOrder := (if map_of (spPaths sp) (peRef pe) = None then spPathOrder sp @ [peRef pe] else spPathOrder sp),
       spPaths := AList.update (peRef pe)
         ((case map_of (spPaths sp) (peRef pe) of None \<Rightarrow> [] | Some ids \<Rightarrow> ids) @ [peRecord pe]) (spPaths sp)\<rparr>"

definition add_parent_edge :: "db \<Rightarrow> bool \<Rightarrow> string set \<Rightarrow> string \<Rightarrow> string \<Rightarrow> sliceParts \<Rightarrow> sliceParts" where
  "add_parent_edge d includeExternalAnchors selected factID parent sp =
    (if parent \<in> selected then sp\<lparr>spEdges := spEdges sp @ [(parent, factID)]\<rparr>
     else if includeExternalAnchors
     then sp\<lparr>spExternal := om_add parent (anchorForFact d parent ''outside_frontier'') (spExternal sp)\<rparr>
     else sp)"

definition add_context :: "db \<Rightarrow> string \<Rightarrow> string \<Rightarrow> sliceParts \<Rightarrow> sliceParts" where
  "add_context d visibility ctxID sp =
    (if ctxID = [] then sp
     else if visibility = VisibilityShapeOnly
     then sp\<lparr>spContextAnchors := om_add ctxID
       \<lparr>AnchorContextID = ctxID, ContextAnchorShape = Some [(''context_id'', VString ctxID)], ContextAnchorHidden = []\<rparr>
       (spContextAnchors sp)\<rparr>
     else if map_of (spContexts sp) ctxID = None
     then (case readContext d ctxID of
             Inl _ \<Rightarrow> sp
           | Inr c \<Rightarrow> sp\<lparr>spContexts := AList.update ctxID c (spContexts sp)\<rparr>)
     else sp)"

definition add_fact :: "db \<Rightarrow> string \<Rightarrow> bool \<Rightarrow> string set \<Rightarrow> pathEntry \<times> Record \<Rightarrow> sliceParts \<Rightarrow> sliceParts" where
  "add_fact d visibility includeExternalAnchors selected = (\<lambda>(pe, fct) sp.
    add_context d visibility (case View fct of None \<Rightarrow> [] | Some v \<Rightarrow> ViewContextRef v)
      (fold (add_parent_edge d includeExternalAnchors selected (peRecord pe)) (elems (CausedByIDs (Envelope fct)))
        (add_path pe (sp\<lparr>spFacts := AList.update (peRecord pe) (visibleFact fct visibility) (spFacts sp)\<rparr>))))"

definition add_witness :: "string \<Rightarrow> Record \<Rightarrow> (string \<times> VisibleRecord) list \<times> WitnessAnchor omap
    \<Rightarrow> (string \<times> VisibleRecord) list \<times> WitnessAnchor omap" where
  "add_witness visibility w = (\<lambda>(byId, anchors).
    if visibility = VisibilityShapeOnly then (byId, om_add (RecordID (Envelope w)) (witnessAnchor w) anchors)
    else (AList.update (RecordID (Envelope w)) (visibleFact w visibility) byId, anchors))"

definition load_facts :: "db \<Rightarrow> pathEntry list \<Rightarrow> string \<Rightarrow> kerror + (pathEntry \<times> Record) list" where
  "load_facts d entries modeFilter =
    bindR (mapR (\<lambda>pe. bindR (readFactAtPath d pe) (\<lambda>fct. Inr (pe, fct))) entries) (\<lambda>all.
    Inr (filter (\<lambda>(pe, fct). modeMatches fct modeFilter) all))"

definition buildSlice :: "db \<Rightarrow> pathEntry list \<Rightarrow> Frontier option \<Rightarrow> string \<Rightarrow> string \<Rightarrow> bool \<Rightarrow> kerror + Slice" where
  "buildSlice d entries frontier visibility modeFilter includeExternalAnchors =
    bindR (load_facts d entries modeFilter) (\<lambda>loaded.
    let sp = fold (add_fact d visibility includeExternalAnchors ((\<lambda>(pe, _). peRecord pe) ` set loaded)) loaded no_parts in
    bindR (witnessSupportClosure d (map snd loaded)) (\<lambda>support.
    let (witnesses, anchors) = fold (add_witness visibility) support ([], om_empty) in
    Inr \<lparr>SliceFrontier = frontier, SliceVisibility = visibility, SliceModeFilter = modeFilter,
         FactsByID = spFacts sp, ContextsByID = spContexts sp, OwnerPaths = spPaths sp,
         OwnerPathOrder = spPathOrder sp, SliceCausalEdges = spEdges sp,
         ExternalAnchors = om_values (spExternal sp), ContextAnchors = om_values (spContextAnchors sp),
         WitnessesByID = witnesses, WitnessAnchors = om_values anchors\<rparr>))"

section \<open>The public reads\<close>

definition ReadFact :: "ReadContext \<Rightarrow> string \<Rightarrow> store \<Rightarrow> kerror + VisibleRecord" where
  "ReadFact auth factID s =
    bindR (ensureReadAuthorized (read_operation_context auth)) (\<lambda>_.
    bindR (readFact (Db s) factID) (\<lambda>r. Inr (Full r)))"

definition ReadOwnerPrefix :: "kerror option \<Rightarrow> ReadContext \<Rightarrow> string \<Rightarrow> int \<Rightarrow> string \<Rightarrow> store \<Rightarrow> kerror + Slice" where
  "ReadOwnerPrefix query auth ownerID through modeFilter s =
    bindR (ensureReadAuthorized (read_operation_context auth)) (\<lambda>_.
    bindR (ensureModeFilter modeFilter) (\<lambda>_.
    case query of
      Some e \<Rightarrow> Inl e
    | None \<Rightarrow> buildSlice (Db s) (map entry_of_row (prefix_rows (Db s) ownerID through)) None
        (VisibilityProfile (read_operation_context auth)) modeFilter True))"

definition ReadPathPrefix :: "kerror option \<Rightarrow> ReadContext \<Rightarrow> string \<Rightarrow> int \<Rightarrow> string \<Rightarrow> store \<Rightarrow> kerror + Slice" where
  "ReadPathPrefix query auth pathRef through modeFilter s = ReadOwnerPrefix query auth pathRef through modeFilter s"

text \<open>The search: the queue of ids still to visit and the ids visited.  It ends because every id
  it visits is a retained record.\<close>

function closure_loop :: "db \<Rightarrow> string list \<Rightarrow> string set \<Rightarrow> kerror + string set" where
  "closure_loop d [] seen = Inr seen"
| "closure_loop d (i # pending) seen =
    (if i \<in> seen then closure_loop d pending seen
     else case readFact d i of
       Inl e \<Rightarrow> Inl e
     | Inr fct \<Rightarrow>
         (let seen' = insert i seen
          in closure_loop d (pending @ filter (\<lambda>p. p \<notin> seen') (elems (CausedByIDs (Envelope fct)))) seen'))"
  by pat_completeness auto
termination
proof (relation "measures [\<lambda>(d, pending, seen). card (RowID ` set (Records d) - seen), \<lambda>(d, pending, seen). length pending]", goal_cases)
  case (3 d i pending seen fct seen')
  then have "i \<in> RowID ` set (Records d) - seen" using readFactTx_id(2)[of d i fct] by (simp add: readFact_def)
  then have "RowID ` set (Records d) - seen' \<subset> RowID ` set (Records d) - seen" using 3(3) by auto
  then have "card (RowID ` set (Records d) - seen') < card (RowID ` set (Records d) - seen)"
    by (intro psubset_card_mono) simp_all
  then show ?case by simp
qed simp_all

declare closure_loop.simps(2) [simp del]

definition ReadCausalClosure :: "kerror option \<Rightarrow> ReadContext \<Rightarrow> string list \<Rightarrow> string \<Rightarrow> string \<Rightarrow> store \<Rightarrow> kerror + Slice" where
  "ReadCausalClosure query auth roots modeFilter closurePolicy s =
    bindR (ensureReadAuthorized (read_operation_context auth)) (\<lambda>_.
    bindR (ensureModeFilter modeFilter) (\<lambda>_.
    bindR (ensureClosurePolicy closurePolicy) (\<lambda>_.
    bindR (closure_loop (Db s) roots {}) (\<lambda>seen.
    buildSlice (Db s) (canonicalFactOrder query (Db s) seen) None (VisibilityProfile (read_operation_context auth))
      modeFilter (closurePolicy = ''include_external_anchors'')))))"

definition FactCount :: "store \<Rightarrow> int" where
  "FactCount s = int (length (Records (Db s)))"

definition ContextCount :: "store \<Rightarrow> int" where
  "ContextCount s = int (length (Contexts (Db s)))"

record ScannedRecord =
  ScannedID :: string
  ScannedOwner :: string
  ScannedSchema :: string
  ScannedPayload :: gmap

definition scan_row :: "record_row \<times> path_row \<Rightarrow> kerror + ScannedRecord" where
  "scan_row = (\<lambda>(r, p). bindR (bodyFromJSON (RowBody r)) (\<lambda>body.
    Inr \<lparr>ScannedID = RowID r, ScannedOwner = PathRef p, ScannedSchema = RowSchema r, ScannedPayload = body\<rparr>))"

definition ScanRecordsBySchema :: "kerror option \<Rightarrow> string list \<Rightarrow> store \<Rightarrow> kerror + ScannedRecord list" where
  "ScanRecordsBySchema query schemaRefs s =
    (if schemaRefs = [] then Inr []
     else case query of
       Some e \<Rightarrow> Inl e
     | None \<Rightarrow> mapR scan_row (List.map_filter (\<lambda>p. case find_record (Db s) (PathRecord p) of
           None \<Rightarrow> None
         | Some r \<Rightarrow> if RowSchema r \<in> set schemaRefs then Some (r, p) else None)
         (sort_key entry_key (PathEntries (Db s)))))"

end
