(* ===== verification/Store_Append.thy ===== *)
theory Store_Append
  imports Store_Witness
begin

text \<open>
  The append path (\<open>store_append.go\<close>): validation, the batch digest, the staging of a batch
  (\<open>prepareAppend\<close>), the transaction (\<open>appendInTx\<close>), the public \<open>Append\<close> with its commit and
  the events it publishes, and \<open>PreviewRecordIDs\<close>.  A transaction is a function from the
  database to an error or the database it leaves; a rollback drops the latter.
\<close>

section \<open>Guards and validation\<close>

definition ensureAppendAuthorized :: "OperationContext \<Rightarrow> kerror + unit" where
  "ensureAppendAuthorized ctx =
    (if TrustMode ctx = ''internal'' then Inr ()
     else guardR (''trusted:internal'' \<in> set (elems (PresentedAuthorityRefs ctx)))
       (TraceStoreError ''Slice A append requires trusted internal witness'' []))"

definition resolveSchemaRef :: "RecordDraft \<Rightarrow> kerror + string" where
  "resolveSchemaRef draft =
    (if DraftSchemaRef draft \<noteq> [] then Inr (DraftSchemaRef draft)
     else Inl (Plain ''schema_ref is required'' []))"

definition validate_draft :: "string set \<Rightarrow> RecordDraft \<Rightarrow> kerror + string set" where
  "validate_draft seen draft =
    bindR (guardR (DraftMode draft = Capture \<or> DraftMode draft = Declaration)
      (Plain ''fact mode must be 'capture' or 'declaration' '' [])) (\<lambda>_.
    bindR (guardR (AppendLocalID draft = [] \<or> AppendLocalID draft \<notin> seen)
      (Plain ''duplicate append-local id: '' [AppendLocalID draft])) (\<lambda>_.
    bindR (resolveSchemaRef draft) (\<lambda>_.
    bindR (json_text (of_gmap (DraftPayload draft))) (\<lambda>_.
    Inr (if AppendLocalID draft = [] then seen else insert (AppendLocalID draft) seen)))))"

definition validateBatchShape :: "AppendBatch \<Rightarrow> kerror + unit" where
  "validateBatchShape batch =
    bindR (guardR (AppendIntentID batch \<noteq> []) (Plain ''append_intent_id is required'' [])) (\<lambda>_.
    bindR (foldR (\<lambda>seen g.
        bindR (guardR (TraceOwnerID g \<noteq> []) (Plain ''trace_owner_id is required'' [])) (\<lambda>_.
        foldR validate_draft seen (elems (FactDrafts g))))
      {} (elems (Groups batch))) (\<lambda>_. Inr ()))"

section \<open>Causal parents\<close>

text \<open>\<open>resolvedCauses\<close>: group parents, then the draft's fact ids, then its local references;
  a duplicate is an error.\<close>

definition resolve_local :: "(string \<rightharpoonup> string) \<Rightarrow> string \<Rightarrow> kerror + string" where
  "resolve_local localFactIDs ref =
    (case localFactIDs ref of
       None \<Rightarrow> Inl (TraceStoreError ''append-local causal parent does not exist: '' [ref])
     | Some i \<Rightarrow> Inr i)"

definition add_parent :: "string list \<Rightarrow> string \<Rightarrow> kerror + string list" where
  "add_parent result i =
    (if i \<in> set result then Inl (Plain ''duplicate causal parent: '' [i]) else Inr (result @ [i]))"

definition resolvedCauses :: "AppendGroup \<Rightarrow> RecordDraft \<Rightarrow> (string \<rightharpoonup> string) \<Rightarrow> kerror + string list" where
  "resolvedCauses g draft localFactIDs =
    bindR (mapR (resolve_local localFactIDs) (elems (CausedByLocalRefs draft))) (\<lambda>locals.
    foldR add_parent [] (elems (CausalParents g) @ elems (CausedByFactIDs draft) @ locals))"

definition validateCausalParentsTx :: "db \<Rightarrow> string set \<Rightarrow> string list \<Rightarrow> kerror + unit" where
  "validateCausalParentsTx d stagedIDs causedBy =
    (case find (\<lambda>i. i \<notin> stagedIDs \<and> \<not> factExistsTx d i) causedBy of
       None \<Rightarrow> Inr ()
     | Some i \<Rightarrow> Inl (UnknownFactError (''causal parent does not exist: '' @ i)))"

definition validateCausalParents :: "db \<Rightarrow> string set \<Rightarrow> string list \<Rightarrow> kerror + unit" where
  "validateCausalParents = validateCausalParentsTx"

section \<open>Batch digests\<close>

definition draft_document :: "RecordDraft \<Rightarrow> kerror + gval" where
  "draft_document draft =
    bindR (resolveSchemaRef draft) (\<lambda>schemaRef. Inr (VMap
      [(''append_local_id'', nullableString (AppendLocalID draft)),
       (''kind_label'', VString (DraftKindLabel draft)),
       (''mode'', VString (DraftMode draft)),
       (''schema_ref'', VString schemaRef),
       (''payload'', of_gmap (DraftPayload draft)),
       (''caused_by_fact_ids'', of_strings (NonNilStrings (CausedByFactIDs draft))),
       (''caused_by_local_refs'', of_strings (NonNilStrings (CausedByLocalRefs draft)))]))"

definition group_document :: "AppendGroup \<Rightarrow> kerror + gval" where
  "group_document g =
    bindR (mapR draft_document (elems (FactDrafts g))) (\<lambda>drafts. Inr (VMap
      [(''trace_owner_id'', VString (TraceOwnerID g)),
       (''retained_context'', contextDraftJSON (GroupContext g)),
       (''causal_parents'', of_strings (NonNilStrings (CausalParents g))),
       (''fact_drafts'', VSlice drafts)]))"

definition batch_document :: "AppendBatch \<Rightarrow> OperationContext \<Rightarrow> kerror + gval" where
  "batch_document batch ctx =
    bindR (mapR group_document (elems (Groups batch))) (\<lambda>groups. Inr (VMap
      [(''append_intent_id'', VString (AppendIntentID batch)),
       (''atomicity'', VString ''atomic''),
       (''actor_ref'', VString (ActorRef ctx)),
       (''schema_version_set'', VString (SchemaEnvironmentRef ctx)),
       (''groups'', VSlice groups)]))"

definition batchDigest :: "golib \<Rightarrow> AppendBatch \<Rightarrow> OperationContext \<Rightarrow> kerror + string" where
  "batchDigest lib batch ctx =
    bindR (batch_document batch ctx) (\<lambda>payload.
    bindR (canonical_json_ascii_bytes lib payload) (\<lambda>b. Inr (hex (sha256 lib b))))"

text \<open>The digest of earlier releases: \<open>encoding/json\<close> on the structs, the empty string when that
  fails.  It is compared with, never stored.\<close>

definition draft_json :: "RecordDraft \<Rightarrow> kerror + json" where
  "draft_json draft =
    bindR (json_marshal (of_gmap (DraftPayload draft))) (\<lambda>p. Inr (JObj
      [(''Mode'', JStr (DraftMode draft)), (''SchemaRef'', JStr (DraftSchemaRef draft)),
       (''Payload'', p), (''KindLabel'', JStr (DraftKindLabel draft)),
       (''AppendLocalID'', JStr (AppendLocalID draft)),
       (''CausedByFactIDs'', stringToJSON (CausedByFactIDs draft)),
       (''CausedByLocalRefs'', stringToJSON (CausedByLocalRefs draft))]))"

definition slice_json :: "('a \<Rightarrow> kerror + json) \<Rightarrow> 'a slice \<Rightarrow> kerror + json" where
  "slice_json f s = (case s of None \<Rightarrow> Inr JNull | Some xs \<Rightarrow> bindR (mapR f xs) (\<lambda>js. Inr (JArr js)))"

definition group_json :: "AppendGroup \<Rightarrow> kerror + json" where
  "group_json g =
    bindR (slice_json draft_json (FactDrafts g)) (\<lambda>ds. Inr (JObj
      [(''TraceOwnerID'', JStr (TraceOwnerID g)),
       (''RetainedContext'', case GroupContext g of None \<Rightarrow> JNull | Some c \<Rightarrow> context_json c),
       (''CausalParents'', stringToJSON (CausalParents g)), (''FactDrafts'', ds)]))"

definition legacyBatchDigest :: "golib \<Rightarrow> AppendBatch \<Rightarrow> OperationContext \<Rightarrow> string" where
  "legacyBatchDigest lib batch ctx =
    (case slice_json group_json (Groups batch) of
       Inl _ \<Rightarrow> []
     | Inr gs \<Rightarrow> hex (sha256 lib (print_json go_render (JObj
        [(''actor_ref'', JStr (ActorRef ctx)), (''append_intent_id'', JStr (AppendIntentID batch)),
         (''authority_refs'', stringToJSON (PresentedAuthorityRefs ctx)), (''groups'', gs),
         (''schema_env'', JStr (SchemaEnvironmentRef ctx)), (''trust_mode'', JStr (TrustMode ctx))]))))"

section \<open>Commit receipts\<close>

definition commit_receipt :: "int \<Rightarrow> string" where
  "commit_receipt n = ''commit:'' @ itoa n"

text \<open>\<open>fmt.Sscanf(r, "commit:%d", &seq)\<close>: 0 when nothing is scanned.\<close>

definition sscanf_commit :: "string \<Rightarrow> int" where
  "sscanf_commit r =
    (if \<not> has_prefix r ''commit:'' then 0
     else let t = dropWhile (\<lambda>c. c = CHR '' '' \<or> c = CHR 0x09) (drop 7 r);
              tok = (if t \<noteq> [] \<and> (hd t = CHR ''-'' \<or> hd t = CHR ''+'')
                     then hd t # takeWhile is_digit (tl t) else takeWhile is_digit t)
          in case parse_int64 tok of None \<Rightarrow> 0 | Some n \<Rightarrow> n)"

definition nextCommitSeq :: "string list \<Rightarrow> int" where
  "nextCommitSeq receipts =
    fold (\<lambda>r maxSeq. let seq = sscanf_commit r in if seq \<ge> maxSeq then seq + 1 else maxSeq) receipts 0"

section \<open>Staging a batch\<close>

text \<open>What the loops of \<open>prepareAppend\<close> accumulate.\<close>

record staging =
  stagedIDs :: "string set"
  localFactIDs :: "string \<rightharpoonup> string"
  stagedNext :: "(string \<times> int) list"
  stContexts :: "RetainedContext list"
  stWitnesses :: "witnessPlan omap"
  stFacts :: "Record list"
  stCommits :: "string list"
  stEdges :: "(string \<times> string) list"
  stContextReceipts :: "string list"
  stRanges :: "(string \<times> int \<times> int) list"

definition addWitnessPlan :: "witnessPlan \<Rightarrow> witnessPlan omap \<Rightarrow> witnessPlan omap" where
  "addWitnessPlan plan m = om_put (planID plan) plan m"

definition draft_record :: "AppendGroup \<Rightarrow> RetainedContext \<Rightarrow> witnessPlan \<Rightarrow> RecordDraft \<Rightarrow> string
    \<Rightarrow> string list \<Rightarrow> string \<Rightarrow> int \<Rightarrow> Record" where
  "draft_record g retCtx wp draft schemaRef causedBy recID ordinal =
    \<lparr>Envelope = \<lparr>RecordID = recID, Digest = recID, SchemaRef = schemaRef, Mode = DraftMode draft,
        WitnessRef = planID wp, CausedByIDs = (if causedBy = [] then None else Some causedBy)\<rparr>,
     Body = CopyMap (DraftPayload draft),
     View = Some \<lparr>ViewOwner = groupOwner g, ViewOrdinal = ordinal, ViewContextRef = ContextID retCtx,
        ViewKindLabel = (if DraftKindLabel draft = [] then schemaRef else DraftKindLabel draft)\<rparr>\<rparr>"

definition prepare_draft :: "golib \<Rightarrow> db \<Rightarrow> int \<Rightarrow> AppendGroup \<Rightarrow> RetainedContext \<Rightarrow> witnessPlan
    \<Rightarrow> staging \<times> int \<Rightarrow> RecordDraft \<Rightarrow> kerror + staging \<times> int" where
  "prepare_draft lib d nextCommit g retCtx wp = (\<lambda>(st, ordinal) draft.
    bindR (resolvedCauses g draft (localFactIDs st)) (\<lambda>causedBy.
    bindR (validateCausalParentsTx d (stagedIDs st) causedBy) (\<lambda>_.
    bindR (resolveSchemaRef draft) (\<lambda>schemaRef.
    bindR (RecordDigest lib schemaRef (DraftMode draft) (DraftPayload draft) causedBy (planID wp)) (\<lambda>recID.
    Inr (st\<lparr>localFactIDs := (if AppendLocalID draft \<noteq> [] then (localFactIDs st)(AppendLocalID draft \<mapsto> recID)
                             else localFactIDs st),
            stFacts := stFacts st @ [draft_record g retCtx wp draft schemaRef causedBy recID ordinal],
            stCommits := stCommits st @ [commit_receipt (nextCommit + int (length (stFacts st)))],
            stEdges := stEdges st @ map (\<lambda>p. (p, recID)) causedBy,
            stagedIDs := insert recID (stagedIDs st)\<rparr>, ordinal + 1))))))"

definition range_update :: "string \<Rightarrow> int \<Rightarrow> int \<Rightarrow> (string \<times> int \<times> int) list \<Rightarrow> (string \<times> int \<times> int) list" where
  "range_update owner start fin rs =
    (case map_of rs owner of
       None \<Rightarrow> AList.update owner (start, fin) rs
     | Some rng \<Rightarrow> AList.update owner (fst rng, fin) rs)"

definition prepare_group :: "golib \<Rightarrow> db \<Rightarrow> string \<Rightarrow> OperationContext \<Rightarrow> int \<Rightarrow> staging
    \<Rightarrow> nat \<times> AppendGroup \<Rightarrow> kerror + staging" where
  "prepare_group lib d intent ctx nextCommit st = (\<lambda>(index, g).
    (let owner = groupOwner g; drafts = elems (FactDrafts g) in
     if drafts = [] then Inr st
     else
       bindR (resolveGroupContextTx lib d intent index g ctx) (\<lambda>retCtx.
       bindR (ordinaryWitnessPlan lib retCtx ctx) (\<lambda>wp.
       let st = st\<lparr>stContexts := (if contextExistsTx d (ContextID retCtx) then stContexts st
                                  else stContexts st @ [retCtx]),
                   stContextReceipts := stContextReceipts st @ [ContextID retCtx],
                   stWitnesses := addWitnessPlan wp (addWitnessPlan (rootWitnessPlan lib) (stWitnesses st))\<rparr>;
           start = (case map_of (stagedNext st) owner of None \<Rightarrow> 0 | Some n \<Rightarrow> n)
       in bindR (foldR (prepare_draft lib d nextCommit g retCtx wp) (st, start) drafts) (\<lambda>(st, ordinal).
          Inr (st\<lparr>stagedNext := AList.update owner ordinal (stagedNext st),
                  stRanges := range_update owner start (ordinal - 1) (stRanges st)\<rparr>))))))"

text \<open>The starting ordinal of every owner the batch names.\<close>

definition start_ordinals :: "db \<Rightarrow> AppendGroup list \<Rightarrow> (string \<times> int) list" where
  "start_ordinals d groups =
    fold (\<lambda>g m. if map_of m (groupOwner g) = None
                then AList.update (groupOwner g) (nextOwnerOrdinalTx d (groupOwner g)) m else m) groups []"

definition initial_staging :: "db \<Rightarrow> AppendGroup list \<Rightarrow> staging" where
  "initial_staging d groups =
    \<lparr>stagedIDs = {}, localFactIDs = Map.empty, stagedNext = start_ordinals d groups, stContexts = [],
     stWitnesses = om_empty, stFacts = [], stCommits = [], stEdges = [], stContextReceipts = [], stRanges = []\<rparr>"

definition prepareAppend :: "golib \<Rightarrow> db \<Rightarrow> AppendBatch \<Rightarrow> OperationContext
    \<Rightarrow> kerror + RetainedContext list \<times> witnessPlan list \<times> Record list \<times> AppendReceipt" where
  "prepareAppend lib d batch ctx =
    bindR (nextCommitSeqTx d) (\<lambda>nextCommit.
    bindR (foldR (prepare_group lib d (AppendIntentID batch) ctx nextCommit)
      (initial_staging d (elems (Groups batch))) (enumerate 0 (elems (Groups batch)))) (\<lambda>st.
    Inr (stContexts st, List.map_filter (fst (stWitnesses st)) (snd (stWitnesses st)), stFacts st,
      \<lparr>ReceiptIntentID = AppendIntentID batch, FactIDs = factIDs (stFacts st), CommitReceipts = stCommits st,
       OwnerRanges = stRanges st, CausalEdges = stEdges st, ContextReceipts = stContextReceipts st\<rparr>)))"

section \<open>The transaction\<close>

definition update_ordinals :: "(string \<times> int \<times> int) list \<Rightarrow> db \<Rightarrow> kerror + db" where
  "update_ordinals ranges d = foldR (\<lambda>d (owner, rng). upsert_ordinal owner (snd rng + 1) d) d ranges"

definition write_append :: "AppendBatch \<Rightarrow> string
    \<Rightarrow> RetainedContext list \<times> witnessPlan list \<times> Record list \<times> AppendReceipt \<Rightarrow> db \<Rightarrow> kerror + db" where
  "write_append batch dig = (\<lambda>(contexts, plans, facts, receipt) d.
    let intent = AppendIntentID batch in
    bindR (insert_intent \<lparr>IntentID = intent, IntentDigest = dig, IntentReceipt = receiptToJSON receipt\<rparr> d) (\<lambda>d.
    bindR (foldR (\<lambda>d c. insertContextTx c intent d) d contexts) (\<lambda>d.
    bindR (foldR (\<lambda>d p. insertWitnessRecordIfMissingTx p intent d) d plans) (\<lambda>d.
    bindR (foldR (\<lambda>d (f, c). insertFactRowTx f c intent d) d (zip facts (CommitReceipts receipt))) (\<lambda>d.
    bindR (update_ordinals (OwnerRanges receipt) d) (\<lambda>d.
    Inr (if CommitReceipts receipt \<noteq> [] then update_commit_seq (nextCommitSeq (CommitReceipts receipt)) d else d)))))))"

definition appendInTx :: "golib \<Rightarrow> OperationContext \<Rightarrow> AppendBatch \<Rightarrow> db
    \<Rightarrow> kerror + (AppendReceipt \<times> bool) \<times> db" where
  "appendInTx lib ctx batch d =
    bindR (validateBatchShape batch) (\<lambda>_.
    bindR (batchDigest lib batch ctx) (\<lambda>digest.
    case find_intent d (AppendIntentID batch) of
      Some row \<Rightarrow>
        if IntentDigest row \<noteq> digest \<and> IntentDigest row \<noteq> legacyBatchDigest lib batch ctx
        then Inl (AppendIntentConflictError (AppendIntentID batch))
        else bindR (receiptFromJSON (IntentReceipt row)) (\<lambda>receipt. Inr ((receipt, False), d))
    | None \<Rightarrow>
        bindR (prepareAppend lib d batch ctx) (\<lambda>p.
        bindR (write_append batch digest p d) (\<lambda>d'.
        Inr ((snd (snd (snd p)), True), d')))))"

section \<open>Publishing and the public operations\<close>

definition event_of :: "AppendBatch \<Rightarrow> nat \<Rightarrow> AppendGroup \<times> RecordDraft \<Rightarrow> string \<Rightarrow> EffectEvent" where
  "event_of batch now = (\<lambda>(g, draft) i.
    \<lparr>EventRecordID = i, EventIntentID = AppendIntentID batch, EventOwnerID = TraceOwnerID g,
     EventMode = DraftMode draft, EventSchemaRef = DraftSchemaRef draft,
     EventKindLabel = (if DraftKindLabel draft = [] then DraftSchemaRef draft else DraftKindLabel draft),
     EventPayload = DraftPayload draft,
     EventCausalParents = append_slice (CausalParents g) (CausedByFactIDs draft),
     EventTimestamp = now\<rparr>)"

text \<open>One event per draft and fact id, in order; the loop stops when the ids run out.\<close>

definition batch_drafts :: "AppendBatch \<Rightarrow> (AppendGroup \<times> RecordDraft) list" where
  "batch_drafts batch = concat (map (\<lambda>g. map (\<lambda>draft. (g, draft)) (elems (FactDrafts g))) (elems (Groups batch)))"

definition append_events :: "AppendBatch \<Rightarrow> AppendReceipt \<Rightarrow> nat \<Rightarrow> EffectEvent list" where
  "append_events batch receipt now =
    map (\<lambda>(gd, i). event_of batch now gd i) (zip (batch_drafts batch) (FactIDs receipt))"

definition publishAppendEvents :: "AppendBatch \<Rightarrow> AppendReceipt \<Rightarrow> nat \<Rightarrow> store \<Rightarrow> kerror + store" where
  "publishAppendEvents batch receipt now s =
    (case Bus s of
       None \<Rightarrow> Inr s
     | Some b \<Rightarrow> bindR (foldR (\<lambda>b e. Publish e b) b (append_events batch receipt now))
         (\<lambda>b. Inr (s\<lparr>Bus := Some b\<rparr>)))"

text \<open>What the environment decides: whether the driver begins and commits, and the clock.\<close>

record tx_env =
  begin_error :: "kerror option"
  commit_error :: "kerror option"
  clock :: nat

definition Append :: "golib \<Rightarrow> tx_env \<Rightarrow> AppendContext \<Rightarrow> AppendBatch \<Rightarrow> store
    \<Rightarrow> (kerror + AppendReceipt) \<times> store" where
  "Append lib env auth batch s =
    (let opCtx = append_operation_context auth OpAppend in
     case ensureAppendAuthorized opCtx of
       Inl e \<Rightarrow> (Inl e, s)
     | Inr _ \<Rightarrow>
    (case begin_error env of
       Some e \<Rightarrow> (Inl e, s)
     | None \<Rightarrow>
    (case appendInTx lib opCtx batch (Db s) of
       Inl e \<Rightarrow> (Inl e, s)
     | Inr ((receipt, isNew), d) \<Rightarrow>
    (case commit_error env of
       Some e \<Rightarrow> (Inl e, s)
     | None \<Rightarrow>
        if isNew then
          (case publishAppendEvents batch receipt (clock env) (s\<lparr>Db := d\<rparr>) of
             Inl e \<Rightarrow> (Inl e, s\<lparr>Db := d\<rparr>)
           | Inr s' \<Rightarrow> (Inr receipt, s'))
        else (Inr receipt, s\<lparr>Db := d\<rparr>)))))"

text \<open>The preview runs the same resolution and digests, without parents being checked.\<close>

definition preview_draft :: "golib \<Rightarrow> AppendGroup \<Rightarrow> witnessPlan \<Rightarrow> (string \<rightharpoonup> string) \<times> string list
    \<Rightarrow> RecordDraft \<Rightarrow> kerror + (string \<rightharpoonup> string) \<times> string list" where
  "preview_draft lib g wp = (\<lambda>(locals, ids) draft.
    bindR (resolvedCauses g draft locals) (\<lambda>causedBy.
    bindR (resolveSchemaRef draft) (\<lambda>schemaRef.
    bindR (RecordDigest lib schemaRef (DraftMode draft) (DraftPayload draft) causedBy (planID wp)) (\<lambda>recID.
    Inr (if AppendLocalID draft \<noteq> [] then locals(AppendLocalID draft \<mapsto> recID) else locals, ids @ [recID])))))"

definition preview_group :: "golib \<Rightarrow> db \<Rightarrow> string \<Rightarrow> OperationContext \<Rightarrow> (string \<rightharpoonup> string) \<times> string list
    \<Rightarrow> nat \<times> AppendGroup \<Rightarrow> kerror + (string \<rightharpoonup> string) \<times> string list" where
  "preview_group lib d intent ctx s = (\<lambda>(index, g).
    if elems (FactDrafts g) = [] then Inr s
    else
      bindR (resolveGroupContext lib d intent index g ctx) (\<lambda>retCtx.
      bindR (ordinaryWitnessPlan lib retCtx ctx) (\<lambda>wp.
      foldR (preview_draft lib g wp) s (elems (FactDrafts g)))))"

definition previewFactIDs :: "golib \<Rightarrow> db \<Rightarrow> AppendBatch \<Rightarrow> OperationContext \<Rightarrow> kerror + string list" where
  "previewFactIDs lib d batch ctx =
    bindR (foldR (preview_group lib d (AppendIntentID batch) ctx) (Map.empty, []) (enumerate 0 (elems (Groups batch))))
      (\<lambda>(_, ids). Inr ids)"

definition PreviewRecordIDs :: "golib \<Rightarrow> AppendContext \<Rightarrow> AppendBatch \<Rightarrow> store \<Rightarrow> kerror + string list" where
  "PreviewRecordIDs lib auth batch s =
    (let opCtx = append_operation_context auth OpAppend in
     bindR (ensureAppendAuthorized opCtx) (\<lambda>_.
     bindR (validateBatchShape batch) (\<lambda>_.
     previewFactIDs lib (Db s) batch opCtx)))"

end
