(* ===== verification/Store_Frontier.thy ===== *)
theory Store_Frontier
  imports Store_Read Store_Append
begin

text \<open>
  Frontiers (\<open>store_frontier.go\<close>): a frontier names a prefix of an owner's path by the last
  fact of the prefix.  Publishing one appends a record that says so and indexes it in the table
  \<open>frontiers\<close>; resolving one reads the index, checks it against the retained record, and
  builds the slice of the prefix.
\<close>

section \<open>Reading the index\<close>

definition frontier_of_row :: "frontier_row \<Rightarrow> Frontier" where
  "frontier_of_row r =
    \<lparr>FrontierID = FrID r, TargetTraceOwnerID = FrTarget r, ThroughFactID = FrThrough r,
     ThroughOwnerOrdinal = FrOrdinal r, PublisherOwnerID = FrPublisher r, CreatedByFactID = FrCreatedBy r\<rparr>"

definition readOwnerCutoffTx :: "db \<Rightarrow> string \<Rightarrow> kerror + Frontier" where
  "readOwnerCutoffTx d frontierID =
    (case find_frontier d frontierID of
       None \<Rightarrow> Inl (UnknownFrontierError frontierID)
     | Some r \<Rightarrow> Inr (frontier_of_row r))"

definition payload_at :: "gmap \<Rightarrow> string \<Rightarrow> gval" where
  "payload_at m k = (case map_of (elems m) k of None \<Rightarrow> VNil | Some v \<Rightarrow> v)"

text \<open>A required member: a string that is not empty.\<close>

definition payload_string :: "gmap \<Rightarrow> string \<Rightarrow> kerror + string" where
  "payload_string m k =
    (case payload_at m k of
       VString s \<Rightarrow> if s = [] then Inl (TraceStoreError ''frontier fact missing or invalid'' [k]) else Inr s
     | _ \<Rightarrow> Inl (TraceStoreError ''frontier fact missing or invalid'' [k]))"

text \<open>\<open>int(v)\<close> of a finite float is its integral part, which the digits before the decimal
  point give below \<open>2 ^ 53\<close>; a value that does not fit gives the least integer, as amd64 does.
  The bodies the store decodes hold numbers as \<open>json.Number\<close>, so this branch is for callers
  with other decoders only.\<close>

definition float_to_int :: "gofloat \<Rightarrow> int" where
  "float_to_int f =
    (case f of
       FFin neg ds e \<Rightarrow>
         (let n = (if e < 0 then 0 else int (foldl (\<lambda>a x. 10 * a + x) 0 (take (nat e + 1) (ds @ replicate (nat e + 1) 0))));
              i = (if neg then - n else n)
          in if i < - (2 ^ 63) \<or> i \<ge> 2 ^ 63 then - (2 ^ 63) else i)
     | FZero neg \<Rightarrow> 0
     | _ \<Rightarrow> - (2 ^ 63))"

definition intFromPayload :: "gmap \<Rightarrow> string \<Rightarrow> kerror + int" where
  "intFromPayload payload key =
    (case payload_at payload key of
       VNumber s \<Rightarrow> (case parse_int64 s of
           None \<Rightarrow> Inl (TraceStoreError ''frontier fact missing or invalid'' [key])
         | Some n \<Rightarrow> Inr n)
     | VFloat v \<Rightarrow> Inr (float_to_int v)
     | _ \<Rightarrow> Inl (TraceStoreError ''frontier fact missing or invalid'' [key]))"

definition frontierFromPayload :: "gmap \<Rightarrow> string \<Rightarrow> kerror + Frontier" where
  "frontierFromPayload payload createdByFactID =
    bindR (payload_string payload ''frontier_id'') (\<lambda>frontierID.
    bindR (payload_string payload ''target_trace_owner_id'') (\<lambda>targetOwner.
    bindR (payload_string payload ''through_fact_id'') (\<lambda>throughFact.
    bindR (intFromPayload payload ''through_owner_ordinal'') (\<lambda>throughOrdinal.
    Inr \<lparr>FrontierID = frontierID, TargetTraceOwnerID = targetOwner, ThroughFactID = throughFact,
      ThroughOwnerOrdinal = throughOrdinal,
      PublisherOwnerID = (case payload_at payload ''publisher_trace_owner_id'' of VString s \<Rightarrow> s | _ \<Rightarrow> []),
      CreatedByFactID = createdByFactID\<rparr>))))"

text \<open>The four fields by which two frontiers are compared.\<close>

definition same_cutoff :: "Frontier \<Rightarrow> Frontier \<Rightarrow> bool" where
  "same_cutoff a b \<longleftrightarrow> FrontierID a = FrontierID b \<and> TargetTraceOwnerID a = TargetTraceOwnerID b
    \<and> ThroughFactID a = ThroughFactID b \<and> ThroughOwnerOrdinal a = ThroughOwnerOrdinal b"

definition readOwnerCutoff :: "db \<Rightarrow> string \<Rightarrow> kerror + Frontier" where
  "readOwnerCutoff d frontierID =
    bindR (readOwnerCutoffTx d frontierID) (\<lambda>f.
    bindR (readFact d (CreatedByFactID f)) (\<lambda>frontierFact.
    bindR (frontierFromPayload (Body frontierFact) (CreatedByFactID f)) (\<lambda>expected.
    if \<not> same_cutoff f expected
    then Inl (TraceStoreError ''resolver index disagrees with retained frontier fact'' [])
    else Inr f)))"

definition ReadOwnerCutoff :: "string \<Rightarrow> store \<Rightarrow> kerror + Frontier" where
  "ReadOwnerCutoff frontierID s = readOwnerCutoff (Db s) frontierID"

text \<open>The latest entry of a fact on a path: \<open>ORDER BY path_ordinal DESC LIMIT 1\<close>.\<close>

definition latest_entry :: "db \<Rightarrow> string \<Rightarrow> string \<Rightarrow> path_row option" where
  "latest_entry d factID ownerID =
    (case sort_key (\<lambda>p. - PathOrdinal p) (filter (\<lambda>p. PathRecord p = factID \<and> PathRef p = ownerID) (PathEntries d)) of
       [] \<Rightarrow> None | p # ps \<Rightarrow> Some p)"

definition readLatestFactOnPathTx :: "db \<Rightarrow> string \<Rightarrow> string \<Rightarrow> kerror + Record" where
  "readLatestFactOnPathTx d factID ownerID =
    scanRecord (case latest_entry d factID ownerID of None \<Rightarrow> None | Some p \<Rightarrow> join_entry d p)"

definition readLatestFactOnPath :: "db \<Rightarrow> string \<Rightarrow> string \<Rightarrow> kerror + Record" where
  "readLatestFactOnPath = readLatestFactOnPathTx"

section \<open>Publishing\<close>

definition frontier_publisher :: "FrontierSpec \<Rightarrow> string" where
  "frontier_publisher spec =
    (if SpecPublisherOwnerID spec = [] then SpecTargetOwnerID spec else SpecPublisherOwnerID spec)"

definition frontier_intent :: "FrontierSpec \<Rightarrow> string" where
  "frontier_intent spec =
    (if SpecAppendIntentID spec = [] then ''frontier:'' @ SpecFrontierID spec else SpecAppendIntentID spec)"

definition frontier_payload :: "FrontierSpec \<Rightarrow> int \<Rightarrow> gmap" where
  "frontier_payload spec throughOrdinal = Some
    [(''frontier_id'', VString (SpecFrontierID spec)),
     (''target_trace_owner_id'', VString (SpecTargetOwnerID spec)),
     (''through_fact_id'', VString (SpecThroughFactID spec)),
     (''through_owner_ordinal'', VInt throughOrdinal),
     (''publisher_trace_owner_id'', VString (frontier_publisher spec))]"

definition frontier_draft :: "FrontierSpec \<Rightarrow> int \<Rightarrow> RecordDraft" where
  "frontier_draft spec throughOrdinal =
    \<lparr>DraftMode = Capture, DraftSchemaRef = ''shepherd2.frontier.owner_cutoff.v1'',
     DraftPayload = frontier_payload spec throughOrdinal, DraftKindLabel = ''frontier_published'',
     AppendLocalID = [], CausedByFactIDs = None, CausedByLocalRefs = None\<rparr>"

definition frontier_batch :: "OperationContext \<Rightarrow> FrontierSpec \<Rightarrow> int \<Rightarrow> AppendBatch" where
  "frontier_batch ctx spec throughOrdinal =
    \<lparr>AppendIntentID = frontier_intent spec,
     Groups = Some [\<lparr>TraceOwnerID = frontier_publisher spec,
       GroupContext = Some \<lparr>ContextID = ''ctx:'' @ frontier_intent spec @ '':frontier'',
         ActiveBindingRefs = None, CapabilityWitnessRefs = PresentedAuthorityRefs ctx,
         SemanticEnvironmentRefs = Some [SchemaEnvironmentRef ctx], VisibilityPolicyRefs = None,
         SubstrateRef = ''sqlite.local.v1'', Containment = ContainContained\<rparr>,
       CausalParents = Some (SpecThroughFactID spec # elems (SpecCausedBy spec)),
       FactDrafts = Some [frontier_draft spec throughOrdinal]\<rparr>]\<rparr>"

definition frontier_row_of :: "Frontier \<Rightarrow> string \<Rightarrow> frontier_row" where
  "frontier_row_of f intent =
    \<lparr>FrID = FrontierID f, FrTarget = TargetTraceOwnerID f, FrThrough = ThroughFactID f,
     FrOrdinal = ThroughOwnerOrdinal f, FrPublisher = PublisherOwnerID f,
     FrCreatedBy = CreatedByFactID f, FrIntent = intent\<rparr>"

definition index_frontier :: "Frontier \<Rightarrow> string \<Rightarrow> db \<Rightarrow> kerror + Frontier \<times> db" where
  "index_frontier frontier intent d =
    (case readOwnerCutoffTx d (FrontierID frontier) of
       Inr existing \<Rightarrow>
         if \<not> same_cutoff existing frontier
         then Inl (TraceStoreError ''frontier id already names a different cutoff'' [FrontierID frontier])
         else Inr (existing, d)
     | Inl _ \<Rightarrow> bindR (insert_frontier (frontier_row_of frontier intent) d) (\<lambda>d. Inr (frontier, d)))"

definition publishFrontierInTx :: "golib \<Rightarrow> OperationContext \<Rightarrow> FrontierSpec \<Rightarrow> db \<Rightarrow> kerror + Frontier \<times> db" where
  "publishFrontierInTx lib ctx spec d =
    (if SpecFrontierID spec = [] then Inl (Plain ''frontier_id is required'' [])
     else
       bindR (readLatestFactOnPathTx d (SpecThroughFactID spec) (SpecTargetOwnerID spec)) (\<lambda>through.
       case View through of
         None \<Rightarrow> Inl (TraceStoreError ''owner cutoff target disagrees with through fact owner'' [])
       | Some view \<Rightarrow>
         if ViewOwner view \<noteq> SpecTargetOwnerID spec
         then Inl (TraceStoreError ''owner cutoff target disagrees with through fact owner'' [])
         else
           bindR (appendInTx lib ctx (frontier_batch ctx spec (ViewOrdinal view)) d) (\<lambda>((receipt, isNew), d).
           case FactIDs receipt of
             [] \<Rightarrow> Inl (Panic ''index out of range [0] with length 0'')
           | createdByFactID # _ \<Rightarrow>
               index_frontier
                 \<lparr>FrontierID = SpecFrontierID spec, TargetTraceOwnerID = SpecTargetOwnerID spec,
                  ThroughFactID = SpecThroughFactID spec, ThroughOwnerOrdinal = ViewOrdinal view,
                  PublisherOwnerID = frontier_publisher spec, CreatedByFactID = createdByFactID\<rparr>
                 (frontier_intent spec) d)))"

definition PublishFrontier :: "golib \<Rightarrow> tx_env \<Rightarrow> AppendContext \<Rightarrow> FrontierSpec \<Rightarrow> store
    \<Rightarrow> (kerror + Frontier) \<times> store" where
  "PublishFrontier lib env auth spec s =
    (let opCtx = append_operation_context auth OpPublishCut in
     case ensureAppendAuthorized opCtx of
       Inl e \<Rightarrow> (Inl e, s)
     | Inr _ \<Rightarrow>
    (case begin_error env of
       Some e \<Rightarrow> (Inl e, s)
     | None \<Rightarrow>
    (case publishFrontierInTx lib opCtx spec (Db s) of
       Inl e \<Rightarrow> (Inl e, s)
     | Inr (frontier, d) \<Rightarrow>
    (case commit_error env of
       Some e \<Rightarrow> (Inl e, s)
     | None \<Rightarrow> (Inr frontier, s\<lparr>Db := d\<rparr>)))))"

definition PublishCut :: "golib \<Rightarrow> tx_env \<Rightarrow> AppendContext \<Rightarrow> FrontierSpec \<Rightarrow> store
    \<Rightarrow> (kerror + Frontier) \<times> store" where
  "PublishCut = PublishFrontier"

section \<open>Resolving\<close>

definition ResolveFrontier :: "kerror option \<Rightarrow> ReadContext \<Rightarrow> string \<Rightarrow> string \<Rightarrow> store \<Rightarrow> kerror + Slice" where
  "ResolveFrontier query auth frontierID modeFilter s =
    (let opCtx = read_operation_context auth in
     bindR (ensureReadAuthorized opCtx) (\<lambda>_.
     bindR (ensureModeFilter modeFilter) (\<lambda>_.
     bindR (readOwnerCutoff (Db s) frontierID) (\<lambda>frontier.
     bindR (readFactAtPath (Db s) \<lparr>peRecord = ThroughFactID frontier, peRef = TargetTraceOwnerID frontier,
         peOrdinal = ThroughOwnerOrdinal frontier\<rparr>) (\<lambda>through.
     case View through of
       None \<Rightarrow> Inl (TraceStoreError ''frontier through fact owner disagrees with target trace owner'' [])
     | Some view \<Rightarrow>
       if ViewOwner view \<noteq> TargetTraceOwnerID frontier
       then Inl (TraceStoreError ''frontier through fact owner disagrees with target trace owner'' [])
       else if ViewOrdinal view \<noteq> ThroughOwnerOrdinal frontier
       then Inl (TraceStoreError ''frontier through fact ordinal changed'' [])
       else
         (case query of
            Some e \<Rightarrow> Inl e
          | None \<Rightarrow>
              buildSlice (Db s)
                (map entry_of_row (sort_key PathOrdinal (filter (\<lambda>p. PathRef p = TargetTraceOwnerID frontier
                   \<and> PathOrdinal p \<le> ThroughOwnerOrdinal frontier) (PathEntries (Db s)))))
                (Some frontier) (VisibilityProfile opCtx) modeFilter True))))))"

definition ResolveCut :: "kerror option \<Rightarrow> ReadContext \<Rightarrow> string \<Rightarrow> string \<Rightarrow> store \<Rightarrow> kerror + Slice" where
  "ResolveCut = ResolveFrontier"

end
