(* ===== verification/Trace_Execution.thy ===== *)
theory Trace_Execution
  imports Store_Frontier
begin

text \<open>
  Executions (\<open>schema_library.go\<close>, \<open>execution.go\<close>): the check of a slice against what a
  projection needs, the drafts and batches of an execution's life cycle, and the fold that
  projects an execution from the facts on its owner path.  An error wrapped with \<open>%w\<close> is the
  error itself, as \<open>errors.Is\<close> sees it.
\<close>

section \<open>Schema libraries\<close>

definition ProjectionRequiresDeclarations :: string where
  "ProjectionRequiresDeclarations = ''declarations_only''"

definition ProjectionRequiresCaptures :: string where
  "ProjectionRequiresCaptures = ''captures_only''"

definition ProjectionRequiresBoth :: string where
  "ProjectionRequiresBoth = ''both''"

definition ProjectionAcceptsAny :: string where
  "ProjectionAcceptsAny = ''any''"

record ProjectionSpec =
  ProjectionName :: string
  ModeRequirement :: string
  RequiresPayload :: bool
  AcceptsAnchors :: bool

record StaticSchemaLibrary =
  LibraryName :: string
  Refs :: "string list"
  Specs :: "ProjectionSpec list"

definition EnsureProjectionCompatible :: "Slice \<Rightarrow> ProjectionSpec \<Rightarrow> kerror + unit" where
  "EnsureProjectionCompatible sl spec =
    (if RequiresPayload spec \<and> SliceVisibility sl = VisibilityShapeOnly
     then Inl (Plain ''projection requires payload visibility; got a shape_only slice'' [ProjectionName spec])
     else if ModeRequirement spec = ProjectionAcceptsAny then Inr ()
     else if SliceModeFilter sl \<noteq> ModeRequirement spec then Inl (ProjectionModeError (ProjectionName spec))
     else Inr ())"

section \<open>Constants\<close>

definition SchemaExecutionCreated :: string where
  "SchemaExecutionCreated = ''shepherd2.execution.created.v1''"

definition SchemaExecutionStarted :: string where
  "SchemaExecutionStarted = ''shepherd2.execution.started.v1''"

definition SchemaExecutionCompleted :: string where
  "SchemaExecutionCompleted = ''shepherd2.execution.completed.v1''"

definition SchemaExecutionFailed :: string where
  "SchemaExecutionFailed = ''shepherd2.execution.failed.v1''"

definition ExecutionProjection :: ProjectionSpec where
  "ExecutionProjection =
    \<lparr>ProjectionName = ''shepherd2.execution.project'', ModeRequirement = ProjectionRequiresBoth,
     RequiresPayload = True, AcceptsAnchors = True\<rparr>"

definition ExecutionSchemaLibrary :: StaticSchemaLibrary where
  "ExecutionSchemaLibrary =
    \<lparr>LibraryName = ''shepherd2.execution'',
     Refs = [SchemaExecutionCreated, SchemaExecutionStarted, SchemaExecutionCompleted, SchemaExecutionFailed],
     Specs = [ExecutionProjection]\<rparr>"

definition ExecutionPending :: string where "ExecutionPending = ''pending''"

definition ExecutionRunning :: string where "ExecutionRunning = ''running''"

definition ExecutionSucceeded :: string where "ExecutionSucceeded = ''succeeded''"

definition ExecutionFailed :: string where "ExecutionFailed = ''failed''"

record Execution =
  ExecutionID :: string
  TaskRef :: string
  ParentExecutionID :: string
  Status :: string
  Inputs :: gmap
  Outputs :: gmap
  ErrorText :: string
  StartedFactID :: string
  TerminalFactID :: string
  Cutoff :: Frontier

definition executionReadContext :: ReadContext where
  "executionReadContext =
    \<lparr>ReadActorRef = ''execution:schema'', ReadWitnessRefs = None, ReadVisibility = VisibilityPayload\<rparr>"

section \<open>Drafts and batches\<close>

definition ExecutionIDFor :: "golib \<Rightarrow> string \<Rightarrow> string \<Rightarrow> string" where
  "ExecutionIDFor lib appendIntentID localRef =
    ''exec:'' @ take 32 (hex (sha256 lib (appendIntentID @ chr 0 # localRef)))"

definition NonNilMap :: "gmap \<Rightarrow> gmap" where
  "NonNilMap m = Some (elems m)"

definition ExecutionCreatedDraft :: "string \<Rightarrow> string \<Rightarrow> gmap \<Rightarrow> string \<Rightarrow> RecordDraft" where
  "ExecutionCreatedDraft executionID taskRef inputs parentExecutionID =
    \<lparr>DraftMode = Declaration, DraftSchemaRef = SchemaExecutionCreated,
     DraftPayload = Some
       [(''execution_id'', VString executionID),
        (''task_ref'', VString taskRef),
        (''inputs'', of_gmap (NonNilMap inputs)),
        (''parent_execution_id'', nullableString parentExecutionID)],
     DraftKindLabel = ''execution_created'', AppendLocalID = [], CausedByFactIDs = None, CausedByLocalRefs = None\<rparr>"

definition ExecutionStartedDraft :: "string \<Rightarrow> RecordDraft" where
  "ExecutionStartedDraft executionID =
    \<lparr>DraftMode = Capture, DraftSchemaRef = SchemaExecutionStarted,
     DraftPayload = Some [(''execution_id'', VString executionID)],
     DraftKindLabel = ''execution_started'', AppendLocalID = [], CausedByFactIDs = None, CausedByLocalRefs = None\<rparr>"

definition ExecutionCompletedDraft :: "string \<Rightarrow> gmap \<Rightarrow> RecordDraft" where
  "ExecutionCompletedDraft executionID outputs =
    \<lparr>DraftMode = Capture, DraftSchemaRef = SchemaExecutionCompleted,
     DraftPayload = Some
       [(''execution_id'', VString executionID),
        (''outputs'', of_gmap (NonNilMap outputs))],
     DraftKindLabel = ''execution_completed'', AppendLocalID = [], CausedByFactIDs = None, CausedByLocalRefs = None\<rparr>"

definition ExecutionFailedDraft :: "string \<Rightarrow> string \<Rightarrow> RecordDraft" where
  "ExecutionFailedDraft executionID errMsg =
    \<lparr>DraftMode = Capture, DraftSchemaRef = SchemaExecutionFailed,
     DraftPayload = Some
       [(''execution_id'', VString executionID),
        (''error'', VString errMsg)],
     DraftKindLabel = ''execution_failed'', AppendLocalID = [], CausedByFactIDs = None, CausedByLocalRefs = None\<rparr>"

definition CreateExecutionBatch :: "string \<Rightarrow> string \<Rightarrow> string \<Rightarrow> gmap \<Rightarrow> string \<Rightarrow> string slice \<Rightarrow> AppendBatch" where
  "CreateExecutionBatch appendIntentID executionID taskRef inputs parentExecutionID causedBy =
    \<lparr>AppendIntentID = appendIntentID,
     Groups = Some [\<lparr>TraceOwnerID = executionID, GroupContext = None, CausalParents = causedBy,
       FactDrafts = Some [ExecutionCreatedDraft executionID taskRef inputs parentExecutionID,
         ExecutionStartedDraft executionID]\<rparr>]\<rparr>"

definition CompleteExecutionBatch :: "string \<Rightarrow> string \<Rightarrow> gmap \<Rightarrow> string slice \<Rightarrow> AppendBatch" where
  "CompleteExecutionBatch appendIntentID executionID outputs causedBy =
    \<lparr>AppendIntentID = appendIntentID,
     Groups = Some [\<lparr>TraceOwnerID = executionID, GroupContext = None, CausalParents = causedBy,
       FactDrafts = Some [ExecutionCompletedDraft executionID outputs]\<rparr>]\<rparr>"

definition FailExecutionBatch :: "string \<Rightarrow> string \<Rightarrow> string \<Rightarrow> string slice \<Rightarrow> AppendBatch" where
  "FailExecutionBatch appendIntentID executionID errMsg causedBy =
    \<lparr>AppendIntentID = appendIntentID,
     Groups = Some [\<lparr>TraceOwnerID = executionID, GroupContext = None, CausalParents = causedBy,
       FactDrafts = Some [ExecutionFailedDraft executionID errMsg]\<rparr>]\<rparr>"

section \<open>Terminal frontiers\<close>

definition PublishExecutionFrontier :: "golib \<Rightarrow> tx_env \<Rightarrow> AppendContext \<Rightarrow> string \<Rightarrow> string \<Rightarrow> string \<Rightarrow> string \<Rightarrow> string
    \<Rightarrow> string slice \<Rightarrow> store \<Rightarrow> (kerror + Frontier) \<times> store" where
  "PublishExecutionFrontier lib env auth frontierID targetExecutionID throughFactID publisherExecutionID appendIntentID causedBy s =
    (case ReadFact executionReadContext throughFactID s of
       Inl e \<Rightarrow> (Inl e, s)
     | Inr (Shape _) \<Rightarrow> (Inl (Plain ''PublishExecutionFrontier requires payload-visible facts'' []), s)
     | Inr (Full through) \<Rightarrow>
        if SchemaRef (Envelope through) \<noteq> SchemaExecutionCompleted \<and> SchemaRef (Envelope through) \<noteq> SchemaExecutionFailed
        then (Inl (Plain ''terminal execution frontier must target a terminal lifecycle fact, got '' [SchemaRef (Envelope through)]), s)
        else PublishFrontier lib env auth
          \<lparr>SpecFrontierID = frontierID, SpecTargetOwnerID = targetExecutionID, SpecThroughFactID = throughFactID,
           SpecPublisherOwnerID = publisherExecutionID, SpecAppendIntentID = appendIntentID, SpecCausedBy = causedBy\<rparr> s)"

section \<open>The projection\<close>

text \<open>An object of a decoded body is a \<open>map[string]any\<close>; every other kind reads as an empty map.\<close>

definition payloadString :: "gmap \<Rightarrow> string \<Rightarrow> string" where
  "payloadString payload key = (case get_key payload key of Some (VString s) \<Rightarrow> s | _ \<Rightarrow> [])"

definition payloadMap :: "gmap \<Rightarrow> string \<Rightarrow> gmap" where
  "payloadMap payload key =
    (case get_key payload key of Some (VMap kvs) \<Rightarrow> Some kvs | Some VNilMap \<Rightarrow> None | _ \<Rightarrow> Some [])"

definition owner_path :: "Slice \<Rightarrow> string \<Rightarrow> string list" where
  "owner_path sl owner = (case map_of (OwnerPaths sl) owner of None \<Rightarrow> [] | Some ids \<Rightarrow> ids)"

text \<open>The guards every projection loop starts with: the fact is in the slice, with its payload.\<close>

definition slice_record :: "string \<Rightarrow> Slice \<Rightarrow> string \<Rightarrow> kerror + Record" where
  "slice_record who sl factID =
    (case map_of (FactsByID sl) factID of
       None \<Rightarrow> Inl (Plain (who @ '': fact on the owner path is not in the slice'') [factID])
     | Some (Shape _) \<Rightarrow> Inl (Plain (who @ '' requires payload-visible facts'') [])
     | Some (Full r) \<Rightarrow> Inr r)"

definition other_execution :: "gmap \<Rightarrow> string \<Rightarrow> bool" where
  "other_execution payload owner =
    (case get_key payload ''execution_id'' of
       None \<Rightarrow> False | Some VNil \<Rightarrow> False | Some (VString s) \<Rightarrow> s \<noteq> owner | Some _ \<Rightarrow> True)"

definition fold_execution :: "Record \<Rightarrow> Execution \<Rightarrow> Execution" where
  "fold_execution fct exec =
    (let schema = SchemaRef (Envelope fct); payload = Body fct; i = RecordID (Envelope fct) in
     if schema = SchemaExecutionCreated then
       exec\<lparr>TaskRef := payloadString payload ''task_ref'',
         ParentExecutionID := payloadString payload ''parent_execution_id'',
         Inputs := payloadMap payload ''inputs'', Status := ExecutionPending\<rparr>
     else if schema = SchemaExecutionStarted then exec\<lparr>StartedFactID := i, Status := ExecutionRunning\<rparr>
     else if schema = SchemaExecutionCompleted then
       exec\<lparr>Outputs := payloadMap payload ''outputs'', ErrorText := [], TerminalFactID := i, Status := ExecutionSucceeded\<rparr>
     else if schema = SchemaExecutionFailed then
       exec\<lparr>Outputs := Some [], ErrorText := payloadString payload ''error'', TerminalFactID := i, Status := ExecutionFailed\<rparr>
     else exec)"

definition project_fact :: "Slice \<Rightarrow> string \<Rightarrow> Execution \<Rightarrow> string \<Rightarrow> kerror + Execution" where
  "project_fact sl owner exec factID =
    bindR (slice_record ''ProjectExecution'' sl factID) (\<lambda>fct.
    if other_execution (Body fct) owner then Inr exec else Inr (fold_execution fct exec))"

definition zero_frontier :: Frontier where
  "zero_frontier = \<lparr>FrontierID = [], TargetTraceOwnerID = [], ThroughFactID = [], ThroughOwnerOrdinal = 0,
    PublisherOwnerID = [], CreatedByFactID = []\<rparr>"

definition new_execution :: "string \<Rightarrow> Execution" where
  "new_execution owner =
    \<lparr>ExecutionID = owner, TaskRef = [], ParentExecutionID = [], Status = ExecutionPending, Inputs = Some [], Outputs = Some [],
     ErrorText = [], StartedFactID = [], TerminalFactID = [], Cutoff = zero_frontier\<rparr>"

definition executionCutoffFrom :: "Slice \<Rightarrow> string \<Rightarrow> Frontier" where
  "executionCutoffFrom sl owner =
    (case SliceFrontier sl of
       Some f \<Rightarrow> f
     | None \<Rightarrow>
        (let ids = owner_path sl owner in
         if ids = [] then zero_frontier\<lparr>TargetTraceOwnerID := owner, ThroughOwnerOrdinal := -1\<rparr>
         else
           (let through = last ids;
                ordinal = (case map_of (FactsByID sl) through of
                    Some (Full r) \<Rightarrow> (case View r of Some v \<Rightarrow> ViewOrdinal v | None \<Rightarrow> -1)
                  | _ \<Rightarrow> -1)
            in zero_frontier\<lparr>TargetTraceOwnerID := owner, ThroughFactID := through, ThroughOwnerOrdinal := ordinal\<rparr>)))"

definition ProjectExecution :: "Slice \<Rightarrow> string \<Rightarrow> Frontier option \<Rightarrow> kerror + Execution" where
  "ProjectExecution sl owner cutoff =
    bindR (EnsureProjectionCompatible sl ExecutionProjection) (\<lambda>_.
    bindR (foldR (project_fact sl owner) (new_execution owner) (owner_path sl owner)) (\<lambda>exec.
    Inr (exec\<lparr>Cutoff := (case cutoff of Some f \<Rightarrow> f | None \<Rightarrow> executionCutoffFrom sl owner)\<rparr>)))"

definition ProjectExecutionFromStore :: "kerror option \<Rightarrow> ReadContext \<Rightarrow> Frontier \<Rightarrow> store \<Rightarrow> kerror + Execution" where
  "ProjectExecutionFromStore query reader cutoff s =
    bindR (ResolveFrontier query reader (FrontierID cutoff) ModeBoth s) (\<lambda>sl.
    ProjectExecution sl (TargetTraceOwnerID cutoff) (Some cutoff))"

end
