(* ===== verification/Trace_History.thy ===== *)
theory Trace_History
  imports Trace_Execution
begin

text \<open>
  Relations between executions (\<open>relations.go\<close>) and the effective history of a run tree
  (\<open>history.go\<close>): parents keep on their own path what they did with their children, and the
  history of a parent is its execution, its active children and the facts it published.
\<close>

section \<open>Relations\<close>

definition SchemaExecutionRelation :: string where
  "SchemaExecutionRelation = ''shepherd2.execution_relation.created.v1''"

definition ExecutionRelationProjection :: ProjectionSpec where
  "ExecutionRelationProjection =
    \<lparr>ProjectionName = ''shepherd2.execution_relation.project'', ModeRequirement = ProjectionRequiresBoth,
     RequiresPayload = True, AcceptsAnchors = True\<rparr>"

definition ExecutionRelationSchemaLibrary :: StaticSchemaLibrary where
  "ExecutionRelationSchemaLibrary =
    \<lparr>LibraryName = ''shepherd2.execution_relation'', Refs = [SchemaExecutionRelation], Specs = [ExecutionRelationProjection]\<rparr>"

definition RelationSpawned :: string where "RelationSpawned = ''spawned''"

definition RelationAdopted :: string where "RelationAdopted = ''adopted''"

definition RelationAbandoned :: string where "RelationAbandoned = ''abandoned''"

record ExecutionRelation =
  RelationID :: string
  RelationKind :: string
  RelParentExecutionID :: string
  ChildExecutionID :: string
  ChildFrontierID :: string
  CreatedFactID :: string

definition RelationIDFor :: "golib \<Rightarrow> string \<Rightarrow> string \<Rightarrow> string" where
  "RelationIDFor lib appendIntentID localRef =
    ''rel:'' @ take 32 (hex (sha256 lib (appendIntentID @ chr 0 # localRef)))"

definition executionRelationCreatedDraft :: "string \<Rightarrow> string \<Rightarrow> string \<Rightarrow> string \<Rightarrow> string \<Rightarrow> RecordDraft" where
  "executionRelationCreatedDraft relationID kind parentExecutionID childExecutionID childFrontierID =
    \<lparr>DraftMode = Capture, DraftSchemaRef = SchemaExecutionRelation,
     DraftPayload = Some
       [(''relation_id'', VString relationID),
        (''relation_kind'', VString kind),
        (''parent_execution_id'', VString parentExecutionID),
        (''child_execution_id'', VString childExecutionID),
        (''child_frontier_id'', nullableString childFrontierID)],
     DraftKindLabel = ''relation_created'', AppendLocalID = [], CausedByFactIDs = None, CausedByLocalRefs = None\<rparr>"

definition CreateExecutionRelationBatch :: "string \<Rightarrow> string \<Rightarrow> string \<Rightarrow> string \<Rightarrow> string \<Rightarrow> string \<Rightarrow> string slice
    \<Rightarrow> AppendBatch" where
  "CreateExecutionRelationBatch appendIntentID relationID kind parentExecutionID childExecutionID childFrontierID causedBy =
    \<lparr>AppendIntentID = appendIntentID,
     Groups = Some [\<lparr>TraceOwnerID = parentExecutionID, GroupContext = None, CausalParents = causedBy,
       FactDrafts = Some [executionRelationCreatedDraft relationID kind parentExecutionID childExecutionID childFrontierID]\<rparr>]\<rparr>"

definition relationFromPayload :: "string \<Rightarrow> gmap \<Rightarrow> kerror + ExecutionRelation" where
  "relationFromPayload factID payload =
    (let kind = payloadString payload ''relation_kind'' in
     if kind \<noteq> RelationSpawned \<and> kind \<noteq> RelationAdopted \<and> kind \<noteq> RelationAbandoned
     then Inl (Plain ''unknown execution relation kind: '' [kind])
     else Inr
       \<lparr>RelationID = payloadString payload ''relation_id'', RelationKind = kind,
        RelParentExecutionID = payloadString payload ''parent_execution_id'',
        ChildExecutionID = payloadString payload ''child_execution_id'',
        ChildFrontierID = payloadString payload ''child_frontier_id'',
        CreatedFactID = factID\<rparr>)"

definition ExecutionRelationFromFact :: "Record \<Rightarrow> kerror + ExecutionRelation" where
  "ExecutionRelationFromFact fct =
    (if SchemaRef (Envelope fct) \<noteq> SchemaExecutionRelation
     then Inl (Plain ''expected relation_created fact, got '' [SchemaRef (Envelope fct)])
     else relationFromPayload (RecordID (Envelope fct)) (Body fct))"

definition project_relation :: "Slice \<Rightarrow> string \<Rightarrow> ExecutionRelation list \<Rightarrow> string \<Rightarrow> kerror + ExecutionRelation list" where
  "project_relation sl owner relations factID =
    bindR (slice_record ''ProjectExecutionRelations'' sl factID) (\<lambda>fct.
    if SchemaRef (Envelope fct) \<noteq> SchemaExecutionRelation then Inr relations
    else
      bindR (relationFromPayload (RecordID (Envelope fct)) (Body fct)) (\<lambda>relation.
      if RelParentExecutionID relation \<noteq> owner then Inr relations else Inr (relations @ [relation])))"

definition ProjectExecutionRelations :: "Slice \<Rightarrow> string \<Rightarrow> kerror + ExecutionRelation list" where
  "ProjectExecutionRelations sl owner =
    bindR (EnsureProjectionCompatible sl ExecutionRelationProjection) (\<lambda>_.
    foldR (project_relation sl owner) [] (owner_path sl owner))"

definition ProjectExecutionRelationsFromStore :: "kerror option \<Rightarrow> ReadContext \<Rightarrow> Frontier \<Rightarrow> store
    \<Rightarrow> kerror + ExecutionRelation list" where
  "ProjectExecutionRelationsFromStore query reader cutoff s =
    bindR (ResolveFrontier query reader (FrontierID cutoff) ModeBoth s) (\<lambda>sl.
    ProjectExecutionRelations sl (TargetTraceOwnerID cutoff))"

section \<open>Effective history\<close>

definition SchemaRuntimePublishedFact :: string where
  "SchemaRuntimePublishedFact = ''shepherd2.runtime.published_fact.v1''"

definition ShepherdSchemas :: StaticSchemaLibrary where
  "ShepherdSchemas =
    \<lparr>LibraryName = ''shepherd2'',
     Refs = Refs ExecutionSchemaLibrary @ Refs ExecutionRelationSchemaLibrary @ [SchemaRuntimePublishedFact],
     Specs = Specs ExecutionSchemaLibrary @ Specs ExecutionRelationSchemaLibrary\<rparr>"

record PublishedFact =
  PubFactID :: string
  PubKind :: string
  PubData :: gmap

record EffectiveChild =
  ChildRelation :: ExecutionRelation
  ChildExecution :: Execution

record EffectiveHistory =
  HistoryRoot :: Execution
  HistoryRelations :: "ExecutionRelation list"
  HistoryChildren :: "EffectiveChild list"
  HistoryPublished :: "PublishedFact list"

text \<open>The loop of \<open>activeRelations\<close>: the latest relation of each id and the ids in first-seen order.\<close>

definition latest_relation :: "ExecutionRelation \<Rightarrow> (string \<rightharpoonup> ExecutionRelation) \<times> string list
    \<Rightarrow> (string \<rightharpoonup> ExecutionRelation) \<times> string list" where
  "latest_relation relation = (\<lambda>(latest, order).
    (latest(RelationID relation \<mapsto> relation),
     if latest (RelationID relation) = None then order @ [RelationID relation] else order))"

definition is_active :: "ExecutionRelation \<Rightarrow> bool" where
  "is_active relation \<longleftrightarrow> RelationKind relation = RelationSpawned \<or> RelationKind relation = RelationAdopted"

definition activeRelations :: "ExecutionRelation list \<Rightarrow> ExecutionRelation list" where
  "activeRelations relations =
    (let (latest, order) = fold latest_relation relations (Map.empty, [])
     in filter is_active (map (\<lambda>i. the (latest i)) order))"

definition project_published :: "Slice \<Rightarrow> PublishedFact list \<Rightarrow> string \<Rightarrow> kerror + PublishedFact list" where
  "project_published sl facts factID =
    bindR (slice_record ''projectPublishedFacts'' sl factID) (\<lambda>fct.
    if SchemaRef (Envelope fct) \<noteq> SchemaRuntimePublishedFact then Inr facts
    else Inr (facts @ [\<lparr>PubFactID = RecordID (Envelope fct), PubKind = payloadString (Body fct) ''kind'',
      PubData = payloadMap (Body fct) ''data''\<rparr>]))"

definition projectPublishedFacts :: "Slice \<Rightarrow> string \<Rightarrow> kerror + PublishedFact list" where
  "projectPublishedFacts sl owner = foldR (project_published sl) [] (owner_path sl owner)"

definition slices_by_frontier :: "Slice list \<Rightarrow> string \<rightharpoonup> Slice" where
  "slices_by_frontier childSlices =
    fold (\<lambda>sl m. case SliceFrontier sl of None \<Rightarrow> m | Some f \<Rightarrow> m(FrontierID f \<mapsto> sl)) childSlices Map.empty"

definition project_child :: "(string \<rightharpoonup> Slice) \<Rightarrow> EffectiveChild list \<Rightarrow> ExecutionRelation \<Rightarrow> kerror + EffectiveChild list" where
  "project_child byFrontier children relation =
    (if ChildFrontierID relation = [] then Inr children
     else
       (case byFrontier (ChildFrontierID relation) of
          None \<Rightarrow> Inr children
        | Some childSlice \<Rightarrow>
           (case SliceFrontier childSlice of
              None \<Rightarrow> Inl (Plain ''effective history: child slice carries no frontier'' [ChildFrontierID relation])
            | Some f \<Rightarrow>
               if TargetTraceOwnerID f \<noteq> ChildExecutionID relation
               then Inl (Plain ''effective history: frontier targets another execution than the relation's child''
                 [ChildFrontierID relation, TargetTraceOwnerID f, ChildExecutionID relation])
               else
                 bindR (ProjectExecution childSlice (ChildExecutionID relation) None) (\<lambda>child.
                 Inr (children @ [\<lparr>ChildRelation = relation, ChildExecution = child\<rparr>])))))"

definition ProjectEffectiveHistory :: "Slice \<Rightarrow> string \<Rightarrow> Slice list \<Rightarrow> kerror + EffectiveHistory" where
  "ProjectEffectiveHistory rootSlice rootOwner childSlices =
    bindR (ProjectExecution rootSlice rootOwner None) (\<lambda>root.
    bindR (ProjectExecutionRelations rootSlice rootOwner) (\<lambda>relations.
    bindR (foldR (project_child (slices_by_frontier childSlices)) [] (activeRelations relations)) (\<lambda>children.
    bindR (projectPublishedFacts rootSlice rootOwner) (\<lambda>published.
    Inr \<lparr>HistoryRoot = root, HistoryRelations = relations, HistoryChildren = children, HistoryPublished = published\<rparr>))))"

text \<open>Each resolution has a query that can fail, named by its frontier.\<close>

definition resolve_child :: "(string \<Rightarrow> kerror option) \<Rightarrow> ReadContext \<Rightarrow> store \<Rightarrow> Slice list \<Rightarrow> ExecutionRelation
    \<Rightarrow> kerror + Slice list" where
  "resolve_child query reader s childSlices relation =
    (if ChildFrontierID relation = [] then Inr childSlices
     else
       bindR (ResolveFrontier (query (ChildFrontierID relation)) reader (ChildFrontierID relation) ModeBoth s) (\<lambda>sl.
       Inr (childSlices @ [sl])))"

definition ProjectEffectiveHistoryFromStore :: "(string \<Rightarrow> kerror option) \<Rightarrow> ReadContext \<Rightarrow> Frontier \<Rightarrow> store
    \<Rightarrow> kerror + EffectiveHistory" where
  "ProjectEffectiveHistoryFromStore query reader cutoff s =
    bindR (ResolveFrontier (query (FrontierID cutoff)) reader (FrontierID cutoff) ModeBoth s) (\<lambda>rootSlice.
    bindR (ProjectExecutionRelations rootSlice (TargetTraceOwnerID cutoff)) (\<lambda>relations.
    bindR (foldR (resolve_child query reader s) [] (activeRelations relations)) (\<lambda>childSlices.
    ProjectEffectiveHistory rootSlice (TargetTraceOwnerID cutoff) childSlices)))"

end
