(* ===== verification/Append_Staging.thy ===== *)
theory Append_Staging
  imports Store_Append
begin

text \<open>
  What the statements of a transaction change, and what \<open>prepareAppend\<close> stages: consecutive
  ordinals for every owner from its next one, one commit receipt a fact, parents that are
  retained or staged before, ids that are the record digests.
\<close>

section \<open>Inversion of the statements\<close>

lemma insert_Inr [result_simps]:
  "insert_intent r d = Inr d' \<longleftrightarrow> IntentID r \<notin> IntentID ` set (AppendIntents d)
     \<and> d' = d\<lparr>AppendIntents := AppendIntents d @ [r]\<rparr>"
  "insert_context c d = Inr d' \<longleftrightarrow> CtxID c \<notin> CtxID ` set (Contexts d) \<and> CtxIntent c \<in> IntentID ` set (AppendIntents d)
     \<and> d' = d\<lparr>Contexts := Contexts d @ [c]\<rparr>"
  "insert_record w d = Inr d' \<longleftrightarrow> RowID w = RowDigest w \<and> RowID w \<notin> RowID ` set (Records d)
     \<and> RowIntent w \<in> IntentID ` set (AppendIntents d) \<and> d' = d\<lparr>Records := Records d @ [w]\<rparr>"
  "insert_edge e d = Inr d' \<longleftrightarrow> 0 \<le> EdgePosition e
     \<and> (EdgeChild e, EdgePosition e) \<notin> (\<lambda>r. (EdgeChild r, EdgePosition r)) ` set (RecordEdges d)
     \<and> EdgeParent e \<in> RowID ` set (Records d) \<and> EdgeChild e \<in> RowID ` set (Records d)
     \<and> d' = d\<lparr>RecordEdges := RecordEdges d @ [e]\<rparr>"
  "insert_path p d = Inr d' \<longleftrightarrow> 0 \<le> PathOrdinal p
     \<and> (PathRef p, PathOrdinal p) \<notin> (\<lambda>r. (PathRef r, PathOrdinal r)) ` set (PathEntries d)
     \<and> PathCommit p \<notin> PathCommit ` set (PathEntries d)
     \<and> PathRecord p \<in> RowID ` set (Records d) \<and> PathIntent p \<in> IntentID ` set (AppendIntents d)
     \<and> d' = d\<lparr>PathEntries := PathEntries d @ [p]\<rparr>"
  "upsert_ordinal ow n d = Inr d' \<longleftrightarrow> 0 \<le> n \<and> d' = d\<lparr>OwnerOrdinals := AList.update ow n (OwnerOrdinals d)\<rparr>"
  by (auto simp: insert_defs bindR_eq_Inr)

definition edge_rows :: "string \<Rightarrow> string list \<Rightarrow> edge_row list" where
  "edge_rows child parents =
    map (\<lambda>(i, p). \<lparr>EdgeParent = p, EdgeChild = child, EdgePosition = int i\<rparr>) (enumerate 0 parents)"

lemma insert_edges_Inr:
  assumes "insert_edges child parents d = Inr d'"
  shows "d' = d\<lparr>RecordEdges := RecordEdges d @ edge_rows child parents\<rparr> \<and> set parents \<subseteq> RowID ` set (Records d)"
proof -
  have "foldR (\<lambda>d (i, p). insert_edge \<lparr>EdgeParent = p, EdgeChild = child, EdgePosition = int i\<rparr> d) d (enumerate n parents) = Inr d' \<Longrightarrow>
    d' = d\<lparr>RecordEdges := RecordEdges d @ map (\<lambda>(i, p). \<lparr>EdgeParent = p, EdgeChild = child, EdgePosition = int i\<rparr>)
      (enumerate n parents)\<rparr> \<and> set parents \<subseteq> RowID ` set (Records d)" for n
    by (induction parents arbitrary: d n) (fastforce simp: bindR_eq_Inr insert_Inr)+
  then show ?thesis using assms by (simp add: insert_edges_def edge_rows_def)
qed

lemma factExistsTx_iff: "factExistsTx d i \<longleftrightarrow> i \<in> RowID ` set (Records d)"
  unfolding factExistsTx_def by (simp only: recs.look_None not_not)

text \<open>A record is shared, or it is a new row with its edges.\<close>

lemma insertRecordIfMissingTx_Inr:
  assumes "insertRecordIfMissingTx r intent d = Inr d'"
  obtains (shared) existing where "RecordID (Envelope r) \<in> RowID ` set (Records d)" "d' = d"
      "readRecordTx d (RecordID (Envelope r)) = Inr existing" "recordContentMatches existing r"
  | (fresh) "RecordID (Envelope r) \<notin> RowID ` set (Records d)" "Digest (Envelope r) = RecordID (Envelope r)"
      "d' = d\<lparr>Records := Records d @ [record_row_of r intent],
             RecordEdges := RecordEdges d @ edge_rows (RecordID (Envelope r)) (elems (CausedByIDs (Envelope r)))\<rparr>"
      "set (elems (CausedByIDs (Envelope r))) \<subseteq> insert (RecordID (Envelope r)) (RowID ` set (Records d))"
      "intent \<in> IntentID ` set (AppendIntents d)"
proof (cases "factExistsTx d (RecordID (Envelope r))")
  case True
  then have "RecordID (Envelope r) \<in> RowID ` set (Records d)" by (simp only: factExistsTx_iff)
  moreover have "\<exists>existing. readRecordTx d (RecordID (Envelope r)) = Inr existing \<and> recordContentMatches existing r \<and> d' = d"
    using True assms by (auto simp: insertRecordIfMissingTx_def Let_def bindR_eq_Inr split: if_splits)
  ultimately show ?thesis using shared by blast
next
  case False
  then have f: "RecordID (Envelope r) \<notin> RowID ` set (Records d)" by (simp only: factExistsTx_iff not_False_eq_True)
  obtain d1 where d1: "insert_record (record_row_of r intent) d = Inr d1"
      "insert_edges (RecordID (Envelope r)) (elems (CausedByIDs (Envelope r))) d1 = Inr d'"
    and dig: "Digest (Envelope r) = RecordID (Envelope r)"
  proof (cases "Digest (Envelope r) = RecordID (Envelope r)")
    case True
    then have "bindR (insert_record (record_row_of r intent) d)
        (insert_edges (RecordID (Envelope r)) (elems (CausedByIDs (Envelope r)))) = Inr d'"
      using assms False by (simp add: insertRecordIfMissingTx_def Let_def)
    with True that show thesis unfolding bindR_eq_Inr by blast
  next
    case neq: False
    with assms show thesis by (simp add: insertRecordIfMissingTx_def Let_def)
  qed
  from d1(1) have "d1 = d\<lparr>Records := Records d @ [record_row_of r intent]\<rparr>" "intent \<in> IntentID ` set (AppendIntents d)"
    by (auto simp: insert_Inr record_row_of_def)
  with insert_edges_Inr[OF d1(2)] f dig show ?thesis
    by (intro fresh) (auto simp: record_row_of_def)
qed

definition entry_of :: "string \<Rightarrow> Record \<Rightarrow> string \<Rightarrow> path_row" where
  "entry_of intent r c =
    (case View r of
       None \<Rightarrow> \<lparr>PathRef = [], PathOrdinal = -1, PathRecord = RecordID (Envelope r), PathContext = [],
         PathKind = [], PathIntent = intent, PathCommit = c\<rparr>
     | Some v \<Rightarrow> \<lparr>PathRef = ViewOwner v, PathOrdinal = ViewOrdinal v, PathRecord = RecordID (Envelope r),
         PathContext = ViewContextRef v, PathKind = ViewKindLabel v, PathIntent = intent, PathCommit = c\<rparr>)"

lemma insertFactRowTx_Inr:
  assumes "insertFactRowTx r c intent d = Inr d'"
  obtains d1 where "insertRecordIfMissingTx r intent d = Inr d1" "insert_path (entry_of intent r c) d1 = Inr d'"
    "View r \<noteq> None"
  using assms by (auto simp: insertFactRowTx_def entry_of_def bindR_eq_Inr split: option.splits)

lemma insertFactRowTx_frame:
  assumes "insertFactRowTx r c intent d = Inr d'"
  shows "\<exists>rs es. d' = d\<lparr>Records := Records d @ rs, RecordEdges := RecordEdges d @ es,
      PathEntries := PathEntries d @ [entry_of intent r c]\<rparr>
    \<and> RecordID (Envelope r) \<in> RowID ` set (Records d')
    \<and> (rs = [] \<and> es = [] \<or> rs = [record_row_of r intent]
        \<and> es = edge_rows (RecordID (Envelope r)) (elems (CausedByIDs (Envelope r))))"
proof -
  obtain d1 where d1: "insertRecordIfMissingTx r intent d = Inr d1" "insert_path (entry_of intent r c) d1 = Inr d'"
    using assms by (rule insertFactRowTx_Inr)
  have p: "d' = d1\<lparr>PathEntries := PathEntries d1 @ [entry_of intent r c]\<rparr>" using d1(2) by (simp add: insert_Inr)
  show ?thesis
    using d1(1)
  proof (cases rule: insertRecordIfMissingTx_Inr)
    case (shared existing)
    with p show ?thesis by (intro exI[of _ "[]"]) simp
  next
    case fresh
    with p show ?thesis
      by (intro exI[of _ "[record_row_of r intent]"] exI[of _ "edge_rows (RecordID (Envelope r)) (elems (CausedByIDs (Envelope r)))"])
        (simp add: record_row_of_def)
  qed
qed

section \<open>Staging\<close>

lemma prepare_draft_Inr:
  assumes "prepare_draft lib d nc g rc wp (st, k) draft = Inr (st', k')"
  obtains causedBy schemaRef recID where
    "resolvedCauses g draft (localFactIDs st) = Inr causedBy" "validateCausalParentsTx d (stagedIDs st) causedBy = Inr ()"
    "resolveSchemaRef draft = Inr schemaRef"
    "RecordDigest lib schemaRef (DraftMode draft) (DraftPayload draft) causedBy (planID wp) = Inr recID"
    "k' = k + 1"
    "st' = st\<lparr>localFactIDs := (if AppendLocalID draft \<noteq> [] then (localFactIDs st)(AppendLocalID draft \<mapsto> recID)
                             else localFactIDs st),
            stFacts := stFacts st @ [draft_record g rc wp draft schemaRef causedBy recID k],
            stCommits := stCommits st @ [commit_receipt (nc + int (length (stFacts st)))],
            stEdges := stEdges st @ map (\<lambda>p. (p, recID)) causedBy,
            stagedIDs := insert recID (stagedIDs st)\<rparr>"
  using assms unfolding prepare_draft_def by (auto simp: bindR_eq_Inr)

text \<open>The owner and the ordinal of a staged fact.\<close>

definition fact_slot :: "Record \<Rightarrow> string \<times> int" where
  "fact_slot r = (case View r of None \<Rightarrow> ([], -1) | Some v \<Rightarrow> (ViewOwner v, ViewOrdinal v))"

definition commits_from :: "int \<Rightarrow> nat \<Rightarrow> string list" where
  "commits_from nc n = map (\<lambda>k. commit_receipt (nc + int k)) [0..<n]"

lemma commits_from_Suc: "commits_from nc (Suc n) = commits_from nc n @ [commit_receipt (nc + int n)]"
  by (simp add: commits_from_def)

text \<open>The owner, the draft's mode, schema and payload, as the staged fact carries them.\<close>

definition fact_origin :: "Record \<Rightarrow> string \<times> string \<times> string \<times> gmap" where
  "fact_origin r = (fst (fact_slot r), Mode (Envelope r), SchemaRef (Envelope r), Body r)"

definition draft_origin :: "AppendGroup \<times> RecordDraft \<Rightarrow> string \<times> string \<times> string \<times> gmap" where
  "draft_origin gd = (TraceOwnerID (fst gd), DraftMode (snd gd), DraftSchemaRef (snd gd), DraftPayload (snd gd))"

lemma draft_record_slot [simp]: "fact_slot (draft_record g rc wp draft s cs i k) = (groupOwner g, k)"
  by (simp add: fact_slot_def draft_record_def)

text \<open>What a staged fact is: the digest is its id, its witness is retained with the batch, its
  parents are retained or staged before it.\<close>

definition fact_ok :: "golib \<Rightarrow> db \<Rightarrow> string set \<Rightarrow> Record \<Rightarrow> bool" where
  "fact_ok lib d before r \<longleftrightarrow>
    (\<exists>g rc wp draft s cs i k. r = draft_record g rc wp draft s cs i k
      \<and> RecordDigest lib s (DraftMode draft) (DraftPayload draft) cs (planID wp) = Inr i
      \<and> set cs \<subseteq> RowID ` set (Records d) \<union> before)"

fun facts_ok :: "golib \<Rightarrow> db \<Rightarrow> string set \<Rightarrow> Record list \<Rightarrow> bool" where
  "facts_ok lib d before [] = True"
| "facts_ok lib d before (r # rs) = (fact_ok lib d before r \<and> facts_ok lib d (insert (RecordID (Envelope r)) before) rs)"

lemma facts_ok_append: "facts_ok lib d before (rs @ ss) \<longleftrightarrow>
  facts_ok lib d before rs \<and> facts_ok lib d (before \<union> (\<lambda>r. RecordID (Envelope r)) ` set rs) ss"
  by (induction rs arbitrary: before) auto

lemma validateCausalParents_set:
  "validateCausalParentsTx d staged cs = Inr () \<Longrightarrow> set cs \<subseteq> RowID ` set (Records d) \<union> staged"
  by (auto simp: validateCausalParentsTx_def factExistsTx_iff find_None_iff split: option.splits)

definition staged_facts_ok :: "golib \<Rightarrow> db \<Rightarrow> int \<Rightarrow> staging \<Rightarrow> bool" where
  "staged_facts_ok lib d nc st \<longleftrightarrow>
    stagedIDs st = (\<lambda>r. RecordID (Envelope r)) ` set (stFacts st) \<and> facts_ok lib d {} (stFacts st)
    \<and> stCommits st = commits_from nc (length (stFacts st))
    \<and> stEdges st = concat (map (\<lambda>r. map (\<lambda>p. (p, RecordID (Envelope r))) (elems (CausedByIDs (Envelope r)))) (stFacts st))"

lemma prepare_draft_ok:
  assumes "prepare_draft lib d nc g rc wp (st, k) draft = Inr (st', k')" "staged_facts_ok lib d nc st"
  shows "staged_facts_ok lib d nc st'"
  using assms(1)
proof (cases rule: prepare_draft_Inr)
  case (1 causedBy schemaRef recID)
  let ?r = "draft_record g rc wp draft schemaRef causedBy recID k"
  have r: "RecordID (Envelope ?r) = recID" "elems (CausedByIDs (Envelope ?r)) = causedBy"
    by (simp_all add: draft_record_def)
  have "fact_ok lib d (stagedIDs st) ?r"
    unfolding fact_ok_def using 1(4) validateCausalParents_set[OF 1(2)] by blast
  with assms(2) 1(6) r show ?thesis
    by (auto simp: staged_facts_ok_def facts_ok_append commits_from_Suc)
qed

lemma prepare_drafts:
  assumes "foldR (prepare_draft lib d nc g rc wp) (st, k) drafts = Inr (st', k')" "staged_facts_ok lib d nc st"
  shows "\<exists>fs. staged_facts_ok lib d nc st' \<and> stFacts st' = stFacts st @ fs \<and> k' = k + int (length drafts)
    \<and> map fact_slot fs = map (\<lambda>n. (groupOwner g, k + int n)) [0..<length drafts]
    \<and> stagedNext st' = stagedNext st \<and> stRanges st' = stRanges st \<and> stContexts st' = stContexts st
    \<and> stWitnesses st' = stWitnesses st \<and> stContextReceipts st' = stContextReceipts st
    \<and> (\<forall>f\<in>set fs. WitnessRef (Envelope f) = planID wp)
    \<and> map fact_origin fs = map (\<lambda>draft. draft_origin (g, draft)) drafts"
  using assms
proof (induction drafts arbitrary: st k)
  case (Cons draft drafts)
  obtain st1 k1 where s1: "prepare_draft lib d nc g rc wp (st, k) draft = Inr (st1, k1)"
      "foldR (prepare_draft lib d nc g rc wp) (st1, k1) drafts = Inr (st', k')"
    using Cons.prems(1) by (auto simp: bindR_eq_Inr)
  obtain fs where fs: "staged_facts_ok lib d nc st' \<and> stFacts st' = stFacts st1 @ fs \<and> k' = k1 + int (length drafts)
    \<and> map fact_slot fs = map (\<lambda>n. (groupOwner g, k1 + int n)) [0..<length drafts]
    \<and> stagedNext st' = stagedNext st1 \<and> stRanges st' = stRanges st1 \<and> stContexts st' = stContexts st1
    \<and> stWitnesses st' = stWitnesses st1 \<and> stContextReceipts st' = stContextReceipts st1
    \<and> (\<forall>f\<in>set fs. WitnessRef (Envelope f) = planID wp)
    \<and> map fact_origin fs = map (\<lambda>draft. draft_origin (g, draft)) drafts"
    using Cons.IH[OF s1(2) prepare_draft_ok[OF s1(1) Cons.prems(2)]] by blast
  from s1(1) show ?case
  proof (cases rule: prepare_draft_Inr)
    case (1 causedBy schemaRef recID)
    let ?r = "draft_record g rc wp draft schemaRef causedBy recID k"
    have "map (\<lambda>n. (groupOwner g, k + int n)) [0..<length (draft # drafts)]
        = (groupOwner g, k) # map (\<lambda>n. (groupOwner g, k1 + int n)) [0..<length drafts]"
      using 1(5) by (simp add: upt_conv_Cons map_Suc_upt[symmetric] algebra_simps del: upt_Suc)
    moreover have "WitnessRef (Envelope ?r) = planID wp" by (simp add: draft_record_def)
    moreover have "schemaRef = DraftSchemaRef draft" using 1(3) by (simp add: resolveSchemaRef_def split: if_splits)
    then have "fact_origin ?r = draft_origin (g, draft)"
      by (simp add: fact_origin_def draft_origin_def) (simp add: draft_record_def groupOwner_def)
    ultimately show ?thesis using fs 1(5,6) by (intro exI[of _ "?r # fs"]) auto
  qed
qed simp


section \<open>Ordinals of a batch\<close>

text \<open>The ordinals staged for an owner.\<close>

definition ords :: "Record list \<Rightarrow> string \<Rightarrow> int list" where
  "ords fs ow = map snd (filter (\<lambda>e. fst e = ow) (map fact_slot fs))"

lemma ords_append: "ords (fs @ gs) ow = ords fs ow @ ords gs ow"
  by (simp add: ords_def)

definition run_from :: "int \<Rightarrow> nat \<Rightarrow> int list" where
  "run_from k n = map (\<lambda>j. k + int j) [0..<n]"

lemma run_from_append: "run_from k m @ run_from (k + int m) n = run_from k (m + n)"
proof -
  have "map (\<lambda>j. k + int m + int j) [0..<n] = map (\<lambda>j. k + int j) [m..<m + n]"
    by (rule nth_equalityI) auto
  then show ?thesis unfolding run_from_def by (simp add: upt_add_eq_append[of 0 m n])
qed

lemma length_run_from [simp]: "length (run_from k n) = n"
  by (simp add: run_from_def)

lemma ords_group:
  "map fact_slot fs = map (\<lambda>n. (w, k + int n)) [0..<m] \<Longrightarrow>
   ords fs ow = (if ow = w then run_from k m else [])"
  by (simp add: ords_def run_from_def filter_map comp_def)

text \<open>The ordinals of every owner are consecutive from its next ordinal in the database, and the
  ranges of the receipt are the first and the last of them.\<close>

definition ordinals_ok :: "db \<Rightarrow> staging \<Rightarrow> bool" where
  "ordinals_ok d st \<longleftrightarrow> distinct (map fst (stRanges st)) \<and>
    (\<forall>ow. ords (stFacts st) ow = run_from (nextOwnerOrdinalTx d ow) (length (ords (stFacts st) ow))
      \<and> (\<forall>n. map_of (stagedNext st) ow = Some n \<longrightarrow> n = nextOwnerOrdinalTx d ow + int (length (ords (stFacts st) ow)))
      \<and> map_of (stRanges st) ow = (if ords (stFacts st) ow = [] then None
           else Some (nextOwnerOrdinalTx d ow, nextOwnerOrdinalTx d ow + int (length (ords (stFacts st) ow)) - 1)))"

lemma prepare_group_Inr:
  assumes "prepare_group lib d intent ctx nc st (n, g) = Inr st'" "staged_facts_ok lib d nc st"
    and "map_of (stagedNext st) (groupOwner g) \<noteq> None" "elems (FactDrafts g) \<noteq> []"
  obtains rc wp k fs where "resolveGroupContextTx lib d intent n g ctx = Inr rc" "ordinaryWitnessPlan lib rc ctx = Inr wp"
    "map_of (stagedNext st) (groupOwner g) = Some k" "staged_facts_ok lib d nc st'"
    "stFacts st' = stFacts st @ fs" "map fact_slot fs = map (\<lambda>j. (groupOwner g, k + int j)) [0..<length (elems (FactDrafts g))]"
    "stagedNext st' = AList.update (groupOwner g) (k + int (length (elems (FactDrafts g)))) (stagedNext st)"
    "stRanges st' = range_update (groupOwner g) k (k + int (length (elems (FactDrafts g))) - 1) (stRanges st)"
    "stContexts st' = (if contextExistsTx d (ContextID rc) then stContexts st else stContexts st @ [rc])"
    "stWitnesses st' = addWitnessPlan wp (addWitnessPlan (rootWitnessPlan lib) (stWitnesses st))"
    "\<forall>f\<in>set fs. WitnessRef (Envelope f) = planID wp"
    "map fact_origin fs = map (\<lambda>draft. draft_origin (g, draft)) (elems (FactDrafts g))"
proof -
  obtain k where k: "map_of (stagedNext st) (groupOwner g) = Some k" using assms(3) by blast
  obtain rc wp where rc: "resolveGroupContextTx lib d intent n g ctx = Inr rc" "ordinaryWitnessPlan lib rc ctx = Inr wp"
    using assms(1,4) by (auto simp: prepare_group_def Let_def bindR_eq_Inr)
  let ?st = "st\<lparr>stContexts := (if contextExistsTx d (ContextID rc) then stContexts st else stContexts st @ [rc]),
    stContextReceipts := stContextReceipts st @ [ContextID rc],
    stWitnesses := addWitnessPlan wp (addWitnessPlan (rootWitnessPlan lib) (stWitnesses st))\<rparr>"
  have ok: "staged_facts_ok lib d nc ?st" using assms(2) by (simp add: staged_facts_ok_def)
  obtain s1 fin where s1: "foldR (prepare_draft lib d nc g rc wp) (?st, k) (elems (FactDrafts g)) = Inr (s1, fin)"
    "st' = s1\<lparr>stagedNext := AList.update (groupOwner g) fin (stagedNext s1),
              stRanges := range_update (groupOwner g) k (fin - 1) (stRanges s1)\<rparr>"
    using assms(1,4) rc k by (auto simp: prepare_group_def Let_def bindR_eq_Inr)
  have "staged_facts_ok lib d nc st' \<longleftrightarrow> staged_facts_ok lib d nc s1" by (simp add: s1(2) staged_facts_ok_def)
  with prepare_drafts[OF s1(1) ok] s1(2) rc k that show ?thesis by auto
qed

lemma range_update_map: "map_of (range_update w a b rs) =
    (map_of rs)(w \<mapsto> (case map_of rs w of None \<Rightarrow> (a, b) | Some r \<Rightarrow> (fst r, b)))"
  by (simp add: range_update_def update_conv' split: option.splits)

lemma range_update_distinct: "distinct (map fst rs) \<Longrightarrow> distinct (map fst (range_update w a b rs))"
  by (simp add: range_update_def distinct_update split: option.splits)

lemma prepare_group_ordinals:
  assumes "prepare_group lib d intent ctx nc st (n, g) = Inr st'" "staged_facts_ok lib d nc st"
    and "map_of (stagedNext st) (groupOwner g) \<noteq> None" "ordinals_ok d st"
  shows "ordinals_ok d st'"
proof (cases "elems (FactDrafts g) = []")
  case True
  with assms show ?thesis by (simp add: prepare_group_def Let_def)
next
  case False
  let ?w = "groupOwner g" and ?m = "length (elems (FactDrafts g))"
  from assms(1-3) False show ?thesis
  proof (cases rule: prepare_group_Inr)
    case (1 rc wp k fs)
    have k: "k = nextOwnerOrdinalTx d ?w + int (length (ords (stFacts st) ?w))"
      using assms(4) 1(3) by (simp add: ordinals_ok_def)
    have o: "ords (stFacts st') ow = ords (stFacts st) ow @ (if ow = ?w then run_from k ?m else [])" for ow
      using 1(5) ords_group[OF 1(6), of ow] by (simp add: ords_append)
    have old: "ords (stFacts st) ow = run_from (nextOwnerOrdinalTx d ow) (length (ords (stFacts st) ow))" for ow
      using assms(4) by (simp add: ordinals_ok_def)
    have run: "ords (stFacts st') ow = run_from (nextOwnerOrdinalTx d ow) (length (ords (stFacts st') ow))" for ow
    proof (cases "ow = ?w")
      case True
      have "ords (stFacts st') ?w = run_from (nextOwnerOrdinalTx d ?w) (length (ords (stFacts st) ?w)) @ run_from k ?m"
        using o[of ?w] old[of ?w] by simp
      also have "\<dots> = run_from (nextOwnerOrdinalTx d ?w) (length (ords (stFacts st) ?w) + ?m)"
        unfolding k by (rule run_from_append)
      finally show ?thesis using True by simp
    next
      case False
      then show ?thesis using old[of ow] by (simp add: o)
    qed
    have m0: "?m \<noteq> 0" using False by simp
    have "map_of (stRanges st') ow = (if ords (stFacts st') ow = [] then None
        else Some (nextOwnerOrdinalTx d ow, nextOwnerOrdinalTx d ow + int (length (ords (stFacts st') ow)) - 1))" for ow
      using assms(4) m0 by (auto simp: 1(8) range_update_map o k ordinals_ok_def run_from_def)
    moreover have "n = nextOwnerOrdinalTx d ow + int (length (ords (stFacts st') ow))"
      if "map_of (stagedNext st') ow = Some n" for ow n
      using that assms(4) by (auto simp: 1(7) update_conv' o k ordinals_ok_def split: if_splits)
    moreover have "distinct (map fst (stRanges st'))"
      using assms(4) by (simp add: 1(8) range_update_distinct ordinals_ok_def)
    ultimately show ?thesis using run unfolding ordinals_ok_def by blast
  qed
qed

lemma start_ordinals_map:
  "map_of (start_ordinals d gs) ow = (if ow \<in> groupOwner ` set gs then Some (nextOwnerOrdinalTx d ow) else None)"
proof -
  have "map_of (fold (\<lambda>g m. if map_of m (groupOwner g) = None
      then AList.update (groupOwner g) (nextOwnerOrdinalTx d (groupOwner g)) m else m) gs m) ow
    = (case map_of m ow of Some n \<Rightarrow> Some n
       | None \<Rightarrow> if ow \<in> groupOwner ` set gs then Some (nextOwnerOrdinalTx d ow) else None)" for m
    by (induction gs arbitrary: m) (auto simp: update_conv' split: option.splits)
  then show ?thesis by (simp add: start_ordinals_def)
qed

lemma initial_ok: "staged_facts_ok lib d nc (initial_staging d gs)" "ordinals_ok d (initial_staging d gs)"
  by (auto simp: staged_facts_ok_def initial_staging_def commits_from_def ordinals_ok_def ords_def run_from_def
      start_ordinals_map)

lemma prepare_group_domain:
  assumes "prepare_group lib d intent ctx nc st (n, g) = Inr st'" "staged_facts_ok lib d nc st"
    and "map_of (stagedNext st) (groupOwner g) \<noteq> None"
  shows "staged_facts_ok lib d nc st' \<and> (\<forall>ow. map_of (stagedNext st) ow \<noteq> None \<longrightarrow> map_of (stagedNext st') ow \<noteq> None)"
proof (cases "elems (FactDrafts g) = []")
  case True
  with assms show ?thesis by (simp add: prepare_group_def Let_def)
next
  case False
  from assms False show ?thesis
    by (cases rule: prepare_group_Inr) (simp add: update_conv')
qed

text \<open>The invariant over the groups of a batch.\<close>

lemma prepare_groups_ok:
  assumes "foldR (prepare_group lib d intent ctx nc) st ngs = Inr st'"
    and "staged_facts_ok lib d nc st" "ordinals_ok d st" "\<forall>(n, g)\<in>set ngs. map_of (stagedNext st) (groupOwner g) \<noteq> None"
  shows "staged_facts_ok lib d nc st' \<and> ordinals_ok d st'"
  using assms
proof (induction ngs arbitrary: st)
  case (Cons ng ngs)
  obtain n g where ng: "ng = (n, g)" by (cases ng)
  obtain s1 where s1: "prepare_group lib d intent ctx nc st (n, g) = Inr s1"
      "foldR (prepare_group lib d intent ctx nc) s1 ngs = Inr st'"
    using Cons.prems(1) by (auto simp: ng bindR_eq_Inr)
  have dom: "map_of (stagedNext st) (groupOwner g) \<noteq> None" using Cons.prems(4) ng by simp
  note step = prepare_group_domain[OF s1(1) Cons.prems(2) dom]
  have "\<forall>(n, g)\<in>set ngs. map_of (stagedNext s1) (groupOwner g) \<noteq> None"
    using Cons.prems(4) step by auto
  with Cons.IH[OF s1(2)] step prepare_group_ordinals[OF s1(1) Cons.prems(2) dom Cons.prems(3)]
  show ?case by blast
qed simp

text \<open>The facts staged for a batch are its drafts, in order; every fact's witness is planned, and
  so is the root witness, first.\<close>

definition plans_ok :: "golib \<Rightarrow> witnessPlan omap \<Rightarrow> bool" where
  "plans_ok lib m \<longleftrightarrow> om_ok m \<and> (\<forall>i p. fst m i = Some p \<longrightarrow> planID p = i)
    \<and> (\<forall>p\<in>ran (fst m). p = rootWitnessPlan lib \<or> (\<exists>rc ctx. ordinaryWitnessPlan lib rc ctx = Inr p))
    \<and> (snd m = [] \<or> hd (snd m) = RootWitnessRecordIDMust lib)"

lemma addWitnessPlan_dom: "fst (addWitnessPlan p m) = (fst m)(planID p \<mapsto> p)"
  by (simp add: addWitnessPlan_def om_put_def)

lemma addWitnessPlan_ok:
  assumes "plans_ok lib m" "p = rootWitnessPlan lib \<or> snd m \<noteq> [] \<and> (\<exists>rc ctx. ordinaryWitnessPlan lib rc ctx = Inr p)"
  shows "plans_ok lib (addWitnessPlan p m)"
proof -
  have "om_ok (addWitnessPlan p m)"
    using assms(1) om_overwrite.invar_insert[of m "planID p" p] by (simp add: plans_ok_def addWitnessPlan_def)
  moreover have "hd (snd (addWitnessPlan p m)) = RootWitnessRecordIDMust lib"
  proof (cases "snd m")
    case Nil
    then have "fst m = Map.empty" using assms(1) by (simp add: plans_ok_def om_ok_def)
    with Nil assms(2) show ?thesis by (auto simp: addWitnessPlan_def om_put_def rootWitnessPlan_def)
  next
    case (Cons i js)
    with assms(1) show ?thesis by (simp add: addWitnessPlan_def om_put_def plans_ok_def)
  qed
  moreover have "planID q = i" if "fst (addWitnessPlan p m) i = Some q" for i q
    using that assms(1) by (auto simp: addWitnessPlan_dom plans_ok_def split: if_splits)
  moreover have "q = rootWitnessPlan lib \<or> (\<exists>rc ctx. ordinaryWitnessPlan lib rc ctx = Inr q)"
    if "q \<in> ran (fst (addWitnessPlan p m))" for q
  proof -
    have "q = p \<or> q \<in> ran (fst m)" using that by (auto simp: addWitnessPlan_dom ran_def split: if_splits)
    with assms show ?thesis unfolding plans_ok_def by blast
  qed
  ultimately show ?thesis unfolding plans_ok_def by blast
qed

definition staged_origins :: "staging \<Rightarrow> (AppendGroup \<times> RecordDraft) list \<Rightarrow> bool" where
  "staged_origins st gds \<longleftrightarrow> map fact_origin (stFacts st) = map draft_origin gds"

definition witnesses_planned :: "golib \<Rightarrow> staging \<Rightarrow> bool" where
  "witnesses_planned lib st \<longleftrightarrow> plans_ok lib (stWitnesses st)
    \<and> (\<forall>f\<in>set (stFacts st). fst (stWitnesses st) (WitnessRef (Envelope f)) \<noteq> None)"

lemma prepare_group_planned:
  assumes "prepare_group lib d intent ctx nc st (n, g) = Inr st'" "staged_facts_ok lib d nc st"
    and "map_of (stagedNext st) (groupOwner g) \<noteq> None"
    and "witnesses_planned lib st" "staged_origins st gds"
  shows "witnesses_planned lib st' \<and> staged_origins st' (gds @ map (\<lambda>draft. (g, draft)) (elems (FactDrafts g)))"
proof (cases "elems (FactDrafts g) = []")
  case True
  with assms show ?thesis by (simp add: prepare_group_def Let_def)
next
  case False
  from assms(1-3) False show ?thesis
  proof (cases rule: prepare_group_Inr)
    case (1 rc wp k fs)
    let ?m = "addWitnessPlan (rootWitnessPlan lib) (stWitnesses st)"
    have p: "plans_ok lib ?m" using assms(4) by (intro addWitnessPlan_ok) (simp_all add: witnesses_planned_def)
    have "snd ?m \<noteq> []"
    proof
      assume "snd ?m = []"
      then have "fst ?m = Map.empty" using p by (simp add: plans_ok_def om_ok_def)
      then show False by (simp add: addWitnessPlan_dom)
    qed
    then have "plans_ok lib (stWitnesses st')"
      unfolding 1(10) using 1(2) by (intro addWitnessPlan_ok[OF p]) blast
    moreover have "fst (stWitnesses st') (WitnessRef (Envelope f)) \<noteq> None" if "f \<in> set (stFacts st')" for f
      using that assms(4) 1(5,11) by (auto simp: 1(10) addWitnessPlan_dom witnesses_planned_def)
    moreover have "staged_origins st' (gds @ map (\<lambda>draft. (g, draft)) (elems (FactDrafts g)))"
      using assms(5) 1(5,12) by (simp add: staged_origins_def)
    ultimately show ?thesis by (simp add: witnesses_planned_def)
  qed
qed

lemma prepare_groups_planned:
  assumes "foldR (prepare_group lib d intent ctx nc) st ngs = Inr st'"
    and "staged_facts_ok lib d nc st" "\<forall>(n, g)\<in>set ngs. map_of (stagedNext st) (groupOwner g) \<noteq> None"
    and "witnesses_planned lib st" "staged_origins st gds"
  shows "witnesses_planned lib st'
    \<and> staged_origins st' (gds @ concat (map (\<lambda>(n, g). map (\<lambda>draft. (g, draft)) (elems (FactDrafts g))) ngs))"
  using assms
proof (induction ngs arbitrary: st gds)
  case (Cons ng ngs)
  obtain n g where ng: "ng = (n, g)" by (cases ng)
  obtain s1 where s1: "prepare_group lib d intent ctx nc st (n, g) = Inr s1"
      "foldR (prepare_group lib d intent ctx nc) s1 ngs = Inr st'"
    using Cons.prems(1) by (auto simp: ng bindR_eq_Inr)
  have dom: "map_of (stagedNext st) (groupOwner g) \<noteq> None" using Cons.prems(3) ng by simp
  note step = prepare_group_domain[OF s1(1) Cons.prems(2) dom]
  have "\<forall>(n, g)\<in>set ngs. map_of (stagedNext s1) (groupOwner g) \<noteq> None"
    using Cons.prems(3) step by auto
  with Cons.IH[OF s1(2)] step prepare_group_planned[OF s1(1) Cons.prems(2) dom Cons.prems(4,5)]
  show ?case by (fastforce simp: ng)
qed simp

lemma enumerate_groups: "concat (map (\<lambda>(n, g). f g) (enumerate k gs)) = concat (map f gs)"
  by (induction gs arbitrary: k) simp_all

lemma prepareAppend_Inr:
  assumes "prepareAppend lib d batch ctx = Inr (cs, ws, fs, r)"
  obtains nc st where "NextCommitSeq d = Some nc"
    "foldR (prepare_group lib d (AppendIntentID batch) ctx nc)
      (initial_staging d (elems (Groups batch))) (enumerate 0 (elems (Groups batch))) = Inr st"
    "cs = stContexts st" "ws = List.map_filter (fst (stWitnesses st)) (snd (stWitnesses st))" "fs = stFacts st"
    "r = \<lparr>ReceiptIntentID = AppendIntentID batch, FactIDs = factIDs (stFacts st), CommitReceipts = stCommits st,
       OwnerRanges = stRanges st, CausalEdges = stEdges st, ContextReceipts = stContextReceipts st\<rparr>"
    "staged_facts_ok lib d nc st" "ordinals_ok d st" "witnesses_planned lib st" "staged_origins st (batch_drafts batch)"
proof -
  obtain nc st where st: "NextCommitSeq d = Some nc"
    "foldR (prepare_group lib d (AppendIntentID batch) ctx nc)
      (initial_staging d (elems (Groups batch))) (enumerate 0 (elems (Groups batch))) = Inr st"
    "(cs, ws, fs, r) = (stContexts st, List.map_filter (fst (stWitnesses st)) (snd (stWitnesses st)), stFacts st,
      \<lparr>ReceiptIntentID = AppendIntentID batch, FactIDs = factIDs (stFacts st), CommitReceipts = stCommits st,
       OwnerRanges = stRanges st, CausalEdges = stEdges st, ContextReceipts = stContextReceipts st\<rparr>)"
    using assms by (auto simp: prepareAppend_def nextCommitSeqTx_def bindR_eq_Inr split: option.splits)
  have dom: "\<forall>(n, g)\<in>set (enumerate 0 (elems (Groups batch))).
      map_of (stagedNext (initial_staging d (elems (Groups batch)))) (groupOwner g) \<noteq> None"
    by (auto simp: initial_staging_def start_ordinals_map dest!: in_set_enumerate_eq[THEN iffD1])
  have "om_ok (om_empty :: witnessPlan omap)" by (rule om_overwrite.invar_empty)
  then have "witnesses_planned lib (initial_staging d (elems (Groups batch)))"
    by (simp add: witnesses_planned_def plans_ok_def initial_staging_def om_empty_def)
  moreover have "staged_origins (initial_staging d (elems (Groups batch))) []"
    by (simp add: staged_origins_def initial_staging_def)
  ultimately have "witnesses_planned lib st \<and> staged_origins st (batch_drafts batch)"
    using prepare_groups_planned[OF st(2) initial_ok(1) dom, where gds = "[]"] by (simp add: enumerate_groups batch_drafts_def)
  with prepare_groups_ok[OF st(2) initial_ok dom] st that show ?thesis by blast
qed

end
