(* ===== verification/Append_Effect.thy ===== *)
theory Append_Effect
  imports Append_Staging
begin

text \<open>
  What a committed append does to the database: the invariant \<open>db_ok\<close> and that appends keep
  it, and the refinement to the abstract store, which is one growing log of record ids per
  owner.
\<close>

section \<open>The invariant\<close>

text \<open>A record row is content-addressed, its body decodes, its parents and its witness are
  retained before it; only a root witness has no witness.\<close>

definition row_ok :: "string set \<Rightarrow> record_row \<Rightarrow> bool" where
  "row_ok before r \<longleftrightarrow> RowID r = RowDigest r
    \<and> set (elems (jsonToStrings (RowCausedBy r))) \<subseteq> before
    \<and> (if RowSchema r = RootWitnessSchemaRef then RowWitness r = [] else RowWitness r \<in> before)
    \<and> (\<exists>b. bodyFromJSON (RowBody r) = Inr b)"

fun rows_ok :: "string set \<Rightarrow> record_row list \<Rightarrow> bool" where
  "rows_ok before [] = True"
| "rows_ok before (r # rs) = (RowID r \<notin> before \<and> row_ok before r \<and> rows_ok (insert (RowID r) before) rs)"

lemma rows_ok_append: "rows_ok before (rs @ ss) \<longleftrightarrow> rows_ok before rs \<and> rows_ok (before \<union> RowID ` set rs) ss"
  by (induction rs arbitrary: before) auto

lemma rows_ok_distinct: "rows_ok before rs \<Longrightarrow> distinct (map RowID rs) \<and> RowID ` set rs \<inter> before = {}"
  by (induction rs arbitrary: before) auto

lemma row_ok_mono: "row_ok A r \<Longrightarrow> A \<subseteq> B \<Longrightarrow> row_ok B r"
  by (auto simp: row_ok_def split: if_splits)

lemma rows_ok_each: "rows_ok before rs \<Longrightarrow> r \<in> set rs \<Longrightarrow> row_ok (before \<union> RowID ` set rs) r"
proof (induction rs arbitrary: before)
  case (Cons s rs)
  show ?case
  proof (cases "r \<in> set rs")
    case True
    with Cons.prems have "row_ok (insert (RowID s) before \<union> RowID ` set rs) r"
      by (intro Cons.IH) simp_all
    then show ?thesis by (rule row_ok_mono) auto
  next
    case False
    with Cons.prems have "row_ok before r" by simp
    then show ?thesis by (rule row_ok_mono) auto
  qed
qed simp

text \<open>The entries of an owner, in the order they were written: their ordinals count from zero, and
  the next ordinal is their number.\<close>

definition owner_entries :: "db \<Rightarrow> string \<Rightarrow> path_row list" where
  "owner_entries d ow = filter (\<lambda>p. PathRef p = ow) (PathEntries d)"

definition owner_ok :: "db \<Rightarrow> string \<Rightarrow> bool" where
  "owner_ok d ow \<longleftrightarrow> map PathOrdinal (owner_entries d ow) = run_from 0 (length (owner_entries d ow))
    \<and> nextOwnerOrdinalTx d ow = int (length (owner_entries d ow))"

definition db_ok :: "db \<Rightarrow> bool" where
  "db_ok d \<longleftrightarrow> rows_ok {} (Records d) \<and> PathRecord ` set (PathEntries d) = RowID ` set (Records d)
    \<and> (\<forall>ow. owner_ok d ow)"

text \<open>The log of an owner: the abstract store is a function from owners to logs.\<close>

definition owner_log :: "db \<Rightarrow> string \<Rightarrow> string list" where
  "owner_log d ow = map PathRecord (owner_entries d ow)"

lemma empty_db_ok: "db_ok empty_db"
  by (simp add: db_ok_def empty_db_def owner_ok_def owner_entries_def run_from_def nextOwnerOrdinalTx_def)

section \<open>What a digest has checked\<close>

lemma RecordDigest_causes: "RecordDigest lib s m b cs w = Inr i \<Longrightarrow> list_all valid_string cs"
proof -
  assume "RecordDigest lib s m b cs w = Inr i"
  then obtain t where "write_value lib False (record_input s m b cs w) = Inr t"
    by (auto simp: RecordDigest_Inr CanonicalDigest_Inr canonical_json_bytes_def)
  then obtain j where "canonical_tree lib (record_input s m b cs w) = Inr j"
    by (auto simp: write_value_print bindR_eq_Inr)
  then have "\<exists>j. canonical_tree lib (of_strings (Some cs)) = Inr j"
    using canonical_map_in[of lib _ j "''caused_by''" "of_strings (Some cs)"]
    unfolding record_input_def of_strings_def by auto
  then show ?thesis using canonical_strings_ok[of lib "Some cs"] by auto
qed

lemma ordinaryWitnessPlan_Inr:
  assumes "ordinaryWitnessPlan lib rc ctx = Inr p"
  shows "planSchema p = WitnessSchemaRef" "planWitness p = RootWitnessRecordIDMust lib" "planID p \<noteq> []"
    "planBody p = ordinary_body rc ctx" "planKind p = ''witness''"
    "RecordDigest lib WitnessSchemaRef Capture (ordinary_body rc ctx) [] (RootWitnessRecordIDMust lib) = Inr (planID p)"
    "ValidateWitnessBody WitnessSchemaRef (ordinary_body rc ctx) = Inr ()"
  using assms RecordDigest_prefix by (auto simp: ordinaryWitnessPlan_def Let_def bindR_eq_Inr)

text \<open>The digest of no ordinary witness is the id of the root witness: the one case of
  collision freedom the invariant needs.\<close>

definition root_unique :: "golib \<Rightarrow> bool" where
  "root_unique lib \<longleftrightarrow> (\<forall>rc ctx p. ordinaryWitnessPlan lib rc ctx = Inr p \<longrightarrow> planID p \<noteq> RootWitnessRecordIDMust lib)"

lemma ordinary_body_ok: "gval_ok (VMap (elems (ordinary_body rc ctx)))" "gval_ok (VMap (elems RootWitnessBody))"
  by (auto simp: ordinary_body_def of_strings_def NonNilStrings_def list_all_iff RootWitnessBody_def)

lemma root_unique_inj:
  assumes "inj (sha256 lib)" "lib_ok lib"
  shows "root_unique lib"
  unfolding root_unique_def
proof (intro allI impI notI)
  fix rc ctx p
  assume p: "ordinaryWitnessPlan lib rc ctx = Inr p" "planID p = RootWitnessRecordIDMust lib"
  have "RecordDigest lib RootWitnessSchemaRef Capture RootWitnessBody [] RootWitnessRef = Inr (planID p)"
    using RootWitnessRecordID_total[of lib] p(2) by (simp add: RootWitnessRecordID_def)
  from RecordDigest_inject[OF assms(2) ordinary_body_ok(1) ordinary_body_ok(2) ordinaryWitnessPlan_Inr(6)[OF p(1)] this]
  show False using assms(1) by (auto simp: inj_on_def)
qed

lemma json_text_Inr: "json_text v = Inr t \<Longrightarrow> \<exists>j. json_marshal v = Inr j"
  by (auto simp: json_text_def bindR_eq_Inr)

lemma bodyToJSON_decodes: "json_marshal (of_gmap b) = Inr j \<Longrightarrow> \<exists>b'. bodyFromJSON (bodyToJSON b) = Inr b'"
  using bodyFromJSON_marshal[of b j] by (auto simp: bodyToJSON_def)

lemma ordinary_body_marshal: "\<exists>j. json_marshal (of_gmap (ordinary_body rc ctx)) = Inr j"
proof -
  have s: "\<exists>js. marshal_items (map VString xs) = Inr js" for xs by (induction xs) auto
  have o: "\<exists>j. json_marshal (of_strings ss) = Inr j" for ss
    using s[of "elems ss"] by (cases ss) (auto simp: of_strings_def bindR_eq_Inr)
  have f: "\<exists>js. marshal_fields kvs = Inr js" if "\<And>k v. (k, v) \<in> set kvs \<Longrightarrow> \<exists>j. json_marshal v = Inr j" for kvs
    using that
  proof (induction kvs)
    case (Cons kv kvs)
    obtain k v where kv: "kv = (k, v)" by (cases kv)
    obtain j where "json_marshal v = Inr j" using Cons.prems[of k v] kv by auto
    moreover obtain js where "marshal_fields kvs = Inr js" using Cons by (metis list.set_intros(2))
    ultimately show ?case by (simp add: kv)
  qed simp
  have "\<exists>js. marshal_fields (sorted_fields (elems (ordinary_body rc ctx))) = Inr js"
    by (rule f) (auto simp: sorted_fields_def ordinary_body_def o)
  then show ?thesis by (auto simp: of_gmap_def ordinary_body_def)
qed

lemma root_body_marshal: "\<exists>j. json_marshal (of_gmap RootWitnessBody) = Inr j"
  by (simp add: of_gmap_def RootWitnessBody_def sorted_fields_sorted)


section \<open>Inserting records\<close>

definition recs_ok :: "db \<Rightarrow> bool" where
  "recs_ok d \<longleftrightarrow> rows_ok {} (Records d) \<and> PathRecord ` set (PathEntries d) = RowID ` set (Records d)"

lemma db_ok_recs: "db_ok d \<longleftrightarrow> recs_ok d \<and> (\<forall>ow. owner_ok d ow)"
  by (auto simp: db_ok_def recs_ok_def)

lemma entry_of_fields [simp]: "PathRecord (entry_of i r c) = RecordID (Envelope r)" "PathCommit (entry_of i r c) = c"
  by (simp_all add: entry_of_def split: option.splits)

lemma entry_of_slot: "(PathRef (entry_of i r c), PathOrdinal (entry_of i r c)) = fact_slot r"
  by (simp add: entry_of_def fact_slot_def split: option.splits)

lemma insertFactRowTx_recs_ok:
  assumes "insertFactRowTx r c intent d = Inr d'" "recs_ok d"
    and "RecordID (Envelope r) \<notin> RowID ` set (Records d) \<Longrightarrow> row_ok (RowID ` set (Records d)) (record_row_of r intent)"
  shows "recs_ok d'"
proof -
  obtain d1 where d1: "insertRecordIfMissingTx r intent d = Inr d1" "insert_path (entry_of intent r c) d1 = Inr d'"
    using assms(1) by (rule insertFactRowTx_Inr)
  have p: "d' = d1\<lparr>PathEntries := PathEntries d1 @ [entry_of intent r c]\<rparr>" using d1(2) by (simp add: insert_Inr)
  show ?thesis
    using d1(1)
  proof (cases rule: insertRecordIfMissingTx_Inr)
    case (shared existing)
    with p assms(2) show ?thesis by (auto simp: recs_ok_def)
  next
    case fresh
    have i: "RowID (record_row_of r intent) = RecordID (Envelope r)" by (simp add: record_row_of_def)
    have "rows_ok {} (Records d1)"
      using assms(2,3) fresh(1) by (simp add: fresh(3) rows_ok_append recs_ok_def i)
    with p assms(2) fresh(3) i show ?thesis by (auto simp: recs_ok_def)
  qed
qed

text \<open>Witnesses.\<close>

definition plan_ok :: "golib \<Rightarrow> witnessPlan \<Rightarrow> bool" where
  "plan_ok lib p \<longleftrightarrow> p = rootWitnessPlan lib \<or> (\<exists>rc ctx. ordinaryWitnessPlan lib rc ctx = Inr p)"

lemma witness_row_ok:
  assumes "plan_ok lib p" "p = rootWitnessPlan lib \<or> RootWitnessRecordIDMust lib \<in> A"
  shows "row_ok A (record_row_of (witness_fact p k) intent)"
proof -
  have b: "\<exists>b. bodyFromJSON (bodyToJSON (planBody p)) = Inr b"
  proof (cases "p = rootWitnessPlan lib")
    case True
    then show ?thesis using root_body_marshal bodyToJSON_decodes by (auto simp: rootWitnessPlan_def)
  next
    case False
    then obtain rc ctx where "ordinaryWitnessPlan lib rc ctx = Inr p" using assms(1) by (auto simp: plan_ok_def)
    from ordinaryWitnessPlan_Inr(4)[OF this] show ?thesis using ordinary_body_marshal bodyToJSON_decodes by metis
  qed
  show ?thesis
  proof (cases "p = rootWitnessPlan lib")
    case True
    with b show ?thesis
      by (simp add: row_ok_def record_row_of_def witness_fact_def stringToJSON_def)
        (simp add: rootWitnessPlan_def)
  next
    case False
    then obtain rc ctx where o: "ordinaryWitnessPlan lib rc ctx = Inr p" using assms(1) by (auto simp: plan_ok_def)
    from ordinaryWitnessPlan_Inr[OF o] b assms(2) False show ?thesis
      by (simp add: row_ok_def record_row_of_def witness_fact_def stringToJSON_def)
  qed
qed

lemma owner_entries_snoc: "owner_entries (d\<lparr>PathEntries := PathEntries d @ ps\<rparr>) ow
    = owner_entries d ow @ filter (\<lambda>p. PathRef p = ow) ps"
  by (simp add: owner_entries_def)

lemma insertWitness_effect:
  assumes "insertWitnessRecordIfMissingTx p intent d = Inr d'"
  obtains "d' = d" "planID p \<in> RowID ` set (Records d)"
  | rs es e where "planID p \<notin> RowID ` set (Records d)"
      "insertFactRowTx (witness_fact p (nextOwnerOrdinalTx d witnessTraceOwnerID)) (''witness:'' @ planID p) intent d
        = Inr (d'\<lparr>OwnerOrdinals := OwnerOrdinals d\<rparr>)"
      "d' = d\<lparr>Records := Records d @ rs, RecordEdges := RecordEdges d @ es, PathEntries := PathEntries d @ [e],
        OwnerOrdinals := AList.update witnessTraceOwnerID (nextOwnerOrdinalTx d witnessTraceOwnerID + 1) (OwnerOrdinals d)\<rparr>"
      "PathRef e = witnessTraceOwnerID" "PathOrdinal e = nextOwnerOrdinalTx d witnessTraceOwnerID"
      "planID p \<in> RowID ` set (Records d')"
proof (cases "factExistsTx d (planID p)")
  case True
  then have "bindR (readFactTx d (planID p)) (\<lambda>existing. if \<not> witnessFactMatchesPlan existing p
       then Inl (TraceStoreError ''witness record id already names a different witness'' [planID p]) else Inr d) = Inr d'"
    using assms by (simp add: insertWitnessRecordIfMissingTx_def)
  then have "d' = d" by (auto simp: bindR_eq_Inr split: if_splits)
  with True that(1) show thesis by (simp only: factExistsTx_iff)
next
  case False
  let ?o = "nextOwnerOrdinalTx d witnessTraceOwnerID"
  let ?f = "witness_fact p ?o" and ?c = "''witness:'' @ planID p"
  have "bindR (insertFactRowTx ?f ?c intent d) (upsert_ordinal witnessTraceOwnerID (?o + 1)) = Inr d'"
    using assms False by (simp add: insertWitnessRecordIfMissingTx_def Let_def)
  then obtain d1 where d1: "insertFactRowTx ?f ?c intent d = Inr d1" "upsert_ordinal witnessTraceOwnerID (?o + 1) d1 = Inr d'"
    unfolding bindR_eq_Inr by blast
  obtain rs es where f: "d1 = d\<lparr>Records := Records d @ rs, RecordEdges := RecordEdges d @ es,
      PathEntries := PathEntries d @ [entry_of intent ?f ?c]\<rparr>" "RecordID (Envelope ?f) \<in> RowID ` set (Records d1)"
    using insertFactRowTx_frame[OF d1(1)] by blast
  have s: "fact_slot ?f = (witnessTraceOwnerID, ?o)" "RecordID (Envelope ?f) = planID p"
    by (simp_all add: fact_slot_def witness_fact_def)
  have e: "PathRef (entry_of intent ?f ?c) = witnessTraceOwnerID" "PathOrdinal (entry_of intent ?f ?c) = ?o"
    using entry_of_slot[of intent ?f ?c] s(1) by simp_all
  have d': "d' = d1\<lparr>OwnerOrdinals := AList.update witnessTraceOwnerID (?o + 1) (OwnerOrdinals d1)\<rparr>"
    using d1(2) by (simp add: insert_Inr)
  show thesis
  proof (rule that(2)[OF _ _ _ e])
    show "planID p \<notin> RowID ` set (Records d)" using False by (simp only: factExistsTx_iff not_False_eq_True)
    show "insertFactRowTx ?f ?c intent d = Inr (d'\<lparr>OwnerOrdinals := OwnerOrdinals d\<rparr>)"
      using d1(1) by (simp add: d' f(1))
    show "d' = d\<lparr>Records := Records d @ rs, RecordEdges := RecordEdges d @ es,
        PathEntries := PathEntries d @ [entry_of intent ?f ?c],
        OwnerOrdinals := AList.update witnessTraceOwnerID (?o + 1) (OwnerOrdinals d)\<rparr>"
      by (simp add: d' f(1))
    show "planID p \<in> RowID ` set (Records d')" using f(2) s(2) by (simp add: d')
  qed
qed

lemma owner_ok_append:
  assumes "owner_ok d ow"
    and "map PathOrdinal (owner_entries d' ow) = map PathOrdinal (owner_entries d ow) @ run_from (nextOwnerOrdinalTx d ow) n"
    and "nextOwnerOrdinalTx d' ow = nextOwnerOrdinalTx d ow + int n"
  shows "owner_ok d' ow"
proof -
  have l: "length (owner_entries d' ow) = length (owner_entries d ow) + n"
    using arg_cong[OF assms(2), of length] by simp
  have "map PathOrdinal (owner_entries d' ow) = run_from 0 (length (owner_entries d ow)) @ run_from (0 + int (length (owner_entries d ow))) n"
    using assms(1,2) by (simp add: owner_ok_def)
  also have "\<dots> = run_from 0 (length (owner_entries d ow) + n)" by (rule run_from_append)
  finally show ?thesis using assms(1,3) l by (simp add: owner_ok_def)
qed

lemma insertWitness_ok:
  assumes "insertWitnessRecordIfMissingTx p intent d = Inr d'" "db_ok d" "plan_ok lib p"
    and "p = rootWitnessPlan lib \<or> RootWitnessRecordIDMust lib \<in> RowID ` set (Records d)"
  shows "db_ok d' \<and> planID p \<in> RowID ` set (Records d') \<and> RowID ` set (Records d) \<subseteq> RowID ` set (Records d')
    \<and> (\<forall>ow. ow \<noteq> witnessTraceOwnerID \<longrightarrow> owner_entries d' ow = owner_entries d ow \<and> nextOwnerOrdinalTx d' ow = nextOwnerOrdinalTx d ow)
    \<and> AppendIntents d' = AppendIntents d \<and> Contexts d' = Contexts d \<and> NextCommitSeq d' = NextCommitSeq d
    \<and> Frontiers d' = Frontiers d"
  using assms(1)
proof (cases rule: insertWitness_effect)
  case 1
  with assms(2) show ?thesis by simp
next
  case (2 rs es e)
  let ?o = "nextOwnerOrdinalTx d witnessTraceOwnerID"
  have "recs_ok (d'\<lparr>OwnerOrdinals := OwnerOrdinals d\<rparr>)"
    using insertFactRowTx_recs_ok[OF 2(2)] witness_row_ok[OF assms(3)] assms(2,4) by (simp add: db_ok_recs)
  then have r: "recs_ok d'" by (simp add: recs_ok_def)
  have ent: "owner_entries d' ow = owner_entries d ow @ (if ow = witnessTraceOwnerID then [e] else [])" for ow
    using 2(4) by (auto simp: 2(3) owner_entries_def)
  have nxt: "nextOwnerOrdinalTx d' ow = nextOwnerOrdinalTx d ow + (if ow = witnessTraceOwnerID then int 1 else 0)" for ow
    by (simp add: 2(3) nextOwnerOrdinalTx_def update_conv')
  have "owner_ok d' ow" for ow
  proof (cases "ow = witnessTraceOwnerID")
    case True
    have "owner_ok d ow" using assms(2) by (simp add: db_ok_def)
    then show ?thesis by (rule owner_ok_append[where n = 1]) (simp_all add: ent nxt True 2(5) run_from_def)
  next
    case False
    then show ?thesis using assms(2) ent nxt by (simp add: db_ok_def owner_ok_def)
  qed
  with r ent nxt 2(6) show ?thesis by (auto simp: db_ok_recs 2(3) owner_entries_def nextOwnerOrdinalTx_def update_conv')
qed


section \<open>The loops of the transaction\<close>

abbreviation row_ids :: "db \<Rightarrow> string set" where
  "row_ids d \<equiv> RowID ` set (Records d)"

abbreviation insert_witnesses :: "string \<Rightarrow> db \<Rightarrow> witnessPlan list \<Rightarrow> kerror + db" where
  "insert_witnesses intent d ws \<equiv> foldR (\<lambda>d p. insertWitnessRecordIfMissingTx p intent d) d ws"

abbreviation insert_facts :: "string \<Rightarrow> db \<Rightarrow> (Record \<times> string) list \<Rightarrow> kerror + db" where
  "insert_facts intent d fcs \<equiv> foldR (\<lambda>d (f, c). insertFactRowTx f c intent d) d fcs"

definition same_rest :: "db \<Rightarrow> db \<Rightarrow> bool" where
  "same_rest d d' \<longleftrightarrow> AppendIntents d' = AppendIntents d \<and> Contexts d' = Contexts d
    \<and> NextCommitSeq d' = NextCommitSeq d \<and> Frontiers d' = Frontiers d"

definition same_owner :: "db \<Rightarrow> db \<Rightarrow> string \<Rightarrow> bool" where
  "same_owner d d' ow \<longleftrightarrow> owner_entries d' ow = owner_entries d ow \<and> nextOwnerOrdinalTx d' ow = nextOwnerOrdinalTx d ow"

lemma witness_loop:
  assumes "insert_witnesses intent d ws = Inr d'" "db_ok d" "\<forall>p\<in>set ws. plan_ok lib p"
    and "ws = [] \<or> hd ws = rootWitnessPlan lib \<or> RootWitnessRecordIDMust lib \<in> row_ids d"
  shows "db_ok d' \<and> planID ` set ws \<subseteq> row_ids d' \<and> row_ids d \<subseteq> row_ids d'
    \<and> (\<forall>ow. ow \<noteq> witnessTraceOwnerID \<longrightarrow> same_owner d d' ow) \<and> same_rest d d'"
  using assms
proof (induction ws arbitrary: d)
  case Nil
  then show ?case by (simp add: same_owner_def same_rest_def)
next
  case (Cons p ws)
  obtain d1 where d1: "insertWitnessRecordIfMissingTx p intent d = Inr d1" "insert_witnesses intent d1 ws = Inr d'"
    using Cons.prems(1) by (auto simp: bindR_eq_Inr)
  have pok: "plan_ok lib p" "p = rootWitnessPlan lib \<or> RootWitnessRecordIDMust lib \<in> row_ids d"
    using Cons.prems(3,4) by auto
  note step = insertWitness_ok[OF d1(1) Cons.prems(2) pok]
  have "planID (rootWitnessPlan lib) = RootWitnessRecordIDMust lib" by (simp add: rootWitnessPlan_def)
  then have "RootWitnessRecordIDMust lib \<in> row_ids d1" using pok(2) step by (metis subsetD)
  with Cons.IH[OF d1(2)] step Cons.prems(3)
  have ih: "db_ok d' \<and> planID ` set ws \<subseteq> row_ids d' \<and> row_ids d1 \<subseteq> row_ids d'
    \<and> (\<forall>ow. ow \<noteq> witnessTraceOwnerID \<longrightarrow> same_owner d1 d' ow) \<and> same_rest d1 d'" by simp
  have "row_ids d \<subseteq> row_ids d'" "planID ` set (p # ws) \<subseteq> row_ids d'" using ih step by (blast, simp add: subset_iff)
  with ih step show ?case by (simp add: same_owner_def same_rest_def)
qed

lemma fact_row_ok:
  assumes "fact_ok lib d0 before r" "row_ids d0 \<union> before \<subseteq> A"
    and "WitnessRef (Envelope r) \<in> A" "WitnessRef (Envelope r) \<noteq> []" "\<exists>j. json_marshal (of_gmap (Body r)) = Inr j"
  shows "row_ok A (record_row_of r intent)"
proof -
  obtain g rc wp draft s cs i k where r: "r = draft_record g rc wp draft s cs i k"
      "RecordDigest lib s (DraftMode draft) (DraftPayload draft) cs (planID wp) = Inr i" "set cs \<subseteq> row_ids d0 \<union> before"
    using assms(1) unfolding fact_ok_def by blast
  have cs: "jsonToStrings (stringToJSON (if cs = [] then None else Some cs)) = (if cs = [] then None else Some cs)"
    using RecordDigest_causes[OF r(2)] by simp
  have w: "WitnessRef (Envelope r) = planID wp" "Body r = DraftPayload draft"
    unfolding r(1) by (simp_all add: draft_record_def)
  have "s \<noteq> RootWitnessSchemaRef" using RecordDigest_nonroot[OF r(2)] assms(4) w(1) by simp
  moreover obtain j where "json_marshal (of_gmap (DraftPayload draft)) = Inr j" using assms(5) w(2) by auto
  note bodyToJSON_decodes[OF this]
  ultimately show ?thesis
    using assms(2,3) r(3) w(1) cs by (auto simp: row_ok_def record_row_of_def r(1) draft_record_def)
qed

lemma fact_loop:
  assumes "insert_facts intent d (zip fs cs) = Inr d'" "length cs = length fs" "recs_ok d"
    and "facts_ok lib d0 before fs" "row_ids d0 \<union> before \<subseteq> row_ids d"
    and "\<forall>f\<in>set fs. WitnessRef (Envelope f) \<in> row_ids d \<and> WitnessRef (Envelope f) \<noteq> []
          \<and> (\<exists>j. json_marshal (of_gmap (Body f)) = Inr j)"
  shows "recs_ok d' \<and> PathEntries d' = PathEntries d @ map (\<lambda>(f, c). entry_of intent f c) (zip fs cs)
    \<and> OwnerOrdinals d' = OwnerOrdinals d \<and> same_rest d d' \<and> row_ids d \<subseteq> row_ids d'"
  using assms
proof (induction fs arbitrary: d cs before)
  case Nil
  then show ?case by (simp add: same_rest_def)
next
  case (Cons f fs)
  obtain c cs' where cs: "cs = c # cs'" "length cs' = length fs" using Cons.prems(2) by (cases cs) auto
  obtain d1 where d1: "insertFactRowTx f c intent d = Inr d1" "insert_facts intent d1 (zip fs cs') = Inr d'"
    using Cons.prems(1) by (auto simp: cs bindR_eq_Inr)
  have "row_ok (row_ids d) (record_row_of f intent)"
    using Cons.prems(4,6) by (intro fact_row_ok[OF _ Cons.prems(5)]) auto
  then have r: "recs_ok d1" using insertFactRowTx_recs_ok[OF d1(1) Cons.prems(3)] by blast
  obtain rs es where f: "d1 = d\<lparr>Records := Records d @ rs, RecordEdges := RecordEdges d @ es,
      PathEntries := PathEntries d @ [entry_of intent f c]\<rparr>" "RecordID (Envelope f) \<in> row_ids d1"
    using insertFactRowTx_frame[OF d1(1)] by blast
  have sub: "row_ids d \<subseteq> row_ids d1" by (auto simp: f(1))
  have "row_ids d0 \<union> insert (RecordID (Envelope f)) before \<subseteq> row_ids d1" using Cons.prems(5) sub f(2) by blast
  moreover have "\<forall>f\<in>set fs. WitnessRef (Envelope f) \<in> row_ids d1 \<and> WitnessRef (Envelope f) \<noteq> []
          \<and> (\<exists>j. json_marshal (of_gmap (Body f)) = Inr j)"
    using Cons.prems(6) sub by auto
  ultimately have "recs_ok d' \<and> PathEntries d' = PathEntries d1 @ map (\<lambda>(f, c). entry_of intent f c) (zip fs cs')
    \<and> OwnerOrdinals d' = OwnerOrdinals d1 \<and> same_rest d1 d' \<and> row_ids d1 \<subseteq> row_ids d'"
    using Cons.IH[OF d1(2) cs(2) r, of "insert (RecordID (Envelope f)) before"] Cons.prems(4) by simp
  with f(1) sub show ?case by (auto simp: cs same_rest_def)
qed

lemma update_ordinals_Inr:
  assumes "update_ordinals rs d = Inr d'" "distinct (map fst rs)"
  shows "(\<forall>ow. nextOwnerOrdinalTx d' ow = (case map_of rs ow of None \<Rightarrow> nextOwnerOrdinalTx d ow | Some r \<Rightarrow> snd r + 1))
    \<and> Records d' = Records d \<and> PathEntries d' = PathEntries d \<and> same_rest d d'"
  using assms
proof (induction rs arbitrary: d)
  case Nil
  then show ?case by (simp add: update_ordinals_def same_rest_def)
next
  case (Cons wr rs)
  obtain w r where wr: "wr = (w, r)" by (cases wr)
  obtain d1 where d1: "upsert_ordinal w (snd r + 1) d = Inr d1" "update_ordinals rs d1 = Inr d'"
    using Cons.prems(1) by (auto simp: wr update_ordinals_def bindR_eq_Inr)
  have d1': "d1 = d\<lparr>OwnerOrdinals := AList.update w (snd r + 1) (OwnerOrdinals d)\<rparr>" using d1(1) by (simp add: insert_Inr)
  have fresh: "map_of rs w = None" using Cons.prems(2) by (simp add: wr map_of_eq_None_iff)
  have n1: "nextOwnerOrdinalTx d1 ow = (if ow = w then snd r + 1 else nextOwnerOrdinalTx d ow)" for ow
    by (simp add: d1' nextOwnerOrdinalTx_def update_conv')
  have "distinct (map fst rs)" using Cons.prems(2) by simp
  note ih = Cons.IH[OF d1(2) this]
  have rest: "Records d1 = Records d" "PathEntries d1 = PathEntries d" "same_rest d d1"
    by (simp_all add: d1' same_rest_def)
  have "nextOwnerOrdinalTx d' ow = (case map_of (wr # rs) ow of None \<Rightarrow> nextOwnerOrdinalTx d ow | Some r \<Rightarrow> snd r + 1)" for ow
    using ih n1[of ow] fresh by (cases "ow = w") (auto simp: wr split: option.splits)
  with ih rest show ?case by (simp add: same_rest_def)
qed

section \<open>A committed append\<close>

lemma validated_drafts:
  assumes "validateBatchShape batch = Inr ()" "(g, draft) \<in> set (batch_drafts batch)"
  shows "(DraftMode draft = Capture \<or> DraftMode draft = Declaration) \<and> DraftSchemaRef draft \<noteq> []
    \<and> (\<exists>j. json_marshal (of_gmap (DraftPayload draft)) = Inr j) \<and> TraceOwnerID g \<noteq> []"
proof -
  have one: "foldR validate_draft seen ds = Inr seen' \<Longrightarrow> draft \<in> set ds \<Longrightarrow>
    (DraftMode draft = Capture \<or> DraftMode draft = Declaration) \<and> DraftSchemaRef draft \<noteq> []
    \<and> (\<exists>j. json_marshal (of_gmap (DraftPayload draft)) = Inr j)" for ds seen seen'
    by (induction ds arbitrary: seen)
      (auto simp: bindR_eq_Inr validate_draft_def resolveSchemaRef_def dest!: json_text_Inr split: if_splits)
  have "foldR (\<lambda>seen g. bindR (guardR (TraceOwnerID g \<noteq> []) (Plain ''trace_owner_id is required'' [])) (\<lambda>_.
        foldR validate_draft seen (elems (FactDrafts g)))) seen gs = Inr seen' \<Longrightarrow> g \<in> set gs \<Longrightarrow> draft \<in> set (elems (FactDrafts g)) \<Longrightarrow>
    (DraftMode draft = Capture \<or> DraftMode draft = Declaration) \<and> DraftSchemaRef draft \<noteq> []
    \<and> (\<exists>j. json_marshal (of_gmap (DraftPayload draft)) = Inr j) \<and> TraceOwnerID g \<noteq> []" for gs seen seen'
  proof (induction gs arbitrary: seen)
    case (Cons h gs)
    obtain s1 where s1: "TraceOwnerID h \<noteq> []" "foldR validate_draft seen (elems (FactDrafts h)) = Inr s1"
      "foldR (\<lambda>seen g. bindR (guardR (TraceOwnerID g \<noteq> []) (Plain ''trace_owner_id is required'' [])) (\<lambda>_.
        foldR validate_draft seen (elems (FactDrafts g)))) s1 gs = Inr seen'"
      using Cons.prems(1) by (auto simp: bindR_eq_Inr)
    show ?case
    proof (cases "g = h")
      case True
      with one[OF s1(2)] s1(1) Cons.prems(3) show ?thesis by blast
    next
      case False
      with Cons.IH[OF s1(3)] Cons.prems(2,3) show ?thesis by simp
    qed
  qed simp
  moreover have "g \<in> set (elems (Groups batch))" "draft \<in> set (elems (FactDrafts g))"
    using assms(2) by (auto simp: batch_drafts_def)
  ultimately show ?thesis using assms(1) by (auto simp: validateBatchShape_def bindR_eq_Inr)
qed

text \<open>The ids a batch adds to an owner's log: those of the drafts in the owner's groups, in the
  order of the batch.\<close>

definition batch_log :: "AppendBatch \<Rightarrow> string list \<Rightarrow> string \<Rightarrow> string list" where
  "batch_log batch ids ow = map snd (filter (\<lambda>(gd, i). TraceOwnerID (fst gd) = ow) (zip (batch_drafts batch) ids))"

text \<open>No group addresses the path the store keeps for its witnesses.\<close>

definition no_witness_owner :: "AppendBatch \<Rightarrow> bool" where
  "no_witness_owner batch \<longleftrightarrow> (\<forall>g\<in>set (elems (Groups batch)). TraceOwnerID g \<noteq> witnessTraceOwnerID)"

lemma zip_filter_map: "length xs = length ys \<Longrightarrow> map f xs = map g ys \<Longrightarrow>
  map h (filter (\<lambda>x. P (f x)) xs) = map snd (filter (\<lambda>(y, i). P (g y)) (zip ys (map h xs)))"
  by (induction xs ys rule: list_induct2) auto

lemma zip_filter_fst: "length cs = length fs \<Longrightarrow>
  map (\<lambda>x. k (fst x)) (filter (\<lambda>x. P (fst x)) (zip fs cs)) = map k (filter P fs)"
  by (induction cs fs rule: list_induct2) auto


lemma insert_contexts_Inr:
  "foldR (\<lambda>d c. insertContextTx c intent d) d cs = Inr d' \<Longrightarrow>
   d' = d\<lparr>Contexts := Contexts d @ map (\<lambda>c. context_row_of c intent) cs\<rparr>"
proof (induction cs arbitrary: d)
  case (Cons c cs)
  obtain d1 where d1: "insertContextTx c intent d = Inr d1" "foldR (\<lambda>d c. insertContextTx c intent d) d1 cs = Inr d'"
    using Cons.prems by (auto simp: bindR_eq_Inr)
  from Cons.IH[OF d1(2)] d1(1) show ?case by (simp add: insertContextTx_def insert_Inr)
qed simp

lemma write_append_Inr:
  assumes "write_append batch dig (cs, ws, fs, r) d = Inr d'"
  obtains d1 d2 d3 d4 where
    "AppendIntentID batch \<notin> IntentID ` set (AppendIntents d)"
    "d1 = d\<lparr>AppendIntents := AppendIntents d @
      [\<lparr>IntentID = AppendIntentID batch, IntentDigest = dig, IntentReceipt = receiptToJSON r\<rparr>],
      Contexts := Contexts d @ map (\<lambda>c. context_row_of c (AppendIntentID batch)) cs\<rparr>"
    "insert_witnesses (AppendIntentID batch) d1 ws = Inr d2"
    "insert_facts (AppendIntentID batch) d2 (zip fs (CommitReceipts r)) = Inr d3"
    "update_ordinals (OwnerRanges r) d3 = Inr d4"
    "d' = (if CommitReceipts r \<noteq> [] then update_commit_seq (nextCommitSeq (CommitReceipts r)) d4 else d4)"
proof -
  let ?i = "AppendIntentID batch"
  obtain d0 d1 d2 d3 d4 where
    d: "insert_intent \<lparr>IntentID = ?i, IntentDigest = dig, IntentReceipt = receiptToJSON r\<rparr> d = Inr d0"
    "foldR (\<lambda>d c. insertContextTx c ?i d) d0 cs = Inr d1" "insert_witnesses ?i d1 ws = Inr d2"
    "insert_facts ?i d2 (zip fs (CommitReceipts r)) = Inr d3" "update_ordinals (OwnerRanges r) d3 = Inr d4"
    "(if CommitReceipts r \<noteq> [] then update_commit_seq (nextCommitSeq (CommitReceipts r)) d4 else d4) = d'"
    using assms unfolding write_append_def Let_def split bindR_eq_Inr by blast
  from d(1) have "?i \<notin> IntentID ` set (AppendIntents d)"
    "d0 = d\<lparr>AppendIntents := AppendIntents d @ [\<lparr>IntentID = ?i, IntentDigest = dig, IntentReceipt = receiptToJSON r\<rparr>]\<rparr>"
    by (simp_all add: insert_Inr)
  with insert_contexts_Inr[OF d(2)] d(3-6) that show thesis by simp
qed

text \<open>The plans in the order of insertion: the root witness first.\<close>

lemma planned_witnesses:
  assumes "plans_ok lib m" "root_unique lib" "ws = List.map_filter (fst m) (snd m)"
  shows "\<forall>p\<in>set ws. plan_ok lib p" "ws = [] \<or> hd ws = rootWitnessPlan lib"
    "fst m i = Some p \<Longrightarrow> planID p = i \<and> p \<in> set ws \<and> i \<noteq> []"
proof -
  have ok: "om_ok m" using assms(1) by (simp add: plans_ok_def)
  then have ws: "ws = map (\<lambda>k. the (fst m k)) (snd m)"
    using om_values_eq[OF ok] assms(3) by (simp add: om_values_def orderedValues_def)
  have some: "\<exists>p. fst m k = Some p" if "k \<in> set (snd m)" for k using ok that by (auto simp: om_ok_def)
  have pk: "plan_ok lib p \<and> planID p = k" if "fst m k = Some p" for k p
    using assms(1) that unfolding plans_ok_def plan_ok_def by (blast intro: ranI)
  have rid: "planID (rootWitnessPlan lib) = RootWitnessRecordIDMust lib" by (simp add: rootWitnessPlan_def)
  show "\<forall>p\<in>set ws. plan_ok lib p" using some pk by (force simp: ws)
  show "ws = [] \<or> hd ws = rootWitnessPlan lib"
  proof (cases "snd m")
    case (Cons i ks)
    then have "i = RootWitnessRecordIDMust lib" using assms(1) by (simp add: plans_ok_def)
    moreover obtain p where p: "fst m i = Some p" using some[of i] Cons by auto
    ultimately have "p = rootWitnessPlan lib"
      using pk[OF p] assms(2) unfolding plan_ok_def root_unique_def by blast
    with Cons p show ?thesis by (simp add: ws)
  qed (simp add: ws)
  assume p: "fst m i = Some p"
  then have "i \<in> set (snd m)" using ok by (auto simp: om_ok_def)
  then have "p \<in> set ws" using p by (force simp: ws)
  moreover have "planID p \<noteq> []"
    using pk[OF p] ordinaryWitnessPlan_Inr(3) root_id_digest(2)[of lib] rid unfolding plan_ok_def by metis
  ultimately show "planID p = i \<and> p \<in> set ws \<and> i \<noteq> []" using pk[OF p] by blast
qed

lemma write_append_ok:
  assumes p: "prepareAppend lib d batch ctx = Inr (cs, ws, fs, r)" and v: "validateBatchShape batch = Inr ()"
    and w: "write_append batch dig (cs, ws, fs, r) d = Inr d'"
    and ok: "db_ok d" "root_unique lib" "no_witness_owner batch"
  shows "db_ok d' \<and> length (FactIDs r) = length (batch_drafts batch)
    \<and> (\<forall>ow. ow \<noteq> witnessTraceOwnerID \<longrightarrow> owner_log d' ow = owner_log d ow @ batch_log batch (FactIDs r) ow)
    \<and> row_ids d \<subseteq> row_ids d' \<and> set (FactIDs r) \<subseteq> row_ids d'"
proof -
  obtain nc st where st: "cs = stContexts st" "ws = List.map_filter (fst (stWitnesses st)) (snd (stWitnesses st))"
    "fs = stFacts st" "FactIDs r = factIDs fs" "CommitReceipts r = stCommits st" "OwnerRanges r = stRanges st"
    "staged_facts_ok lib d nc st" "ordinals_ok d st" "witnesses_planned lib st" "staged_origins st (batch_drafts batch)"
    using prepareAppend_Inr[OF p] by (metis (no_types, lifting) AppendReceipt.select_convs(2,3,4))
  let ?i = "AppendIntentID batch" and ?gds = "batch_drafts batch" and ?wit = witnessTraceOwnerID
  from w obtain d1 d2 d3 d4 where d:
    "d1 = d\<lparr>AppendIntents := AppendIntents d @ [\<lparr>IntentID = ?i, IntentDigest = dig, IntentReceipt = receiptToJSON r\<rparr>],
      Contexts := Contexts d @ map (\<lambda>c. context_row_of c ?i) cs\<rparr>"
    "insert_witnesses ?i d1 ws = Inr d2" "insert_facts ?i d2 (zip fs (CommitReceipts r)) = Inr d3"
    "update_ordinals (OwnerRanges r) d3 = Inr d4"
    "d' = (if CommitReceipts r \<noteq> [] then update_commit_seq (nextCommitSeq (CommitReceipts r)) d4 else d4)"
    by (rule write_append_Inr)
  have pl: "plans_ok lib (stWitnesses st)" using st(9) by (simp add: witnesses_planned_def)
  note plans = planned_witnesses[OF pl ok(2) st(2)]
  have d1_ok: "db_ok d1" using ok(1)
    by (simp add: d(1) db_ok_def owner_ok_def owner_entries_def nextOwnerOrdinalTx_def)
  have "ws = [] \<or> hd ws = rootWitnessPlan lib \<or> RootWitnessRecordIDMust lib \<in> row_ids d1" using plans(2) by blast
  note wl = witness_loop[OF d(2) d1_ok plans(1) this]
  have len: "length (CommitReceipts r) = length fs" using st(3,5,7) by (simp add: staged_facts_ok_def commits_from_def)
  have origins: "map fact_origin fs = map draft_origin ?gds" using st(3,10) by (simp add: staged_origins_def)
  have each: "WitnessRef (Envelope f) \<in> row_ids d2 \<and> WitnessRef (Envelope f) \<noteq> []
      \<and> (\<exists>j. json_marshal (of_gmap (Body f)) = Inr j)" if f: "f \<in> set fs" for f
  proof -
    obtain q where q: "fst (stWitnesses st) (WitnessRef (Envelope f)) = Some q"
      using st(3,9) f by (auto simp: witnesses_planned_def)
    have "planID ` set ws \<subseteq> row_ids d2" using wl by (elim conjE)
    moreover have "WitnessRef (Envelope f) \<in> planID ` set ws" using plans(3)[OF q] by (metis image_eqI)
    ultimately have "WitnessRef (Envelope f) \<in> row_ids d2" by (rule subsetD)
    moreover have "WitnessRef (Envelope f) \<noteq> []" using plans(3)[OF q] by simp
    moreover have "fact_origin f \<in> set (map draft_origin ?gds)" using f origins by (metis image_eqI set_map)
    then obtain g draft where "(g, draft) \<in> set ?gds" "Body f = DraftPayload draft"
      by (auto simp: fact_origin_def draft_origin_def)
    then have "\<exists>j. json_marshal (of_gmap (Body f)) = Inr j" using validated_drafts[OF v] by auto
    ultimately show ?thesis by blast
  qed
  have "row_ids d \<union> {} \<subseteq> row_ids d2" using wl by (simp add: d(1))
  moreover have "facts_ok lib d {} fs" using st(3,7) by (simp add: staged_facts_ok_def)
  moreover have "recs_ok d2" using wl by (simp add: db_ok_recs)
  ultimately have fl: "recs_ok d3 \<and> PathEntries d3 = PathEntries d2 @ map (\<lambda>(f, c). entry_of ?i f c) (zip fs (CommitReceipts r))
    \<and> OwnerOrdinals d3 = OwnerOrdinals d2 \<and> same_rest d2 d3 \<and> row_ids d2 \<subseteq> row_ids d3"
    using fact_loop[OF d(3) len] each by blast
  have ranges: "distinct (map fst (OwnerRanges r))" using st(6,8) by (simp add: ordinals_ok_def)
  note ul = update_ordinals_Inr[OF d(4) ranges]
  have tables: "Records d' = Records d3" "PathEntries d' = PathEntries d3"
    and nxt4: "nextOwnerOrdinalTx d' ow = nextOwnerOrdinalTx d4 ow" for ow
    using ul by (simp_all add: d(5) update_commit_seq_def nextOwnerOrdinalTx_def)
  have ents: "map k (filter (\<lambda>p. PathRef p = ow) (map (\<lambda>(f, c). entry_of ?i f c) (zip fs (CommitReceipts r))))
      = map (\<lambda>f. k' f) (filter (\<lambda>f. fst (fact_slot f) = ow) fs)"
    if "\<And>f c. k (entry_of ?i f c) = k' f" for ow and k :: "path_row \<Rightarrow> 'z" and k'
  proof -
    have "PathRef (entry_of ?i f c) = fst (fact_slot f)" for f c using entry_of_slot[of ?i f c] by (metis fst_conv)
    then show ?thesis using that zip_filter_fst[OF len, of k' "\<lambda>f. fst (fact_slot f) = ow"]
      by (simp add: filter_map comp_def case_prod_beta)
  qed
  have slot: "PathOrdinal (entry_of ?i f c) = snd (fact_slot f)" for f c using entry_of_slot[of ?i f c] by (metis snd_conv)
  have ord: "map PathOrdinal (owner_entries d' ow) = map PathOrdinal (owner_entries d2 ow) @ ords fs ow" for ow
    using fl ents[of PathOrdinal "\<lambda>f. snd (fact_slot f)" ow] slot
    by (simp add: owner_entries_def tables ords_def filter_map comp_def)
  have owners: "fst (fact_slot f) \<noteq> ?wit" if "f \<in> set fs" for f
  proof -
    have "fact_origin f \<in> set (map draft_origin ?gds)" using that origins by (metis image_eqI set_map)
    then obtain g draft where "(g, draft) \<in> set ?gds" "fst (fact_slot f) = TraceOwnerID g"
      by (auto simp: fact_origin_def draft_origin_def)
    then show ?thesis using ok(3) by (auto simp: no_witness_owner_def batch_drafts_def)
  qed
  then have wit0: "ords fs ?wit = []" by (auto simp: ords_def filter_empty_conv)
  have nxt1: "nextOwnerOrdinalTx d1 ow = nextOwnerOrdinalTx d ow" for ow by (simp add: d(1) nextOwnerOrdinalTx_def)
  have nxt3: "nextOwnerOrdinalTx d3 ow = nextOwnerOrdinalTx d2 ow" for ow using fl by (simp add: nextOwnerOrdinalTx_def)
  have run: "ords fs ow = run_from (nextOwnerOrdinalTx d ow) (length (ords fs ow))" for ow
    using st(3,8) by (simp add: ordinals_ok_def)
  have rng: "map_of (OwnerRanges r) ow = (if ords fs ow = [] then None
      else Some (nextOwnerOrdinalTx d ow, nextOwnerOrdinalTx d ow + int (length (ords fs ow)) - 1))" for ow
    using st(3,6,8) by (simp add: ordinals_ok_def)
  have owner_ok': "owner_ok d' ow" for ow
  proof -
    have two: "owner_ok d2 ow" using wl by (simp add: db_ok_def)
    have nd: "nextOwnerOrdinalTx d2 ow = nextOwnerOrdinalTx d ow" if "ords fs ow \<noteq> []"
    proof -
      have "ow \<noteq> ?wit" using that wit0 by blast
      then show ?thesis using wl nxt1 by (simp add: same_owner_def)
    qed
    have "ords fs ow = run_from (nextOwnerOrdinalTx d2 ow) (length (ords fs ow))"
      using run[of ow] nd by (cases "ords fs ow = []") (simp_all add: run_from_def)
    moreover have "nextOwnerOrdinalTx d' ow = nextOwnerOrdinalTx d2 ow + int (length (ords fs ow))"
      using ul rng[of ow] nd nxt3 nxt4 by simp
    ultimately show ?thesis using owner_ok_append[OF two, of d' "length (ords fs ow)"] ord[of ow] by simp
  qed
  have log: "owner_log d' ow = owner_log d ow @ batch_log batch (FactIDs r) ow" if "ow \<noteq> ?wit" for ow
  proof -
    have "owner_log d' ow = owner_log d2 ow @ map (\<lambda>f. RecordID (Envelope f)) (filter (\<lambda>f. fst (fact_slot f) = ow) fs)"
      using fl ents[of PathRecord "\<lambda>f. RecordID (Envelope f)" ow] by (simp add: owner_log_def owner_entries_def tables)
    also have "owner_log d2 ow = owner_log d ow"
      using wl that by (simp add: same_owner_def owner_log_def owner_entries_def d(1))
    also have "map (\<lambda>f. RecordID (Envelope f)) (filter (\<lambda>f. fst (fact_slot f) = ow) fs) = batch_log batch (FactIDs r) ow"
    proof -
      have l: "length fs = length ?gds" by (rule map_eq_imp_length_eq[OF origins])
      have "map (\<lambda>f. fst (fact_slot f)) fs = map fst (map fact_origin fs)" by (simp add: fact_origin_def)
      also have "\<dots> = map (\<lambda>gd. TraceOwnerID (fst gd)) ?gds" by (simp add: origins draft_origin_def)
      finally show ?thesis
        unfolding batch_log_def st(4) factIDs_def
        using zip_filter_map[OF l, of "\<lambda>f. fst (fact_slot f)" "\<lambda>gd. TraceOwnerID (fst gd)"
            "\<lambda>f. RecordID (Envelope f)" "\<lambda>x. x = ow"] by simp
    qed
    finally show ?thesis .
  qed
  have "recs_ok d3" using fl by (elim conjE)
  then have "recs_ok d'" unfolding recs_ok_def tables .
  then have "db_ok d'" using owner_ok' by (simp add: db_ok_recs)
  moreover have "length (FactIDs r) = length ?gds"
    using map_eq_imp_length_eq[OF origins] by (simp add: st(4) factIDs_def)
  moreover have "row_ids d \<subseteq> row_ids d'" using fl wl tables(1) by (simp add: d(1)) blast
  moreover have "set (FactIDs r) \<subseteq> row_ids d'"
  proof -
    have "RecordID (Envelope f) \<in> PathRecord ` set (PathEntries d3)" if f: "f \<in> set fs" for f
    proof -
      obtain c where "(f, c) \<in> set (zip fs (CommitReceipts r))" using f len by (metis in_set_impl_in_set_zip1)
      then have "entry_of ?i f c \<in> set (PathEntries d3)" using fl by force
      then show ?thesis by (metis entry_of_fields(1) image_eqI)
    qed
    moreover have "PathRecord ` set (PathEntries d3) = row_ids d'"
      using \<open>recs_ok d3\<close> unfolding recs_ok_def tables(1) by (elim conjE)
    ultimately show ?thesis by (auto simp: st(4) factIDs_def)
  qed
  ultimately show ?thesis using log by blast
qed

end
