(* ===== verification/Append_Laws.thy ===== *)
theory Append_Laws
  imports Append_Effect
begin

text \<open>
  The contract of the public append: it is atomic, idempotent for a retried batch and refuses a
  different one under the same intent; the preview names the ids it will allocate; a committed
  batch reaches every subscriber of the bus as one event a record, in order.
\<close>

section \<open>Preview and append agree\<close>

lemma preview_drafts:
  assumes "foldR (prepare_draft lib d nc g rc wp) (st, k) drafts = Inr (st', k')"
  shows "foldR (preview_draft lib g wp) (localFactIDs st, factIDs (stFacts st)) drafts
    = Inr (localFactIDs st', factIDs (stFacts st'))"
  using assms
proof (induction drafts arbitrary: st k)
  case (Cons draft drafts)
  obtain st1 k1 where s1: "prepare_draft lib d nc g rc wp (st, k) draft = Inr (st1, k1)"
      "foldR (prepare_draft lib d nc g rc wp) (st1, k1) drafts = Inr (st', k')"
    using Cons.prems(1) by (auto simp: bindR_eq_Inr)
  have "preview_draft lib g wp (localFactIDs st, factIDs (stFacts st)) draft
      = Inr (localFactIDs st1, factIDs (stFacts st1))"
    using s1(1) by (cases rule: prepare_draft_Inr) (simp add: preview_draft_def factIDs_def draft_record_def)
  with Cons.IH[OF s1(2)] show ?case by simp
qed simp

lemma preview_one_group:
  assumes "prepare_group lib d intent ctx nc st (n, g) = Inr st'"
  shows "preview_group lib d intent ctx (localFactIDs st, factIDs (stFacts st)) (n, g)
    = Inr (localFactIDs st', factIDs (stFacts st'))"
proof (cases "elems (FactDrafts g) = []")
  case True
  with assms show ?thesis by (simp add: prepare_group_def preview_group_def Let_def)
next
  case False
  obtain rc wp where rc: "resolveGroupContextTx lib d intent n g ctx = Inr rc" "ordinaryWitnessPlan lib rc ctx = Inr wp"
    using assms False by (auto simp: prepare_group_def Let_def bindR_eq_Inr)
  let ?k = "case map_of (stagedNext st) (groupOwner g) of None \<Rightarrow> 0 | Some n \<Rightarrow> n"
  let ?st = "st\<lparr>stContexts := (if contextExistsTx d (ContextID rc) then stContexts st else stContexts st @ [rc]),
    stContextReceipts := stContextReceipts st @ [ContextID rc],
    stWitnesses := addWitnessPlan wp (addWitnessPlan (rootWitnessPlan lib) (stWitnesses st))\<rparr>"
  obtain s1 fin where s1: "foldR (prepare_draft lib d nc g rc wp) (?st, ?k) (elems (FactDrafts g)) = Inr (s1, fin)"
    "st' = s1\<lparr>stagedNext := AList.update (groupOwner g) fin (stagedNext s1),
              stRanges := range_update (groupOwner g) ?k (fin - 1) (stRanges s1)\<rparr>"
    using assms False rc by (auto simp: prepare_group_def Let_def bindR_eq_Inr)
  from preview_drafts[OF s1(1)] s1(2) rc False show ?thesis
    by (simp add: preview_group_def resolveGroupContext_def)
qed

lemma preview_groups:
  assumes "foldR (prepare_group lib d intent ctx nc) st ngs = Inr st'"
  shows "foldR (preview_group lib d intent ctx) (localFactIDs st, factIDs (stFacts st)) ngs
    = Inr (localFactIDs st', factIDs (stFacts st'))"
  using assms
proof (induction ngs arbitrary: st)
  case (Cons ng ngs)
  obtain n g where ng: "ng = (n, g)" by (cases ng)
  obtain s1 where s1: "prepare_group lib d intent ctx nc st (n, g) = Inr s1"
      "foldR (prepare_group lib d intent ctx nc) s1 ngs = Inr st'"
    using Cons.prems(1) by (auto simp: ng bindR_eq_Inr)
  from Cons.IH[OF s1(2)] preview_one_group[OF s1(1)] show ?case by (simp add: ng)
qed simp

lemma preview_is_append:
  assumes "prepareAppend lib d batch ctx = Inr (cs, ws, fs, r)"
  shows "previewFactIDs lib d batch ctx = Inr (FactIDs r)"
  using assms
proof (cases rule: prepareAppend_Inr)
  case (1 nc st)
  have "localFactIDs (initial_staging d gs) = Map.empty" "factIDs (stFacts (initial_staging d gs)) = []" for gs
    by (simp_all add: initial_staging_def factIDs_def)
  with preview_groups[OF 1(2)] 1(6) show ?thesis by (simp add: previewFactIDs_def)
qed

section \<open>The cases of an append\<close>

lemma Append_new:
  assumes "Append lib env auth batch s = (Inr r, s')" "find_intent (Db s) (AppendIntentID batch) = None"
  obtains dig cs ws fs d' where "ensureAppendAuthorized (append_operation_context auth OpAppend) = Inr ()"
    "validateBatchShape batch = Inr ()"
    "batchDigest lib batch (append_operation_context auth OpAppend) = Inr dig"
    "prepareAppend lib (Db s) batch (append_operation_context auth OpAppend) = Inr (cs, ws, fs, r)"
    "write_append batch dig (cs, ws, fs, r) (Db s) = Inr d'"
    "publishAppendEvents batch r (clock env) (s\<lparr>Db := d'\<rparr>) = Inr s'"
proof -
  let ?ctx = "append_operation_context auth OpAppend"
  obtain a where a: "ensureAppendAuthorized ?ctx = Inr a"
    using assms(1) by (cases "ensureAppendAuthorized ?ctx") (auto simp: Append_def Let_def)
  obtain res where ap: "appendInTx lib ?ctx batch (Db s) = Inr res"
    using assms(1) a by (cases "appendInTx lib ?ctx batch (Db s)") (auto simp: Append_def Let_def split: option.splits)
  obtain u dig p d' where x: "validateBatchShape batch = Inr u" "batchDigest lib batch ?ctx = Inr dig"
    "prepareAppend lib (Db s) batch ?ctx = Inr p" "write_append batch dig p (Db s) = Inr d'"
    "res = ((snd (snd (snd p)), True), d')"
    using ap assms(2) unfolding appendInTx_def by (auto simp: bindR_eq_Inr)
  obtain cs ws fs r' where p: "p = (cs, ws, fs, r')" by (cases p)
  have "r' = r \<and> publishAppendEvents batch r (clock env) (s\<lparr>Db := d'\<rparr>) = Inr s'"
    using assms(1) a ap by (auto simp: Append_def Let_def x(5) p split: option.splits sum.splits)
  with that[of dig cs ws fs d'] a x p show thesis by simp
qed

lemma publish_events_loop:
  assumes "bus_ok b"
  shows "\<exists>b'. foldR (\<lambda>b e. Publish e b) b es = Inr b' \<and> bus_ok b' \<and> Subscribers b' = Subscribers b
    \<and> BufferSize b' = BufferSize b
    \<and> (\<forall>(i, a)\<in>set (Subscribers b). Buffer (Heap b a) = go_channel.last_n (nat (BufferSize b)) xs \<longrightarrow>
        Buffer (Heap b' a) = go_channel.last_n (nat (BufferSize b)) (xs @ es))"
  using assms
proof (induction es arbitrary: b xs)
  case (Cons e es)
  obtain b1 where b1: "Publish e b = Inr b1" "bus_ok b1" "Subscribers b1 = Subscribers b"
    "\<forall>(i, a)\<in>set (Subscribers b). Buffer (Heap b1 a) = go_channel.last_n (nat (BufferSize b)) (Buffer (Heap b a) @ [e])"
    using Publish_effect[OF Cons.prems, of e] by blast
  have size: "BufferSize b1 = BufferSize b" using b1(1) by (auto simp: Publish_def bindR_eq_Inr split: if_splits)
  have pos: "0 < nat (BufferSize b)" using Cons.prems by (simp add: bus_ok_def)
  obtain b' where b': "foldR (\<lambda>b e. Publish e b) b1 es = Inr b'" "bus_ok b'" "Subscribers b' = Subscribers b1"
    "BufferSize b' = BufferSize b1"
    "\<forall>(i, a)\<in>set (Subscribers b1). Buffer (Heap b1 a) = go_channel.last_n (nat (BufferSize b1)) (xs @ [e]) \<longrightarrow>
        Buffer (Heap b' a) = go_channel.last_n (nat (BufferSize b1)) ((xs @ [e]) @ es)"
    using Cons.IH[OF b1(2), of "xs @ [e]"] by blast
  have "Buffer (Heap b1 a) = go_channel.last_n (nat (BufferSize b)) (xs @ [e])"
    if "(i, a) \<in> set (Subscribers b)" "Buffer (Heap b a) = go_channel.last_n (nat (BufferSize b)) xs" for i a
    using b1(4) that go_channel.last_n_append[OF pos, of xs e] by auto
  with b' b1 size show ?case by auto
qed simp

lemma publishAppendEvents_ok:
  assumes "\<forall>b. Bus s = Some b \<longrightarrow> bus_ok b"
  shows "\<exists>s'. publishAppendEvents batch r now s = Inr s' \<and> Db s' = Db s"
proof (cases "Bus s")
  case (Some b)
  then obtain b' where "foldR (\<lambda>b e. Publish e b) b (append_events batch r now) = Inr b'"
    using publish_events_loop[of b "append_events batch r now" "[]"] assms by blast
  with Some show ?thesis by (simp add: publishAppendEvents_def)
qed (simp add: publishAppendEvents_def)

lemma Append_error_unchanged:
  assumes "Append lib env auth batch s = (Inl e, s')" "\<forall>b. Bus s = Some b \<longrightarrow> bus_ok b"
  shows "s' = s"
proof -
  have "\<exists>s'. publishAppendEvents batch r now (s\<lparr>Db := d\<rparr>) = Inr s'" for r now d
    using publishAppendEvents_ok[of "s\<lparr>Db := d\<rparr>" batch r now] assms(2) by auto
  then have p: "publishAppendEvents batch r now (s\<lparr>Db := d\<rparr>) \<noteq> Inl e" for r now d e by (metis sum.distinct(1))
  show ?thesis
    using assms(1) p by (auto simp: Append_def Let_def split: sum.splits option.splits if_splits)
qed


section \<open>Retrying an intent\<close>

lemma insertFactRowTx_rest: "insertFactRowTx r c intent d = Inr d' \<Longrightarrow> same_rest d d'"
  by (auto simp: same_rest_def dest!: insertFactRowTx_frame)

lemma insertWitness_rest: "insertWitnessRecordIfMissingTx p intent d = Inr d' \<Longrightarrow> same_rest d d'"
  by (erule insertWitness_effect) (auto simp: same_rest_def)

lemma same_rest_trans: "same_rest d d1 \<Longrightarrow> same_rest d1 d2 \<Longrightarrow> same_rest d d2"
  by (simp add: same_rest_def)

lemma insert_witnesses_rest: "insert_witnesses intent d ws = Inr d' \<Longrightarrow> same_rest d d'"
  by (induction ws arbitrary: d) (auto simp: bindR_eq_Inr same_rest_def dest: insertWitness_rest)

lemma insert_facts_rest: "insert_facts intent d fcs = Inr d' \<Longrightarrow> same_rest d d'"
proof (induction fcs arbitrary: d)
  case (Cons fc fcs)
  obtain f c where fc: "fc = (f, c)" by (cases fc)
  obtain d1 where "insertFactRowTx f c intent d = Inr d1" "insert_facts intent d1 fcs = Inr d'"
    using Cons.prems by (auto simp: fc bindR_eq_Inr)
  with Cons.IH insertFactRowTx_rest same_rest_trans show ?case by blast
qed (simp add: same_rest_def)

lemma write_append_intent:
  assumes "write_append batch dig (cs, ws, fs, r) d = Inr d'" "distinct (map fst (OwnerRanges r))"
  shows "find_intent d' (AppendIntentID batch) =
      Some \<lparr>IntentID = AppendIntentID batch, IntentDigest = dig, IntentReceipt = receiptToJSON r\<rparr>
    \<and> find_intent d (AppendIntentID batch) = None
    \<and> Contexts d' = Contexts d @ map (\<lambda>c. context_row_of c (AppendIntentID batch)) cs
    \<and> NextCommitSeq d' = (if CommitReceipts r \<noteq> [] then map_option (\<lambda>_. nextCommitSeq (CommitReceipts r)) (NextCommitSeq d)
        else NextCommitSeq d)"
  using assms(1)
proof (cases rule: write_append_Inr)
  case (1 d1 d2 d3 d4)
  let ?row = "\<lparr>IntentID = AppendIntentID batch, IntentDigest = dig, IntentReceipt = receiptToJSON r\<rparr>"
  have "same_rest d1 d4"
    using insert_witnesses_rest[OF 1(3)] insert_facts_rest[OF 1(4)] update_ordinals_Inr[OF 1(5) assms(2)] same_rest_trans by blast
  then have d': "AppendIntents d' = AppendIntents d @ [?row]"
    "Contexts d' = Contexts d @ map (\<lambda>c. context_row_of c (AppendIntentID batch)) cs"
    "NextCommitSeq d' = (if CommitReceipts r \<noteq> [] then map_option (\<lambda>_. nextCommitSeq (CommitReceipts r)) (NextCommitSeq d)
        else NextCommitSeq d)"
    by (simp_all add: 1(2,6) same_rest_def update_commit_seq_def)
  have n: "find_intent d (AppendIntentID batch) = None" using 1(1) by (simp add: intents.look_None)
  then have "find_intent d' (AppendIntentID batch) = Some ?row"
    by (simp add: find_intent_def d'(1) find_append)
  with n d'(2,3) show ?thesis by blast
qed

text \<open>Every string a digested batch carries is valid UTF-8.\<close>

lemma canonical_items_in: "canonical_items lib xs = Inr js \<Longrightarrow> x \<in> set xs \<Longrightarrow> \<exists>j. canonical_tree lib x = Inr j"
  by (induction xs arbitrary: js) (auto simp: bindR_eq_Inr)

lemma canonical_slice_in: "canonical_tree lib (VSlice xs) = Inr j \<Longrightarrow> x \<in> set xs \<Longrightarrow> \<exists>j. canonical_tree lib x = Inr j"
  using canonical_items_in by (auto simp: bindR_eq_Inr)

lemma canonical_string_valid: "canonical_tree lib (VString s) = Inr j \<Longrightarrow> valid_string s"
  by (auto simp: bindR_eq_Inr check_string_def split: if_splits)

lemma mapR_in: "mapR f xs = Inr ys \<Longrightarrow> x \<in> set xs \<Longrightarrow> \<exists>y\<in>set ys. f x = Inr y"
  by (induction xs arbitrary: ys) (auto simp: bindR_eq_Inr)

lemma batchDigest_valid:
  assumes "batchDigest lib batch ctx = Inr dig"
  shows "valid_string (AppendIntentID batch)"
    and "g \<in> set (elems (Groups batch)) \<Longrightarrow> valid_string (TraceOwnerID g)
      \<and> (\<forall>c. GroupContext g = Some c \<longrightarrow> ContextID c \<noteq> [] \<longrightarrow> SubstrateRef c = [] \<longrightarrow> valid_string (ContextID c))"
proof -
  obtain p t where p: "batch_document batch ctx = Inr p" "canonical_json_ascii_bytes lib p = Inr t"
    using assms by (auto simp: batchDigest_def bindR_eq_Inr)
  obtain j where j: "canonical_tree lib p = Inr j"
    using p(2) by (auto simp: canonical_json_ascii_bytes_def write_value_print bindR_eq_Inr)
  obtain gs where gs: "mapR group_document (elems (Groups batch)) = Inr gs" and pe: "p = VMap
      [(''append_intent_id'', VString (AppendIntentID batch)), (''atomicity'', VString ''atomic''),
       (''actor_ref'', VString (ActorRef ctx)), (''schema_version_set'', VString (SchemaEnvironmentRef ctx)),
       (''groups'', VSlice gs)]"
    using p(1) by (auto simp: batch_document_def bindR_eq_Inr)
  note mem = canonical_map_in[OF j[unfolded pe]]
  show "valid_string (AppendIntentID batch)"
    using mem[of "''append_intent_id''" "VString (AppendIntentID batch)"] canonical_string_valid by force
  assume "g \<in> set (elems (Groups batch))"
  then obtain gv where gv: "gv \<in> set gs" "group_document g = Inr gv" using mapR_in[OF gs] by blast
  obtain js where "canonical_tree lib (VSlice gs) = Inr js" using mem[of "''groups''" "VSlice gs"] by auto
  then obtain gj where gj: "canonical_tree lib gv = Inr gj" using canonical_slice_in gv(1) by blast
  obtain ds where ds: "gv = VMap
      [(''trace_owner_id'', VString (TraceOwnerID g)), (''retained_context'', contextDraftJSON (GroupContext g)),
       (''causal_parents'', of_strings (NonNilStrings (CausalParents g))), (''fact_drafts'', VSlice ds)]"
    using gv(2) by (auto simp: group_document_def bindR_eq_Inr)
  note gmem = canonical_map_in[OF gj[unfolded ds]]
  have "valid_string (TraceOwnerID g)"
    using gmem[of "''trace_owner_id''" "VString (TraceOwnerID g)"] canonical_string_valid by force
  moreover have "valid_string (ContextID c)"
    if c: "GroupContext g = Some c" "ContextID c \<noteq> []" "SubstrateRef c = []" for c
  proof -
    obtain cj where "canonical_tree lib (contextDraftJSON (GroupContext g)) = Inr cj"
      using gmem[of "''retained_context''" "contextDraftJSON (GroupContext g)"] by auto
    then have "\<exists>j. canonical_tree lib (VString (ContextID c)) = Inr j"
      using canonical_map_in[of lib _ cj "''reuse_context_id''" "VString (ContextID c)"] c
      by (simp add: contextDraftJSON_def Let_def)
    then show ?thesis using canonical_string_valid by blast
  qed
  ultimately show "valid_string (TraceOwnerID g)
      \<and> (\<forall>c. GroupContext g = Some c \<longrightarrow> ContextID c \<noteq> [] \<longrightarrow> SubstrateRef c = [] \<longrightarrow> valid_string (ContextID c))"
    by blast
qed


text \<open>Ids and commit receipts are ASCII.\<close>

lemma digest_valid: "RecordDigest lib s m b c w = Inr i \<Longrightarrow> valid_string i"
proof -
  assume "RecordDigest lib s m b c w = Inr i"
  then obtain t where "i = digest_string lib t" by (auto simp: RecordDigest_Inr CanonicalDigest_Inr)
  then have "list_all (\<lambda>c. byte c < 128) i"
    using hex_ascii[of "sha256 lib t"] by (simp add: digest_string_def byte_def)
  then show ?thesis by (rule valid_string_ascii)
qed

lemma itoa_ascii: "list_all (\<lambda>c. byte c < 128) (itoa i)"
proof -
  have "list_all (\<lambda>c. byte c < 128) (dec_of_nat n)" for n
    using dec_of_nat_digits[of _ n] by (force simp: list_all_iff is_digit_def)
  then show ?thesis by (simp add: itoa_def)
qed

lemma commit_valid: "valid_string (commit_receipt n)"
  using itoa_ascii[of n] by (intro valid_string_ascii) (simp add: commit_receipt_def byte_def)

lemma facts_ok_each: "facts_ok lib d before fs \<Longrightarrow> f \<in> set fs \<Longrightarrow> \<exists>b. fact_ok lib d b f"
  by (induction fs arbitrary: before) auto

lemma prepare_draft_receipts: "prepare_draft lib d nc g rc wp (st, k) draft = Inr (st', k') \<Longrightarrow>
  stContextReceipts st' = stContextReceipts st"
  by (erule prepare_draft_Inr) simp

lemma prepare_drafts_receipts: "foldR (prepare_draft lib d nc g rc wp) (st, k) drafts = Inr (st', k') \<Longrightarrow>
  stContextReceipts st' = stContextReceipts st"
proof (induction drafts arbitrary: st k)
  case (Cons draft drafts)
  obtain st1 k1 where "prepare_draft lib d nc g rc wp (st, k) draft = Inr (st1, k1)"
      "foldR (prepare_draft lib d nc g rc wp) (st1, k1) drafts = Inr (st', k')"
    using Cons.prems by (auto simp: bindR_eq_Inr)
  with Cons.IH prepare_draft_receipts show ?case by metis
qed simp

lemma resolved_id_valid:
  assumes "resolveGroupContextTx lib d intent n g ctx = Inr rc"
    and "\<forall>c. GroupContext g = Some c \<longrightarrow> ContextID c \<noteq> [] \<longrightarrow> SubstrateRef c = [] \<longrightarrow> valid_string (ContextID c)"
  shows "valid_string (ContextID rc)"
proof (cases "\<exists>c. GroupContext g = Some c \<and> ContextID c \<noteq> [] \<and> SubstrateRef c = []")
  case True
  then obtain c where c: "GroupContext g = Some c" "ContextID c \<noteq> []" "SubstrateRef c = []" by blast
  then have "readContextTx d (ContextID c) = Inr rc" using assms(1) by (simp add: resolveGroupContextTx_def)
  with readContextTx_id assms(2) c show ?thesis by metis
next
  case False
  then obtain draft where "resolve_draft lib d intent n ctx draft = Inr rc"
    using assms(1) by (auto simp: resolveGroupContextTx_def split: option.splits if_splits)
  then obtain i where i: "contextIDFor lib intent n (contextPayload draft ctx) = Inr i"
    and e: "(case readContextTx d i of
       Inr existing \<Rightarrow>
         if \<not> contextEqual existing ((contextPayload draft ctx)\<lparr>ContextID := i\<rparr>)
         then Inl (TraceStoreError ''context id already names a different context'' [i])
         else Inr existing
     | Inl _ \<Rightarrow> Inr ((contextPayload draft ctx)\<lparr>ContextID := i\<rparr>)) = Inr rc"
    unfolding resolve_draft_def Let_def bindR_eq_Inr by blast
  have "rc = (contextPayload draft ctx)\<lparr>ContextID := i\<rparr> \<or> readContextTx d i = Inr rc"
    using e by (cases "readContextTx d i") (simp_all split: if_splits)
  then have "ContextID rc = i" using readContextTx_id by auto
  with contextIDFor_valid[OF i] show ?thesis by simp
qed

lemma prepare_groups_receipts:
  assumes "foldR (prepare_group lib d intent ctx nc) st ngs = Inr st'" "list_all valid_string (stContextReceipts st)"
    and "\<forall>(n, g)\<in>set ngs. \<forall>c. GroupContext g = Some c \<longrightarrow> ContextID c \<noteq> [] \<longrightarrow> SubstrateRef c = [] \<longrightarrow> valid_string (ContextID c)"
  shows "list_all valid_string (stContextReceipts st')"
proof (rule foldR_invariant[where P = "\<lambda>s. list_all valid_string (stContextReceipts s)", OF assms(1,2)])
  fix s ng s'
  assume in_: "ng \<in> set ngs" and s: "list_all valid_string (stContextReceipts s)" "prepare_group lib d intent ctx nc s ng = Inr s'"
  obtain n g where ng: "ng = (n, g)" by (cases ng)
  show "list_all valid_string (stContextReceipts s')"
  proof (cases "elems (FactDrafts g) = []")
    case True
    with s ng show ?thesis by (simp add: prepare_group_def Let_def)
  next
    case False
    obtain rc where rc: "resolveGroupContextTx lib d intent n g ctx = Inr rc"
        "stContextReceipts s' = stContextReceipts s @ [ContextID rc]"
      using s(2) False ng by (auto simp: prepare_group_def Let_def bindR_eq_Inr dest!: prepare_drafts_receipts)
    have "valid_string (ContextID rc)" using assms(3) in_ ng by (intro resolved_id_valid[OF rc(1)]) auto
    with s(1) rc(2) show ?thesis by simp
  qed
qed

text \<open>Ordinals and commit numbers stay in a Go \<open>int\<close>.\<close>

definition int64_room :: "db \<Rightarrow> nat \<Rightarrow> bool" where
  "int64_room d n \<longleftrightarrow> (\<forall>ow. 0 \<le> nextOwnerOrdinalTx d ow \<and> nextOwnerOrdinalTx d ow + int n < 2 ^ 63)
    \<and> (\<forall>k. NextCommitSeq d = Some k \<longrightarrow> 0 \<le> k \<and> k + int n < 2 ^ 63)"

lemma prepared_receipt_ok:
  assumes p: "prepareAppend lib d batch ctx = Inr (cs, ws, fs, r)" and b: "batchDigest lib batch ctx = Inr dig"
    and room: "int64_room d (length (batch_drafts batch))"
  shows "receipt_ok r"
  using p
proof (cases rule: prepareAppend_Inr)
  case (1 nc st)
  note bv = batchDigest_valid[OF b]
  have origins: "map fact_origin fs = map draft_origin (batch_drafts batch)" using 1(5,10) by (simp add: staged_origins_def)
  have facts: "facts_ok lib d {} fs" using 1(5,7) by (simp add: staged_facts_ok_def)
  have dig: "\<exists>s m c b w. RecordDigest lib s m b c w = Inr (RecordID (Envelope f)) \<and> c = elems (CausedByIDs (Envelope f))"
    if f: "f \<in> set fs" for f
  proof -
    obtain before where "fact_ok lib d before f" using facts_ok_each[OF facts f] by blast
    then obtain g rc wp draft s cs i k where r: "f = draft_record g rc wp draft s cs i k"
        "RecordDigest lib s (DraftMode draft) (DraftPayload draft) cs (planID wp) = Inr i"
      unfolding fact_ok_def by blast
    have "RecordID (Envelope f) = i" "cs = elems (CausedByIDs (Envelope f))" by (simp_all add: r(1) draft_record_def)
    with r(2) show ?thesis by blast
  qed
  have "list_all valid_string (FactIDs r)"
    using dig digest_valid by (fastforce simp: 1(5,6) factIDs_def list_all_iff)
  moreover have "list_all valid_string (CommitReceipts r)"
    using 1(7) by (simp add: 1(6) staged_facts_ok_def commits_from_def list_all_iff commit_valid)
  moreover have "list_all valid_string (ContextReceipts r)"
  proof -
    have "list_all valid_string (stContextReceipts st)"
    proof (rule prepare_groups_receipts[OF 1(2)])
      have "snd ng \<in> set gs" if "ng \<in> set (enumerate 0 gs)" for ng :: "nat \<times> AppendGroup" and gs
        using that by (simp add: in_set_enumerate_eq) (metis nth_mem)
      then show "\<forall>(n, g)\<in>set (enumerate 0 (elems (Groups batch))). \<forall>c. GroupContext g = Some c \<longrightarrow>
          ContextID c \<noteq> [] \<longrightarrow> SubstrateRef c = [] \<longrightarrow> valid_string (ContextID c)"
        using bv(2) by fastforce
    qed (simp add: initial_staging_def)
    then show ?thesis by (simp add: 1(6))
  qed
  moreover have "list_all (\<lambda>(p, c). valid_string p \<and> valid_string c) (CausalEdges r)"
  proof -
    have "valid_string p \<and> valid_string (RecordID (Envelope f))"
      if "f \<in> set fs" "p \<in> set (elems (CausedByIDs (Envelope f)))" for f p
      using dig[OF that(1)] that(2) digest_valid RecordDigest_causes by (fastforce simp: list_all_iff)
    then show ?thesis using 1(5,7) by (auto simp: 1(6) staged_facts_ok_def list_all_iff)
  qed
  moreover have "list_all (\<lambda>(ow, lo, hi). valid_string ow \<and> - (2 ^ 63) \<le> lo \<and> lo < 2 ^ 63 \<and> - (2 ^ 63) \<le> hi \<and> hi < 2 ^ 63)
      (OwnerRanges r)"
  proof -
    have "valid_string ow \<and> - (2 ^ 63) \<le> lo \<and> lo < 2 ^ 63 \<and> - (2 ^ 63) \<le> hi \<and> hi < 2 ^ 63"
      if "(ow, lo, hi) \<in> set (OwnerRanges r)" for ow lo hi
    proof -
      have m: "map_of (stRanges st) ow = Some (lo, hi)"
      proof (rule map_of_is_SomeI)
        show "distinct (map fst (stRanges st))" using 1(8) by (simp add: ordinals_ok_def)
        show "(ow, lo, hi) \<in> set (stRanges st)" using that by (simp add: 1(6))
      qed
      then have o: "ords fs ow \<noteq> []" "lo = nextOwnerOrdinalTx d ow" "hi = nextOwnerOrdinalTx d ow + int (length (ords fs ow)) - 1"
        using 1(5,8) by (auto simp: ordinals_ok_def split: if_splits)
      have "length (ords fs ow) \<le> length fs" by (simp add: ords_def)
      also have "\<dots> = length (batch_drafts batch)" by (rule map_eq_imp_length_eq[OF origins])
      finally have l: "int (length (ords fs ow)) \<le> int (length (batch_drafts batch))" by simp
      have n: "0 \<le> nextOwnerOrdinalTx d ow" "nextOwnerOrdinalTx d ow + int (length (batch_drafts batch)) < 2 ^ 63"
        using room by (simp_all add: int64_room_def)
      have bounds: "- (2 ^ 63) \<le> lo" "lo < 2 ^ 63" "- (2 ^ 63) \<le> hi" "hi < 2 ^ 63" using o(2,3) l n by linarith+
      obtain f where f: "f \<in> set fs" "fst (fact_slot f) = ow" using o(1) by (auto simp: ords_def filter_empty_conv)
      then have "fact_origin f \<in> set (map draft_origin (batch_drafts batch))" using origins by (metis image_eqI set_map)
      then obtain g where "g \<in> set (elems (Groups batch))" "TraceOwnerID g = ow"
        using f(2) by (auto simp: fact_origin_def draft_origin_def batch_drafts_def)
      with bv(2) bounds show ?thesis by blast
    qed
    then show ?thesis by (auto simp: list_all_iff)
  qed
  ultimately show ?thesis using bv(1) by (simp add: receipt_ok_def 1(6))
qed

text \<open>A commit receipt scans back to its number, so the sequence moves past the batch.\<close>

lemma sscanf_commit_receipt:
  assumes "0 \<le> k" "k < 2 ^ 63"
  shows "sscanf_commit (commit_receipt k) = k"
proof -
  have d: "list_all is_digit (itoa k)" using assms(1) by (simp add: itoa_def list_all_iff dec_of_nat_digits)
  obtain c t where c: "itoa k = c # t" by (cases "itoa k") auto
  have cd: "is_digit c" "list_all is_digit t" using d c by simp_all
  then have n: "c \<noteq> CHR '' ''" "c \<noteq> CHR 0x09" "c \<noteq> CHR ''-''" "c \<noteq> CHR ''+''"
    by (auto simp: is_digit_def byte_def)
  have "takeWhile is_digit (c # t) = c # t" using cd by (simp add: list_all_iff)
  moreover have "has_prefix (commit_receipt k) ''commit:''" "drop 7 (commit_receipt k) = c # t"
    by (simp_all add: has_prefix_def commit_receipt_def c)
  ultimately show ?thesis
    using n parse_int64_itoa[of k] assms c by (simp add: sscanf_commit_def Let_def)
qed

lemma nextCommitSeq_run:
  assumes "0 \<le> nc" "nc + int n < 2 ^ 63" "0 < n"
  shows "nextCommitSeq (commits_from nc n) = nc + int n"
  using assms
proof (induction n)
  case (Suc n)
  have s: "sscanf_commit (commit_receipt (nc + int n)) = nc + int n"
    using Suc.prems by (intro sscanf_commit_receipt) auto
  show ?case
  proof (cases "n = 0")
    case True
    then show ?thesis using s Suc.prems by (simp add: commits_from_def nextCommitSeq_def)
  next
    case False
    then have "nextCommitSeq (commits_from nc n) = nc + int n" using Suc by simp
    then show ?thesis using s by (simp add: commits_from_Suc nextCommitSeq_def)
  qed
qed simp

end
