(* ===== verification/Append_Scenario.thy ===== *)
theory Append_Scenario
  imports Append_Laws
begin

text \<open>
  Progress: values made of valid strings, booleans and integers always have canonical bytes, so
  the digests over them succeed; and a store that follows one append from the fresh file to the
  commit, the scenario at which the laws of the append are instantiated.
\<close>

section \<open>Values that always have a digest\<close>

fun plain :: "gval \<Rightarrow> bool" where
  "plain (VString s) = valid_string s"
| "plain (VSlice vs) = list_all plain vs"
| "plain (VMap kvs) = list_all (\<lambda>(k, v). valid_string k \<and> plain v) kvs"
| "plain (VPtr v) = plain v"
| "plain (VBool b) = True"
| "plain (VInt i) = True"
| "plain VNil = True"
| "plain VNilSlice = True"
| "plain VNilMap = True"
| "plain VNilPtr = True"
| "plain _ = False"

lemma plain_tree:
  "plain v \<Longrightarrow> \<exists>j. canonical_tree lib v = Inr j"
  "list_all plain vs \<Longrightarrow> \<exists>js. canonical_items lib vs = Inr js"
  "list_all (\<lambda>(k, v). valid_string k \<and> plain v) kvs \<Longrightarrow> \<exists>js. canonical_fields lib kvs = Inr js"
proof (induction lib v and lib vs and lib kvs rule: canonical_tree_canonical_items_canonical_fields.induct)
  case (9 lib kvs)
  then have "list_all (\<lambda>(k, v). valid_string k \<and> plain v) (sorted_fields kvs)" by (simp add: sorted_fields_def list_all_iff)
  with 9 show ?case by fastforce
qed (fastforce simp: check_string_def bindR_eq_Inr)+

lemma plain_ok: "plain v \<Longrightarrow> gval_ok v"
  by (induction v rule: plain.induct) (auto simp: list_all_iff)

lemma plain_bytes: "plain v \<Longrightarrow> \<exists>t. write_value lib asc v = Inr t"
  using plain_tree(1)[of v lib] by (auto simp: write_value_print)

lemma plain_strings [simp]: "plain (of_strings (Some xs)) \<longleftrightarrow> list_all valid_string xs"
  by (simp add: of_strings_def list_all_iff)

lemma RecordDigest_plain:
  assumes "plain (VMap (elems b))" "list_all valid_string c" "list_all valid_string [s, w]"
    and "s \<noteq> []" "s \<noteq> RootWitnessSchemaRef" "m = Capture \<or> m = Declaration" "has_prefix w ''sha256:''"
  shows "\<exists>i. RecordDigest lib s m b c w = Inr i"
proof -
  have ascii: "valid_string x" if "list_all (\<lambda>c. byte c < 128) x" for x using valid_string_ascii[OF that] .
  have keys: "list_all valid_string [''body'', ''caused_by'', ''kind'', ''record'', ''mode'', ''schema_ref'', ''witness'',
      Capture, Declaration]"
    by (simp add: Capture_def Declaration_def) (intro conjI; rule ascii; simp add: byte_def)
  then have "plain (record_input s m b c w)" using assms by (auto simp: record_input_def list_all_iff)
  from plain_bytes[OF this] obtain t where "canonical_json_bytes lib (record_input s m b c w) = Inr t"
    unfolding canonical_json_bytes_def by blast
  moreover have "w \<noteq> []" using assms(7) by (auto simp: has_prefix_def)
  ultimately show ?thesis using assms by (auto simp: RecordDigest_Inr CanonicalDigest_Inr ValidateRootWitnessRecord_def)
qed

section \<open>One append to a fresh store\<close>

definition demo_lib :: golib where
  "demo_lib = \<lparr>sha256 = id, parse_float = Map.empty\<rparr>"

lemma demo_lib_ok: "lib_ok demo_lib" "inj (sha256 demo_lib)" "root_unique demo_lib"
  using root_unique_inj[of demo_lib] by (simp_all add: lib_ok_def demo_lib_def inj_def)

definition demo_draft :: RecordDraft where
  "demo_draft = \<lparr>DraftMode = ''capture'', DraftSchemaRef = ''note.v1'', DraftPayload = Some [(''done'', VBool True)],
    DraftKindLabel = [], AppendLocalID = ''a'', CausedByFactIDs = None, CausedByLocalRefs = None\<rparr>"

definition demo_group :: AppendGroup where
  "demo_group = \<lparr>TraceOwnerID = ''alice'', GroupContext = None, CausalParents = None, FactDrafts = Some [demo_draft]\<rparr>"

definition demo_batch :: AppendBatch where
  "demo_batch = \<lparr>AppendIntentID = ''intent-1'', Groups = Some [demo_group]\<rparr>"

definition demo_store :: store where
  "demo_store = \<lparr>Db = empty_db\<lparr>NextCommitSeq := Some 0\<rparr>, Bus = None, BlobLimit = 0\<rparr>"

definition demo_env :: tx_env where
  "demo_env = \<lparr>begin_error = None, commit_error = None, clock = 7\<rparr>"

abbreviation demo_ctx :: OperationContext where
  "demo_ctx \<equiv> append_operation_context TrustedAppendContext OpAppend"

lemmas demo_defs = demo_draft_def demo_group_def demo_batch_def demo_store_def demo_env_def empty_db_def

lemma demo_opened: "NewSQLiteTraceStore None \<lparr>Tables = [], Content = empty_db\<rparr>
    = (Inr demo_store, createSchema \<lparr>Tables = [], Content = empty_db\<rparr>)"
  by (simp add: NewSQLiteTraceStore_def createSchema_def demo_store_def empty_db_def)

lemma demo_valid: "ensureAppendAuthorized demo_ctx = Inr ()" "validateBatchShape demo_batch = Inr ()"
  by (simp_all add: ensureAppendAuthorized_def append_operation_context_def TrustedAppendContext_def
      validateBatchShape_def validate_draft_def resolveSchemaRef_def demo_defs Capture_def
      json_text_def of_gmap_def sorted_fields_sorted)

lemma demo_strings: "list_all valid_string [''append_intent_id'', ''intent-1'', ''atomicity'', ''atomic'', ''actor_ref'',
    ''runtime:internal'', ''schema_version_set'', ''shepherd2-slice-a'', ''groups'', ''trace_owner_id'', ''alice'',
    ''retained_context'', ''causal_parents'', ''fact_drafts'', ''append_local_id'', ''a'', ''kind_label'', ''mode'', ''capture'',
    ''schema_ref'', ''note.v1'', ''payload'', ''caused_by_fact_ids'', ''caused_by_local_refs'', ''done'', [],
    ''active_binding_refs'', ''capability_witness_refs'', ''semantic_environment_refs'', ''visibility_policy_refs'',
    ''substrate_ref'', ''sqlite.local.v1'', ''containment'', ''contained'', ''reuse_context_id'', ''authority_refs'',
    ''provenance_policy_refs'', ''kernel.witness.v1'']"
  by (simp only: list.pred_inject simp_thms, intro conjI; rule valid_string_ascii; simp add: byte_def)

lemmas demo_valid_strings = demo_strings[unfolded list.pred_inject simp_thms]

lemma demo_ctx_fields: "ActorRef demo_ctx = ''runtime:internal''" "SchemaEnvironmentRef demo_ctx = ''shepherd2-slice-a''"
  by (simp_all add: append_operation_context_def TrustedAppendContext_def)

lemma demo_document: "\<exists>p. batch_document demo_batch demo_ctx = Inr p \<and> plain p"
  using demo_valid_strings
  by (simp add: batch_document_def group_document_def draft_document_def resolveSchemaRef_def demo_defs
      demo_ctx_fields contextDraftJSON_def defaultContextDraft_def ContainContained_def NonNilStrings_def
      nullableString_def of_gmap_def of_strings_def)

lemma demo_digest: "\<exists>dig. batchDigest lib demo_batch demo_ctx = Inr dig"
proof -
  obtain p where p: "batch_document demo_batch demo_ctx = Inr p" "plain p" using demo_document by blast
  then show ?thesis using plain_bytes[of p lib True]
    by (auto simp: batchDigest_def canonical_json_ascii_bytes_def)
qed

definition demo_context :: "string \<Rightarrow> RetainedContext" where
  "demo_context c = (contextPayload defaultContextDraft demo_ctx)\<lparr>ContextID := c\<rparr>"

lemma demo_context_resolves:
  "\<exists>c. resolveGroupContextTx lib (Db demo_store) ''intent-1'' 0 demo_group demo_ctx = Inr (demo_context c)"
proof -
  have "plain (context_document (contextPayload defaultContextDraft demo_ctx))"
    using demo_valid_strings
    by (simp add: context_document_def contextPayload_def defaultContextDraft_def demo_ctx_fields ContainContained_def
        deduplicate_def of_strings_def)
  from plain_bytes[OF this, of lib True]
  obtain c where "contextIDFor lib ''intent-1'' 0 (contextPayload defaultContextDraft demo_ctx) = Inr c"
    by (auto simp: contextIDFor_def canonical_json_ascii_bytes_def)
  then show ?thesis
    by (intro exI[of _ c]) (simp add: resolveGroupContextTx_def resolve_draft_def demo_defs demo_context_def
        readContextTx_def find_context_def Let_def)
qed

lemma root_id_valid: "valid_string (RootWitnessRecordIDMust lib)" "has_prefix (RootWitnessRecordIDMust lib) ''sha256:''"
  using RootWitnessRecordID_total[of lib] digest_valid RecordDigest_prefix unfolding RootWitnessRecordID_def by blast+

lemma demo_witness: "\<exists>wp. ordinaryWitnessPlan lib (demo_context c) demo_ctx = Inr wp"
proof -
  have body: "plain (VMap (elems (ordinary_body (demo_context c) demo_ctx)))"
    using demo_valid_strings
    by (simp add: ordinary_body_def demo_context_def contextPayload_def defaultContextDraft_def demo_ctx_fields
        ContainContained_def NonNilStrings_def dedup_loop.simps)
  have "\<exists>i. RecordDigest lib WitnessSchemaRef Capture (ordinary_body (demo_context c) demo_ctx) []
      (RootWitnessRecordIDMust lib) = Inr i"
    using demo_valid_strings root_id_valid
    by (intro RecordDigest_plain[OF body]) (simp_all add: WitnessSchemaRef_def RootWitnessSchemaRef_def)
  moreover have "ValidateWitnessBody WitnessSchemaRef (ordinary_body (demo_context c) demo_ctx) = Inr ()"
    by (simp add: ValidateWitnessBody_def witness_required_fields_def ordinary_body_def get_key_def valid_containments_def
        WitnessSchemaRef_def RootWitnessSchemaRef_def demo_context_def contextPayload_def defaultContextDraft_def
        ContainContained_def)
  ultimately show ?thesis by (auto simp: ordinaryWitnessPlan_def)
qed

definition demo_record :: "string \<Rightarrow> witnessPlan \<Rightarrow> string \<Rightarrow> Record" where
  "demo_record c wp i = draft_record demo_group (demo_context c) wp demo_draft ''note.v1'' [] i 0"

definition demo_receipt :: "string \<Rightarrow> string \<Rightarrow> AppendReceipt" where
  "demo_receipt c i = \<lparr>ReceiptIntentID = ''intent-1'', FactIDs = [i], CommitReceipts = [commit_receipt 0],
    OwnerRanges = [(''alice'', 0, 0)], CausalEdges = [], ContextReceipts = [c]\<rparr>"

text \<open>The ids of the scenario: the context, its witness and the record, all different.\<close>

definition demo_ids :: "golib \<Rightarrow> string \<Rightarrow> witnessPlan \<Rightarrow> string \<Rightarrow> bool" where
  "demo_ids lib c wp i \<longleftrightarrow>
    resolveGroupContextTx lib (Db demo_store) ''intent-1'' 0 demo_group demo_ctx = Inr (demo_context c)
    \<and> ordinaryWitnessPlan lib (demo_context c) demo_ctx = Inr wp
    \<and> RecordDigest lib ''note.v1'' ''capture'' (Some [(''done'', VBool True)]) [] (planID wp) = Inr i
    \<and> planID wp \<noteq> RootWitnessRecordIDMust lib \<and> i \<noteq> RootWitnessRecordIDMust lib \<and> i \<noteq> planID wp"

lemma demo_ids_exist:
  assumes "lib_ok lib" "inj (sha256 lib)"
  shows "\<exists>c wp i. demo_ids lib c wp i"
proof -
  obtain c wp where c: "resolveGroupContextTx lib (Db demo_store) ''intent-1'' 0 demo_group demo_ctx = Inr (demo_context c)"
    "ordinaryWitnessPlan lib (demo_context c) demo_ctx = Inr wp"
    using demo_context_resolves demo_witness by blast
  note w = ordinaryWitnessPlan_Inr[OF c(2)]
  have wid: "valid_string (planID wp)" "has_prefix (planID wp) ''sha256:''"
    using digest_valid[OF w(6)] RecordDigest_prefix[OF w(6)] by simp_all
  have "\<exists>i. RecordDigest lib ''note.v1'' ''capture'' (Some [(''done'', VBool True)]) [] (planID wp) = Inr i"
    using demo_valid_strings wid by (intro RecordDigest_plain) (simp_all add: RootWitnessSchemaRef_def Capture_def)
  then obtain i where i: "RecordDigest lib ''note.v1'' ''capture'' (Some [(''done'', VBool True)]) [] (planID wp) = Inr i"
    by blast
  have body: "gval_ok (VMap (elems (Some [(''done'', VBool True)])))" by simp
  have root: "RecordDigest lib RootWitnessSchemaRef Capture RootWitnessBody [] RootWitnessRef = Inr (RootWitnessRecordIDMust lib)"
    using RootWitnessRecordID_total[of lib] by (simp add: RootWitnessRecordID_def)
  have inj: "inj_on (sha256 lib) A" for A using assms(2) by (rule inj_on_subset) simp
  have "planID wp \<noteq> RootWitnessRecordIDMust lib"
    using root_unique_inj[OF assms(2,1)] c(2) unfolding root_unique_def by blast
  moreover have "i \<noteq> RootWitnessRecordIDMust lib"
    using RecordDigest_inject[OF assms(1) body ordinary_body_ok(2) i _ inj] root by (auto simp: RootWitnessSchemaRef_def)
  moreover have "i \<noteq> planID wp"
  proof
    assume "i = planID wp"
    from RecordDigest_inject[OF assms(1) body ordinary_body_ok(1) i[unfolded this] w(6) inj]
    show False by (simp add: WitnessSchemaRef_def)
  qed
  ultimately show ?thesis using c i unfolding demo_ids_def by blast
qed

lemma demo_prepare:
  assumes "demo_ids lib c wp i"
  shows "prepareAppend lib (Db demo_store) demo_batch demo_ctx
    = Inr ([demo_context c], [rootWitnessPlan lib, wp], [demo_record c wp i], demo_receipt c i)"
proof -
  have r: "resolveGroupContextTx lib (Db demo_store) ''intent-1'' 0 demo_group demo_ctx = Inr (demo_context c)"
    "ordinaryWitnessPlan lib (demo_context c) demo_ctx = Inr wp"
    "RecordDigest lib ''note.v1'' ''capture'' (Some [(''done'', VBool True)]) [] (planID wp) = Inr i"
    and n: "planID wp \<noteq> RootWitnessRecordIDMust lib"
    using assms by (simp_all add: demo_ids_def)
  have drafts: "elems (FactDrafts demo_group) = [demo_draft]" "groupOwner demo_group = ''alice''"
    by (simp_all add: demo_defs groupOwner_def)
  have causes: "resolvedCauses demo_group demo_draft m = Inr []" for m
    by (simp add: resolvedCauses_def demo_defs)
  have "prepare_draft lib (Db demo_store) 0 demo_group (demo_context c) wp (st, 0) demo_draft =
     Inr (st\<lparr>localFactIDs := (localFactIDs st)(''a'' \<mapsto> i), stFacts := stFacts st @ [demo_record c wp i],
          stCommits := stCommits st @ [commit_receipt (int (length (stFacts st)))],
          stagedIDs := insert i (stagedIDs st)\<rparr>, 1)" for st
    using r(3) by (simp add: prepare_draft_def causes validateCausalParentsTx_def resolveSchemaRef_def demo_record_def)
      (simp add: demo_draft_def)
  then have "prepare_group lib (Db demo_store) ''intent-1'' demo_ctx 0 (initial_staging (Db demo_store) [demo_group]) (0, demo_group)
    = Inr \<lparr>stagedIDs = {i}, localFactIDs = [''a'' \<mapsto> i], stagedNext = [(''alice'', 1)], stContexts = [demo_context c],
       stWitnesses = addWitnessPlan wp (addWitnessPlan (rootWitnessPlan lib) om_empty), stFacts = [demo_record c wp i],
       stCommits = [commit_receipt 0], stEdges = [], stContextReceipts = [c], stRanges = [(''alice'', 0, 0)]\<rparr>"
    using r(1,2)
    by (simp add: prepare_group_def drafts initial_staging_def start_ordinals_def range_update_def Let_def
        contextExistsTx_def find_context_def nextOwnerOrdinalTx_def demo_store_def empty_db_def demo_context_def)
  then show ?thesis
    using n by (simp add: prepareAppend_def nextCommitSeqTx_def demo_batch_def demo_store_def
        factIDs_def demo_receipt_def addWitnessPlan_def om_put_def om_empty_def rootWitnessPlan_def List.map_filter_simps
        demo_record_def draft_record_def)
qed

text \<open>The commit: the tables after the append.\<close>

definition demo_entry :: "string \<Rightarrow> int \<Rightarrow> string \<Rightarrow> string \<Rightarrow> string \<Rightarrow> string \<Rightarrow> path_row" where
  "demo_entry ow n i c k r = \<lparr>PathRef = ow, PathOrdinal = n, PathRecord = i, PathContext = c, PathKind = k,
    PathIntent = ''intent-1'', PathCommit = r\<rparr>"

definition demo_db :: "golib \<Rightarrow> string \<Rightarrow> string \<Rightarrow> witnessPlan \<Rightarrow> string \<Rightarrow> db" where
  "demo_db lib dig c wp i = (Db demo_store)
    \<lparr>AppendIntents := [\<lparr>IntentID = ''intent-1'', IntentDigest = dig, IntentReceipt = receiptToJSON (demo_receipt c i)\<rparr>],
     Contexts := [context_row_of (demo_context c) ''intent-1''],
     Records := [record_row_of (witness_fact (rootWitnessPlan lib) 0) ''intent-1'', record_row_of (witness_fact wp 1) ''intent-1'',
       record_row_of (demo_record c wp i) ''intent-1''],
     PathEntries := [demo_entry witnessTraceOwnerID 0 (RootWitnessRecordIDMust lib) [] ''witness_root''
         (''witness:'' @ RootWitnessRecordIDMust lib),
       demo_entry witnessTraceOwnerID 1 (planID wp) [] ''witness'' (''witness:'' @ planID wp),
       demo_entry ''alice'' 0 i c ''note.v1'' (commit_receipt 0)],
     OwnerOrdinals := [(witnessTraceOwnerID, 2), (''alice'', 1)],
     NextCommitSeq := Some 1\<rparr>"

lemma demo_write:
  assumes "demo_ids lib c wp i"
  shows "write_append demo_batch dig ([demo_context c], [rootWitnessPlan lib, wp], [demo_record c wp i], demo_receipt c i)
    (Db demo_store) = Inr (demo_db lib dig c wp i)"
proof -
  have n: "planID wp \<noteq> RootWitnessRecordIDMust lib" "i \<noteq> RootWitnessRecordIDMust lib" "i \<noteq> planID wp"
    "RootWitnessRecordIDMust lib \<noteq> planID wp" "RootWitnessRecordIDMust lib \<noteq> i" "planID wp \<noteq> i"
    using assms by (auto simp: demo_ids_def)
  have k: "planKind wp = ''witness''" using assms by (auto simp: demo_ids_def dest: ordinaryWitnessPlan_Inr)
  have seq: "nextCommitSeq [commit_receipt 0] = 1"
    using nextCommitSeq_run[of 0 1] by (simp add: commits_from_def)
  have [simp]: "commit_receipt 0 \<noteq> CHR ''w'' # x" for x by (simp add: commit_receipt_def)
  note defs = write_append_def demo_batch_def demo_store_def empty_db_def insert_defs insertContextTx_def
    insertWitnessRecordIfMissingTx_def factExistsTx_def find_record_def insertFactRowTx_def insertRecordIfMissingTx_def
    insert_edges_def nextOwnerOrdinalTx_def witness_fact_def record_row_of_def rootWitnessPlan_def update_ordinals_def
  show ?thesis
    using n k
    by (simp add: defs Let_def demo_receipt_def demo_record_def draft_record_def demo_db_def demo_entry_def seq
        groupOwner_def demo_group_def demo_draft_def context_row_of_def demo_context_def witnessTraceOwnerID_def)
qed

lemma demo_fresh: "find_intent (Db demo_store) (AppendIntentID demo_batch) = None"
  by (simp add: find_intent_def demo_store_def empty_db_def)

lemma demo_db_ok: "db_ok (Db demo_store)"
  using empty_db_ok by (simp add: demo_store_def empty_db_def db_ok_def owner_ok_def owner_entries_def nextOwnerOrdinalTx_def)

lemma demo_owner: "no_witness_owner demo_batch"
  by (simp add: no_witness_owner_def demo_defs witnessTraceOwnerID_def)

lemma demo_room: "int64_room (Db demo_store) (length (batch_drafts demo_batch))"
  by (simp add: int64_room_def demo_defs nextOwnerOrdinalTx_def batch_drafts_def)

lemma demo_in_tx:
  assumes "demo_ids lib c wp i" "batchDigest lib demo_batch demo_ctx = Inr dig"
  shows "appendInTx lib demo_ctx demo_batch (Db demo_store) = Inr ((demo_receipt c i, True), demo_db lib dig c wp i)"
  using demo_fresh by (simp add: appendInTx_def demo_valid assms(2) demo_prepare[OF assms(1)] demo_write[OF assms(1)])

lemma demo_append:
  assumes "lib_ok lib" "inj (sha256 lib)"
  obtains dig c wp i where "demo_ids lib c wp i" "batchDigest lib demo_batch demo_ctx = Inr dig"
    "Append lib demo_env TrustedAppendContext demo_batch demo_store
      = (Inr (demo_receipt c i), demo_store\<lparr>Db := demo_db lib dig c wp i\<rparr>)"
proof -
  obtain c wp i where i: "demo_ids lib c wp i" using demo_ids_exist[OF assms] by blast
  obtain dig where dig: "batchDigest lib demo_batch demo_ctx = Inr dig" using demo_digest by blast
  from demo_in_tx[OF i dig] have "Append lib demo_env TrustedAppendContext demo_batch demo_store
      = (Inr (demo_receipt c i), demo_store\<lparr>Db := demo_db lib dig c wp i\<rparr>)"
    by (simp add: Append_def demo_valid demo_env_def publishAppendEvents_def Let_def) (simp add: demo_store_def)
  with i dig that show thesis by blast
qed

end
