(* ===== verification/Append_Progress.thy ===== *)
theory Append_Progress
  imports Append_Scenario
begin

text \<open>
  When an append of one record succeeds: staging it needs no more than its context, its digest
  and its retained parents, and writing what was staged breaks no constraint of the schema as
  long as its keys are new.
\<close>

section \<open>Staging one record\<close>

lemma prepare_single:
  assumes b: "Groups batch = Some [g]" "FactDrafts g = Some [draft]" "NextCommitSeq d = Some nc"
    and rc: "resolveGroupContextTx lib d (AppendIntentID batch) 0 g ctx = Inr rc" "\<not> contextExistsTx d (ContextID rc)"
    and wp: "ordinaryWitnessPlan lib rc ctx = Inr wp" "planID wp \<noteq> RootWitnessRecordIDMust lib"
    and cs: "resolvedCauses g draft Map.empty = Inr cs" "validateCausalParentsTx d {} cs = Inr ()"
    and i: "DraftSchemaRef draft \<noteq> []"
      "RecordDigest lib (DraftSchemaRef draft) (DraftMode draft) (DraftPayload draft) cs (planID wp) = Inr i"
  defines "k \<equiv> nextOwnerOrdinalTx d (groupOwner g)"
  shows "prepareAppend lib d batch ctx = Inr ([rc], [rootWitnessPlan lib, wp],
    [draft_record g rc wp draft (DraftSchemaRef draft) cs i k],
    \<lparr>ReceiptIntentID = AppendIntentID batch, FactIDs = [i], CommitReceipts = [commit_receipt nc],
     OwnerRanges = [(groupOwner g, k, k)], CausalEdges = map (\<lambda>p. (p, i)) cs, ContextReceipts = [ContextID rc]\<rparr>)"
proof -
  have s: "resolveSchemaRef draft = Inr (DraftSchemaRef draft)" using i(1) by (simp add: resolveSchemaRef_def)
  have r: "RecordID (Envelope (draft_record g rc wp draft (DraftSchemaRef draft) cs i k)) = i" by (simp add: draft_record_def)
  show ?thesis
    using wp(2)
    by (simp add: prepareAppend_def nextCommitSeqTx_def b prepare_group_def rc wp(1) initial_staging_def start_ordinals_def
        prepare_draft_def cs s i(2) Let_def range_update_def factIDs_def addWitnessPlan_def om_put_def om_empty_def
        rootWitnessPlan_def List.map_filter_simps r flip: k_def)
qed

section \<open>Writing one record\<close>

lemma insert_edges_ok:
  assumes "set parents \<subseteq> RowID ` set (Records d)" "child \<in> RowID ` set (Records d)" "child \<notin> EdgeChild ` set (RecordEdges d)"
  shows "insert_edges child parents d = Inr (d\<lparr>RecordEdges := RecordEdges d @ edge_rows child parents\<rparr>)"
proof -
  let ?row = "\<lambda>(i, p). \<lparr>EdgeParent = p, EdgeChild = child, EdgePosition = int i\<rparr>"
  have "foldR (\<lambda>d (i, p). insert_edge \<lparr>EdgeParent = p, EdgeChild = child, EdgePosition = int i\<rparr> d) d (enumerate n parents)
      = Inr (d\<lparr>RecordEdges := RecordEdges d @ map ?row (enumerate n parents)\<rparr>)"
    if "set parents \<subseteq> RowID ` set (Records d)" "child \<in> RowID ` set (Records d)"
      "\<forall>e\<in>set (RecordEdges d). EdgeChild e = child \<longrightarrow> EdgePosition e < int n" for n
    using that
  proof (induction parents arbitrary: d n)
    case (Cons p ps)
    let ?e = "\<lparr>EdgeParent = p, EdgeChild = child, EdgePosition = int n\<rparr>"
    let ?d = "d\<lparr>RecordEdges := RecordEdges d @ [?e]\<rparr>"
    have "insert_edge ?e d = Inr ?d" using Cons.prems by (force simp: insert_Inr)
    moreover have "foldR (\<lambda>d (i, p). insert_edge \<lparr>EdgeParent = p, EdgeChild = child, EdgePosition = int i\<rparr> d) ?d (enumerate (Suc n) ps)
        = Inr (?d\<lparr>RecordEdges := RecordEdges ?d @ map ?row (enumerate (Suc n) ps)\<rparr>)"
      using Cons.prems by (intro Cons.IH) auto
    ultimately show ?case by simp
  qed simp
  moreover have "\<forall>e\<in>set (RecordEdges d). EdgeChild e = child \<longrightarrow> EdgePosition e < int 0" using assms(3) by auto
  ultimately show ?thesis using assms(1,2) unfolding insert_edges_def edge_rows_def by blast
qed

text \<open>A new record on a free place of its path.\<close>

definition writable :: "string \<Rightarrow> Record \<Rightarrow> string \<Rightarrow> db \<Rightarrow> bool" where
  "writable intent r c d \<longleftrightarrow> View r \<noteq> None \<and> Digest (Envelope r) = RecordID (Envelope r)
    \<and> RecordID (Envelope r) \<notin> RowID ` set (Records d) \<and> RecordID (Envelope r) \<notin> EdgeChild ` set (RecordEdges d)
    \<and> set (elems (CausedByIDs (Envelope r))) \<subseteq> RowID ` set (Records d) \<and> intent \<in> IntentID ` set (AppendIntents d)
    \<and> 0 \<le> snd (fact_slot r) \<and> fact_slot r \<notin> (\<lambda>p. (PathRef p, PathOrdinal p)) ` set (PathEntries d)
    \<and> c \<notin> PathCommit ` set (PathEntries d)"

lemma insertFactRowTx_ok:
  assumes "writable intent r c d"
  shows "insertFactRowTx r c intent d = Inr (d\<lparr>Records := Records d @ [record_row_of r intent],
    RecordEdges := RecordEdges d @ edge_rows (RecordID (Envelope r)) (elems (CausedByIDs (Envelope r))),
    PathEntries := PathEntries d @ [entry_of intent r c]\<rparr>)"
proof -
  note w = assms[unfolded writable_def]
  let ?i = "RecordID (Envelope r)"
  let ?d1 = "d\<lparr>Records := Records d @ [record_row_of r intent]\<rparr>"
  let ?d2 = "?d1\<lparr>RecordEdges := RecordEdges d @ edge_rows ?i (elems (CausedByIDs (Envelope r)))\<rparr>"
  have "\<not> factExistsTx d ?i" using w by (simp only: factExistsTx_iff simp_thms)
  moreover have "insert_record (record_row_of r intent) d = Inr ?d1"
    using w by (simp add: insert_Inr) (simp add: record_row_of_def)
  moreover have "insert_edges ?i (elems (CausedByIDs (Envelope r))) ?d1 = Inr ?d2"
    using w insert_edges_ok[of "elems (CausedByIDs (Envelope r))" ?d1 ?i] by (auto simp: record_row_of_def)
  ultimately have r: "insertRecordIfMissingTx r intent d = Inr ?d2" using w by (simp add: insertRecordIfMissingTx_def Let_def)
  obtain v where v: "View r = Some v" using w by auto
  have "0 \<le> PathOrdinal (entry_of intent r c)" "PathIntent (entry_of intent r c) = intent"
    "(PathRef (entry_of intent r c), PathOrdinal (entry_of intent r c)) = fact_slot r"
    using w v by (simp_all add: entry_of_def fact_slot_def)
  moreover have "?i \<in> RowID ` set (Records ?d2)" by (simp add: record_row_of_def)
  ultimately have "insert_path (entry_of intent r c) ?d2 = Inr (?d2\<lparr>PathEntries := PathEntries d @ [entry_of intent r c]\<rparr>)"
    using w unfolding insert_Inr by (simp add: entry_of_def v)
  then show ?thesis by (simp add: insertFactRowTx_def v r) (simp add: entry_of_def v)
qed

definition retained_plan :: "db \<Rightarrow> witnessPlan \<Rightarrow> bool" where
  "retained_plan d p \<longleftrightarrow> factExistsTx d (planID p) \<and> (\<exists>r. readFactTx d (planID p) = Inr r \<and> witnessFactMatchesPlan r p)"

lemma insert_retained:
  assumes "\<forall>p\<in>set ws. retained_plan d p"
  shows "foldR (\<lambda>d p. insertWitnessRecordIfMissingTx p intent d) d ws = Inr d"
  using assms by (induction ws) (auto simp: retained_plan_def insertWitnessRecordIfMissingTx_def)

lemma readFactTx_tables:
  assumes "Records d' = Records d" "PathEntries d' = PathEntries d"
  shows "readFactTx d' i = readFactTx d i"
proof -
  have "join_entry d' = join_entry d" by (rule ext) (simp add: join_entry_def find_record_def assms(1))
  moreover have "first_entry d' i = first_entry d i" by (simp add: first_entry_def assms(2))
  ultimately show ?thesis by (simp only: readFactTx_def)
qed

lemma retained_plan_tables:
  assumes "Records d' = Records d" "PathEntries d' = PathEntries d"
  shows "retained_plan d' p = retained_plan d p"
  by (simp add: retained_plan_def factExistsTx_def find_record_def assms(1) readFactTx_tables[OF assms])

lemma write_single:
  assumes "find_intent d (AppendIntentID batch) = None" "find_context d (ContextID rc) = None" "\<forall>p\<in>set ws. retained_plan d p"
    and "writable (AppendIntentID batch) f c (d\<lparr>AppendIntents := AppendIntents d
      @ [\<lparr>IntentID = AppendIntentID batch, IntentDigest = dig, IntentReceipt = receiptToJSON r\<rparr>]\<rparr>)"
    and "CommitReceipts r = [c]" "OwnerRanges r = [(ow, k, k)]" "0 \<le> k"
  shows "\<exists>d'. write_append batch dig ([rc], ws, [f], r) d = Inr d' \<and> Frontiers d' = Frontiers d
    \<and> Records d' = Records d @ [record_row_of f (AppendIntentID batch)]
    \<and> AppendIntentID batch \<in> IntentID ` set (AppendIntents d')"
proof -
  let ?i = "AppendIntentID batch"
  let ?d1 = "d\<lparr>AppendIntents := AppendIntents d @ [\<lparr>IntentID = ?i, IntentDigest = dig, IntentReceipt = receiptToJSON r\<rparr>]\<rparr>"
  let ?d2 = "?d1\<lparr>Contexts := Contexts d @ [context_row_of rc ?i]\<rparr>"
  have "?i \<notin> IntentID ` set (AppendIntents d)" using assms(1) by (simp only: intents.look_None not_False_eq_True)
  then have d1: "insert_intent \<lparr>IntentID = ?i, IntentDigest = dig, IntentReceipt = receiptToJSON r\<rparr> d = Inr ?d1" by (simp add: insert_Inr)
  have "ContextID rc \<notin> CtxID ` set (Contexts d)" using assms(2) by (simp only: ctxs.look_None not_False_eq_True)
  then have d2: "insertContextTx rc ?i ?d1 = Inr ?d2" by (simp add: insertContextTx_def insert_Inr) (simp add: context_row_of_def)
  have same: "Records ?d2 = Records d" "PathEntries ?d2 = PathEntries d" by simp_all
  have "retained_plan ?d2 p = retained_plan d p" for p by (rule retained_plan_tables[OF same])
  with assms(3) have w: "foldR (\<lambda>d p. insertWitnessRecordIfMissingTx p ?i d) ?d2 ws = Inr ?d2" by (intro insert_retained) simp
  have "writable ?i f c ?d2" using assms(4) by (simp add: writable_def)
  from insertFactRowTx_ok[OF this] obtain d3 where d3: "insertFactRowTx f c ?i ?d2 = Inr d3" "Frontiers d3 = Frontiers d"
    "Records d3 = Records d @ [record_row_of f ?i]" "?i \<in> IntentID ` set (AppendIntents d3)" by simp
  have "\<exists>d4. update_ordinals (OwnerRanges r) d3 = Inr d4 \<and> Frontiers d4 = Frontiers d3 \<and> Records d4 = Records d3
      \<and> AppendIntents d4 = AppendIntents d3"
    using assms(6,7) by (simp add: update_ordinals_def upsert_ordinal_def)
  then obtain d4 where "update_ordinals (OwnerRanges r) d3 = Inr d4" "Frontiers d4 = Frontiers d3" "Records d4 = Records d3"
    "AppendIntents d4 = AppendIntents d3" by blast
  then show ?thesis using w d2 d1 d3 by (simp add: write_append_def Let_def assms(5) update_commit_seq_def)
qed

end
