(* ===== verification/Store_Invariant.thy ===== *)
theory Store_Invariant
  imports Append_Laws Store_Read
begin

text \<open>
  The second half of the store invariant: every record but a root witness names a retained
  witness record.  Appends keep it, and it makes reading total: a retained fact can be read, on
  its path and by id, and the witness closure of retained records never fails.
\<close>

section \<open>Every record is witnessed\<close>

definition is_witness_id :: "db \<Rightarrow> string \<Rightarrow> bool" where
  "is_witness_id d i \<longleftrightarrow> (\<exists>w\<in>set (Records d). RowID w = i \<and> is_witness_schema (RowSchema w))"

definition witnessed :: "db \<Rightarrow> bool" where
  "witnessed d \<longleftrightarrow> (\<forall>r\<in>set (Records d). RowID r \<noteq> []
    \<and> (RowSchema r \<noteq> RootWitnessSchemaRef \<longrightarrow> is_witness_id d (RowWitness r)))"

lemma is_witness_id_append: "is_witness_id d i \<Longrightarrow> Records d' = Records d @ rs \<Longrightarrow> is_witness_id d' i"
  by (auto simp: is_witness_id_def)

lemma witnessed_insert:
  assumes "insertRecordIfMissingTx r intent d = Inr d'" "witnessed d" "RecordID (Envelope r) \<noteq> []"
    and "SchemaRef (Envelope r) = RootWitnessSchemaRef \<or> is_witness_id d (WitnessRef (Envelope r))"
  shows "witnessed d' \<and> (\<exists>rs. Records d' = Records d @ rs)"
  using assms(1)
proof (rule insertRecordIfMissingTx_Inr)
  assume "d' = d"
  with assms(2) show ?thesis by simp
next
  assume d': "d' = d\<lparr>Records := Records d @ [record_row_of r intent],
      RecordEdges := RecordEdges d @ edge_rows (RecordID (Envelope r)) (elems (CausedByIDs (Envelope r)))\<rparr>"
  have "is_witness_id d' i" if "is_witness_id d i" for i using is_witness_id_append[OF that] by (simp add: d')
  with assms(2-4) show ?thesis by (auto simp: witnessed_def d' record_row_of_def)
qed

lemma witnessed_fact:
  assumes "insertFactRowTx r c intent d = Inr d'" "witnessed d" "RecordID (Envelope r) \<noteq> []"
    and "SchemaRef (Envelope r) = RootWitnessSchemaRef \<or> is_witness_id d (WitnessRef (Envelope r))"
  shows "witnessed d' \<and> (\<exists>rs. Records d' = Records d @ rs)"
proof -
  obtain d1 where d1: "insertRecordIfMissingTx r intent d = Inr d1" "insert_path (entry_of intent r c) d1 = Inr d'"
    using assms(1) by (rule insertFactRowTx_Inr)
  have "Records d' = Records d1" using d1(2) by (simp add: insert_Inr)
  with witnessed_insert[OF d1(1) assms(2-4)] show ?thesis by (simp add: witnessed_def is_witness_id_def)
qed

lemma plan_schema: "plan_ok lib p \<Longrightarrow> is_witness_schema (planSchema p)"
  by (auto simp: plan_ok_def is_witness_schema_def rootWitnessPlan_def ordinaryWitnessPlan_def bindR_eq_Inr Let_def)

lemma plan_id: "plan_ok lib p \<Longrightarrow> planID p \<noteq> []"
  using ordinaryWitnessPlan_Inr(3) root_id_digest(2)[of lib] by (fastforce simp: plan_ok_def rootWitnessPlan_def)

lemma plan_witness: "plan_ok lib p \<Longrightarrow> planSchema p = RootWitnessSchemaRef \<or> planWitness p = RootWitnessRecordIDMust lib"
  using ordinaryWitnessPlan_Inr(2) by (fastforce simp: plan_ok_def rootWitnessPlan_def)

lemma readFactTx_row:
  assumes "readFactTx d i = Inr r"
  shows "\<exists>row. find_record d i = Some row \<and> SchemaRef (Envelope r) = RowSchema row \<and> WitnessRef (Envelope r) = RowWitness row
    \<and> CausedByIDs (Envelope r) = jsonToStrings (RowCausedBy row)"
  using assms by (rule readFactTx_Inr) simp

lemma witnessed_plan:
  assumes "insertWitnessRecordIfMissingTx p intent d = Inr d'" "witnessed d" "plan_ok lib p"
    and "p = rootWitnessPlan lib \<or> is_witness_id d (RootWitnessRecordIDMust lib)"
  shows "witnessed d' \<and> (\<exists>rs. Records d' = Records d @ rs) \<and> is_witness_id d' (planID p)"
proof (cases "factExistsTx d (planID p)")
  case True
  then have "bindR (readFactTx d (planID p)) (\<lambda>existing. if \<not> witnessFactMatchesPlan existing p
       then Inl (TraceStoreError ''witness record id already names a different witness'' [planID p]) else Inr d) = Inr d'"
    using assms(1) by (simp add: insertWitnessRecordIfMissingTx_def)
  then obtain w where w: "readFactTx d (planID p) = Inr w" "witnessFactMatchesPlan w p" "d' = d"
    unfolding bindR_eq_Inr by (metis sum.distinct(1) sum.inject(2))
  from readFactTx_row[OF w(1)] obtain row where row: "find_record d (planID p) = Some row" "SchemaRef (Envelope w) = RowSchema row"
    by blast
  have "row \<in> set (Records d)" "RowID row = planID p" using recs.look_Some[OF row(1)] by simp_all
  moreover have "RowSchema row = planSchema p" using w(2) row(2) by (simp add: witnessFactMatchesPlan_def)
  ultimately have "is_witness_id d (planID p)" using plan_schema[OF assms(3)] by (auto simp: is_witness_id_def)
  with w(3) assms(2) show ?thesis by simp
next
  case False
  let ?f = "witness_fact p (nextOwnerOrdinalTx d witnessTraceOwnerID)"
  obtain d1 where d1: "insertFactRowTx ?f (''witness:'' @ planID p) intent d = Inr d1"
      "upsert_ordinal witnessTraceOwnerID (nextOwnerOrdinalTx d witnessTraceOwnerID + 1) d1 = Inr d'"
    using assms(1) False by (auto simp: insertWitnessRecordIfMissingTx_def Let_def bindR_eq_Inr)
  have f: "RecordID (Envelope ?f) = planID p" "SchemaRef (Envelope ?f) = planSchema p" "WitnessRef (Envelope ?f) = planWitness p"
    by (simp_all add: witness_fact_def)
  have w: "SchemaRef (Envelope ?f) = RootWitnessSchemaRef \<or> is_witness_id d (WitnessRef (Envelope ?f))"
    using plan_witness[OF assms(3)] assms(4) f by (auto simp: rootWitnessPlan_def)
  have "RecordID (Envelope ?f) \<noteq> []" using plan_id[OF assms(3)] f by simp
  note k = witnessed_fact[OF d1(1) assms(2) this w]
  have r: "Records d' = Records d1" using d1(2) by (simp add: insert_Inr)
  obtain d2 where d2: "insertRecordIfMissingTx ?f intent d = Inr d2" "insert_path (entry_of intent ?f (''witness:'' @ planID p)) d2 = Inr d1"
    using d1(1) by (rule insertFactRowTx_Inr)
  have "planID p \<notin> row_ids d" using False by (simp only: factExistsTx_iff not_False_eq_True)
  then have "Records d2 = Records d @ [record_row_of ?f intent]"
    using d2(1) f(1) by (elim insertRecordIfMissingTx_Inr) simp_all
  moreover have "Records d1 = Records d2" using d2(2) by (simp add: insert_Inr)
  ultimately have "is_witness_id d1 (planID p)"
    using plan_schema[OF assms(3)] by (auto simp: is_witness_id_def record_row_of_def f)
  with k r show ?thesis by (simp add: witnessed_def is_witness_id_def)
qed

lemma witnessed_plans:
  assumes "insert_witnesses intent d ws = Inr d'" "witnessed d" "\<forall>p\<in>set ws. plan_ok lib p"
    and "ws = [] \<or> hd ws = rootWitnessPlan lib \<or> is_witness_id d (RootWitnessRecordIDMust lib)"
  shows "witnessed d' \<and> (\<exists>rs. Records d' = Records d @ rs) \<and> (\<forall>p\<in>set ws. is_witness_id d' (planID p))"
  using assms
proof (induction ws arbitrary: d)
  case (Cons p ws)
  obtain d1 where d1: "insertWitnessRecordIfMissingTx p intent d = Inr d1" "insert_witnesses intent d1 ws = Inr d'"
    using Cons.prems(1) by (auto simp: bindR_eq_Inr)
  have pok: "plan_ok lib p" "p = rootWitnessPlan lib \<or> is_witness_id d (RootWitnessRecordIDMust lib)"
    using Cons.prems(3,4) by auto
  from witnessed_plan[OF d1(1) Cons.prems(2) pok] obtain rs where
    s: "witnessed d1" "Records d1 = Records d @ rs" "is_witness_id d1 (planID p)" by blast
  have "planID (rootWitnessPlan lib) = RootWitnessRecordIDMust lib" by (simp add: rootWitnessPlan_def)
  then have "is_witness_id d1 (RootWitnessRecordIDMust lib)" using pok(2) s(3) is_witness_id_append[OF _ s(2)] by metis
  with Cons.IH[OF d1(2) s(1)] Cons.prems(3) obtain rs' where
    t: "witnessed d'" "Records d' = Records d1 @ rs'" "\<forall>p\<in>set ws. is_witness_id d' (planID p)" by auto
  then show ?case using s is_witness_id_append[OF s(3) t(2)] by auto
qed simp

lemma witnessed_facts:
  assumes "insert_facts intent d fcs = Inr d'" "witnessed d"
    and "\<forall>(f, c)\<in>set fcs. RecordID (Envelope f) \<noteq> [] \<and> is_witness_id d (WitnessRef (Envelope f))"
  shows "witnessed d' \<and> (\<exists>rs. Records d' = Records d @ rs)"
  using assms
proof (induction fcs arbitrary: d)
  case (Cons fc fcs)
  obtain f c where fc: "fc = (f, c)" by (cases fc)
  obtain d1 where d1: "insertFactRowTx f c intent d = Inr d1" "insert_facts intent d1 fcs = Inr d'"
    using Cons.prems(1) by (auto simp: fc bindR_eq_Inr)
  from witnessed_fact[OF d1(1) Cons.prems(2)] Cons.prems(3) obtain rs where
    s: "witnessed d1" "Records d1 = Records d @ rs" by (auto simp: fc)
  have "\<forall>(f, c)\<in>set fcs. RecordID (Envelope f) \<noteq> [] \<and> is_witness_id d1 (WitnessRef (Envelope f))"
    using Cons.prems(3) is_witness_id_append[OF _ s(2)] by auto
  from Cons.IH[OF d1(2) s(1) this] s(2) show ?case by auto
qed simp

lemma write_append_witnessed:
  assumes p: "prepareAppend lib d batch ctx = Inr (cs, ws, fs, r)"
    and w: "write_append batch dig (cs, ws, fs, r) d = Inr d'" and ok: "witnessed d" "root_unique lib"
  shows "witnessed d'"
proof -
  obtain nc st where st: "ws = List.map_filter (fst (stWitnesses st)) (snd (stWitnesses st))"
    "fs = stFacts st" "CommitReceipts r = stCommits st" "OwnerRanges r = stRanges st"
    "staged_facts_ok lib d nc st" "ordinals_ok d st" "witnesses_planned lib st"
    using prepareAppend_Inr[OF p] by (metis (no_types, lifting) AppendReceipt.select_convs(3,4))
  let ?i = "AppendIntentID batch"
  from w obtain d1 d2 d3 d4 where d:
    "d1 = d\<lparr>AppendIntents := AppendIntents d @ [\<lparr>IntentID = ?i, IntentDigest = dig, IntentReceipt = receiptToJSON r\<rparr>],
      Contexts := Contexts d @ map (\<lambda>c. context_row_of c ?i) cs\<rparr>"
    "insert_witnesses ?i d1 ws = Inr d2" "insert_facts ?i d2 (zip fs (CommitReceipts r)) = Inr d3"
    "update_ordinals (OwnerRanges r) d3 = Inr d4"
    "d' = (if CommitReceipts r \<noteq> [] then update_commit_seq (nextCommitSeq (CommitReceipts r)) d4 else d4)"
    by (rule write_append_Inr)
  have pl: "plans_ok lib (stWitnesses st)" using st(7) by (simp add: witnesses_planned_def)
  note plans = planned_witnesses[OF pl ok(2) st(1)]
  have "witnessed d1" using ok(1) by (simp add: d(1) witnessed_def is_witness_id_def)
  from witnessed_plans[OF d(2) this plans(1)] plans(2)
  have two: "witnessed d2" "\<forall>p\<in>set ws. is_witness_id d2 (planID p)" by auto
  have "RecordID (Envelope f) \<noteq> [] \<and> is_witness_id d2 (WitnessRef (Envelope f))" if f: "f \<in> set fs" for f
  proof -
    obtain q where q: "fst (stWitnesses st) (WitnessRef (Envelope f)) = Some q"
      using st(2,7) f by (auto simp: witnesses_planned_def)
    from plans(3)[OF q] have "planID q = WitnessRef (Envelope f)" "q \<in> set ws" by simp_all
    with two(2) have "is_witness_id d2 (WitnessRef (Envelope f))" by metis
    moreover have "facts_ok lib d {} fs" using st(2,5) by (simp add: staged_facts_ok_def)
    from facts_ok_each[OF this f] have "RecordID (Envelope f) \<noteq> []"
      using RecordDigest_prefix by (fastforce simp: fact_ok_def draft_record_def)
    ultimately show ?thesis by simp
  qed
  then have "\<forall>(f, c)\<in>set (zip fs (CommitReceipts r)). RecordID (Envelope f) \<noteq> [] \<and> is_witness_id d2 (WitnessRef (Envelope f))"
    by (auto dest: set_zip_leftD)
  from witnessed_facts[OF d(3) two(1) this] have "witnessed d3" by blast
  moreover have "distinct (map fst (OwnerRanges r))" using st(4,6) by (simp add: ordinals_ok_def)
  from update_ordinals_Inr[OF d(4) this] have "Records d4 = Records d3" by blast
  ultimately show ?thesis by (simp add: d(5) witnessed_def is_witness_id_def update_commit_seq_def)
qed

section \<open>Retained facts can be read\<close>

lemma join_total:
  assumes "db_ok d" "p \<in> set (PathEntries d)"
  shows "\<exists>r row. scanRecord (join_entry d p) = Inr r \<and> find_record d (PathRecord p) = Some row
    \<and> RecordID (Envelope r) = PathRecord p \<and> SchemaRef (Envelope r) = RowSchema row \<and> Mode (Envelope r) = RowMode row
    \<and> WitnessRef (Envelope r) = RowWitness row \<and> CausedByIDs (Envelope r) = jsonToStrings (RowCausedBy row)"
proof -
  have "PathRecord p \<in> row_ids d" using assms by (auto simp: db_ok_def)
  then obtain row where row: "find_record d (PathRecord p) = Some row" using recs.look_None[of d "PathRecord p"] by fastforce
  then have in_: "row \<in> set (Records d)" "RowID row = PathRecord p" using recs.look_Some by blast+
  have "rows_ok {} (Records d)" using assms(1) by (simp add: db_ok_def)
  from rows_ok_each[OF this in_(1)] obtain b where "bodyFromJSON (RowBody row) = Inr b" by (auto simp: row_ok_def)
  with row in_(2) show ?thesis by (simp add: scanRecord_def join_entry_def)
qed

lemma readFactTx_total:
  assumes "db_ok d" "find_record d i = Some row"
  shows "\<exists>r. readFactTx d i = Inr r \<and> RecordID (Envelope r) = i \<and> SchemaRef (Envelope r) = RowSchema row
    \<and> Mode (Envelope r) = RowMode row \<and> WitnessRef (Envelope r) = RowWitness row
    \<and> CausedByIDs (Envelope r) = jsonToStrings (RowCausedBy row)"
proof -
  have "i \<in> row_ids d" using recs.look_Some[OF assms(2)] by auto
  then have "i \<in> PathRecord ` set (PathEntries d)" using assms(1) by (simp add: db_ok_def)
  then obtain p where p: "first_entry d i = Some p" using first_entry_cases(1)[of d i] by fastforce
  from first_entry_cases(2)[OF p] have "p \<in> set (PathEntries d)" "PathRecord p = i" by simp_all
  with join_total[OF assms(1), of p] assms(2) p show ?thesis by (simp add: readFactTx_def)
qed

text \<open>The path entries of a well-formed database are keyed by owner and ordinal.\<close>

lemma run_from_distinct: "distinct (run_from k n)"
  by (auto simp: run_from_def distinct_map inj_on_def)

lemma entries_keyed:
  assumes "db_ok d" "p \<in> set (PathEntries d)" "q \<in> set (PathEntries d)" "PathRef p = PathRef q" "PathOrdinal p = PathOrdinal q"
  shows "p = q"
proof -
  let ?es = "owner_entries d (PathRef p)"
  have "distinct (map PathOrdinal ?es)" using assms(1) run_from_distinct by (simp add: db_ok_def owner_ok_def)
  moreover have "p \<in> set ?es" "q \<in> set ?es" using assms by (simp_all add: owner_entries_def)
  ultimately show ?thesis using assms(5) by (auto simp: distinct_map inj_on_def)
qed

definition entry_fact :: "db \<Rightarrow> path_row \<Rightarrow> Record" where
  "entry_fact d p = (case scanRecord (join_entry d p) of Inr r \<Rightarrow> r)"

lemma readFactAtPath_entry:
  assumes "db_ok d" "p \<in> set (PathEntries d)"
  shows "readFactAtPath d (entry_of_row p) = Inr (entry_fact d p)"
proof -
  let ?P = "\<lambda>q. PathRecord q = PathRecord p \<and> PathRef q = PathRef p \<and> PathOrdinal q = PathOrdinal p"
  have "find ?P (PathEntries d) \<noteq> None" using assms(2) by (auto simp: find_None_iff)
  then obtain q where q: "find ?P (PathEntries d) = Some q" by blast
  then have "q \<in> set (PathEntries d) \<and> ?P q" by (auto simp: find_Some_iff)
  then have "q = p" using entries_keyed[OF assms(1)] assms(2) by blast
  with q join_total[OF assms] show ?thesis by (auto simp: readFactAtPath_def entry_of_row_def entry_fact_def)
qed

lemma load_facts_entries:
  assumes "db_ok d" "set ps \<subseteq> set (PathEntries d)"
  shows "load_facts d (map entry_of_row ps) f
    = Inr (map (\<lambda>p. (entry_of_row p, entry_fact d p)) (filter (\<lambda>p. modeMatches (entry_fact d p) f) ps))"
proof -
  have "mapR (\<lambda>pe. bindR (readFactAtPath d pe) (\<lambda>fct. Inr (pe, fct))) (map entry_of_row ps)
      = Inr (map (\<lambda>p. (entry_of_row p, entry_fact d p)) ps)"
    using assms(2) by (induction ps) (simp_all add: readFactAtPath_entry[OF assms(1)])
  then show ?thesis by (simp add: load_facts_def filter_map comp_def)
qed

section \<open>The witness closure never fails\<close>

lemma rows_ok_nth:
  assumes "rows_ok {} rs" "n < length rs" "RowSchema (rs ! n) \<noteq> RootWitnessSchemaRef"
  shows "\<exists>k<n. RowID (rs ! k) = RowWitness (rs ! n)"
proof -
  have "rs = take n rs @ rs ! n # drop (Suc n) rs" using assms(2) by (rule id_take_nth_drop)
  then have "rows_ok {} (take n rs @ rs ! n # drop (Suc n) rs)" using assms(1) by simp
  then have "row_ok (RowID ` set (take n rs)) (rs ! n)" by (simp add: rows_ok_append)
  then have "RowWitness (rs ! n) \<in> RowID ` set (take n rs)" using assms(3) by (simp add: row_ok_def)
  then obtain k where "k < length (take n rs)" "RowID (take n rs ! k) = RowWitness (rs ! n)"
    by (metis (no_types, lifting) imageE in_set_conv_nth)
  then show ?thesis by (intro exI[of _ k]) simp
qed

lemma rows_root:
  assumes "rows_ok {} rs" "r \<in> set rs" "RowSchema r = RootWitnessSchemaRef"
  shows "RowWitness r = []"
  using rows_ok_each[OF assms(1,2)] assms(3) by (simp add: row_ok_def)

lemma rows_index_unique:
  assumes "rows_ok {} rs" "n < length rs" "m < length rs" "RowID (rs ! n) = RowID (rs ! m)"
  shows "n = m"
  using rows_ok_distinct[OF assms(1)] assms(2-4) by (metis length_map nth_eq_iff_index_eq nth_map)

lemma chain_total:
  assumes "db_ok d" "witnessed d" "n < length (Records d)" "RowID (Records d ! n) = ref"
    and "is_witness_schema (RowSchema (Records d ! n))" "support_reads d support"
    and "\<forall>x\<in>seen. \<exists>m>n. m < length (Records d) \<and> RowID (Records d ! m) = x"
  shows "\<exists>s v. chain_loop d ref seen support validated = Inr (s, v)"
  using assms(3-7)
proof (induction n arbitrary: ref seen support rule: less_induct)
  case (less n)
  let ?row = "Records d ! n"
  have rows: "rows_ok {} (Records d)" using assms(1) by (simp add: db_ok_def)
  show ?case
  proof (cases "ref \<in> validated")
    case True
    then show ?thesis by (simp add: chain_loop.simps[of d ref])
  next
    case False
    have ns: "ref \<notin> seen" using less.prems(1,2,5) rows_index_unique[OF rows] by blast
    have in_: "?row \<in> set (Records d)" using less.prems(1) by simp
    have fr: "find_record d ref = Some ?row"
    proof -
      obtain r' where r': "find_record d ref = Some r'" using in_ less.prems(2) recs.look_None[of d ref] by fastforce
      then obtain m where m: "m < length (Records d)" "r' = Records d ! m" "RowID r' = ref"
        using recs.look_Some[OF r'] by (auto simp: in_set_conv_nth)
      with rows_index_unique[OF rows less.prems(1), of m] less.prems(2) r' show ?thesis by simp
    qed
    from readFactTx_total[OF assms(1) this] obtain w0 where w0: "readFactTx d ref = Inr w0"
      "SchemaRef (Envelope w0) = RowSchema ?row" "WitnessRef (Envelope w0) = RowWitness ?row" by blast
    have "\<exists>s1. load_witness d ref support = Inr (w0, s1)"
      using w0 less.prems(3,4) by (auto simp: load_witness_def support_reads_def split: option.splits)
    then obtain s1 where l: "load_witness d ref support = Inr (w0, s1)" by blast
    note step = load_witness_step[OF l less.prems(4)]
    show ?thesis
    proof (cases "RowSchema ?row = RootWitnessSchemaRef")
      case True
      then have "WitnessRef (Envelope w0) = RootWitnessRef"
        using rows_root[OF rows in_] w0(3) by (simp add: RootWitnessRef_def)
      with True w0 False ns l show ?thesis
        by (simp add: chain_loop.simps[of d ref] is_witness_schema_def)
    next
      case nr: False
      obtain k where k: "k < n" "RowID (Records d ! k) = RowWitness ?row" using rows_ok_nth[OF rows less.prems(1) nr] by blast
      have kl: "k < length (Records d)" using k(1) less.prems(1) by simp
      have "is_witness_id d (RowWitness ?row)" using assms(2) in_ nr by (simp add: witnessed_def)
      then obtain m where m: "m < length (Records d)" "RowID (Records d ! m) = RowWitness ?row" "is_witness_schema (RowSchema (Records d ! m))"
        by (auto simp: is_witness_id_def in_set_conv_nth)
      with rows_index_unique[OF rows kl, of m] k(2) have sch: "is_witness_schema (RowSchema (Records d ! k))" by simp
      have "Records d ! k \<in> set (Records d)" using kl by simp
      then have "RowWitness ?row \<noteq> []" using assms(2) k(2) unfolding witnessed_def by metis
      moreover have "\<forall>x\<in>insert ref seen. \<exists>m>k. m < length (Records d) \<and> RowID (Records d ! m) = x"
        using less.prems(1,2,5) k(1) by (metis insertE order.strict_trans)
      from less.IH[OF k(1) kl k(2) sch step(3) this] obtain s v where
        "chain_loop d (RowWitness ?row) (insert ref seen) s1 validated = Inr (s, v)" by blast
      ultimately show ?thesis using nr w0 False ns l less.prems(3)
        by (simp add: chain_loop.simps[of d ref])
    qed
  qed
qed

lemma chain_from_id:
  assumes "db_ok d" "witnessed d" "is_witness_id d ref" "support_reads d support"
  shows "\<exists>s v. chain_loop d ref {} support validated = Inr (s, v)"
proof -
  obtain n where "n < length (Records d)" "RowID (Records d ! n) = ref" "is_witness_schema (RowSchema (Records d ! n))"
    using assms(3) by (auto simp: is_witness_id_def in_set_conv_nth)
  from chain_total[OF assms(1,2) this assms(4), of "{}"] show ?thesis by blast
qed

text \<open>A record as it is read from the store: witnessed, or a root witness.\<close>

definition witnessed_record :: "db \<Rightarrow> Record \<Rightarrow> bool" where
  "witnessed_record d r \<longleftrightarrow> (SchemaRef (Envelope r) = RootWitnessSchemaRef \<and> WitnessRef (Envelope r) = [])
    \<or> (WitnessRef (Envelope r) \<noteq> [] \<and> is_witness_id d (WitnessRef (Envelope r)))"

lemma closure_total:
  assumes "db_ok d" "witnessed d" "\<forall>r\<in>set records. witnessed_record d r"
  shows "\<exists>ws. witnessSupportClosure d records = Inr ws"
proof -
  have n: "find (\<lambda>r. WitnessRef (Envelope r) = [] \<and> SchemaRef (Envelope r) \<noteq> RootWitnessSchemaRef) records = None"
    using assms(3) by (auto simp: find_None_iff witnessed_record_def)
  have "\<exists>s v. foldR (closure_step d) (support, validated) records = Inr (s, v)"
    if "support_reads d support" "\<forall>v\<in>validated. to_root (support_get support) v" for support validated
    using assms(3) that
  proof (induction records arbitrary: support validated)
    case (Cons r records)
    have "\<exists>s v. closure_step d (support, validated) r = Inr (s, v)"
    proof (cases "WitnessRef (Envelope r) = []")
      case False
      then have "is_witness_id d (WitnessRef (Envelope r))" using Cons.prems(1) by (simp add: witnessed_record_def)
      from chain_from_id[OF assms(1,2) this Cons.prems(2)] False show ?thesis
        by (simp add: closure_step_def validateWitnessChain_def)
    qed (simp add: closure_step_def)
    then obtain s v where s: "closure_step d (support, validated) r = Inr (s, v)" by blast
    have "support_reads d s \<and> (\<forall>v\<in>v. to_root (support_get s) v)"
    proof (cases "WitnessRef (Envelope r) = []")
      case True
      with s Cons.prems(2,3) show ?thesis by (simp add: closure_step_def)
    next
      case False
      then have "chain_loop d (WitnessRef (Envelope r)) {} support validated = Inr (s, v)"
        using s by (simp add: closure_step_def validateWitnessChain_def)
      from chain_loop_closed[OF this Cons.prems(2,3)] show ?thesis by blast
    qed
    with Cons.IH[of s v] Cons.prems(1) s show ?case by simp
  qed simp
  moreover have "support_reads d newWitnessSupport"
    using support.invar_empty by (simp add: support_reads_def support_get_def newWitnessSupport_def)
  ultimately obtain s v where "foldR (closure_step d) (newWitnessSupport, {}) records = Inr (s, v)" by blast
  with n show ?thesis unfolding witnessSupportClosure_step by simp
qed

lemma entry_fact_witnessed:
  assumes "db_ok d" "witnessed d" "p \<in> set (PathEntries d)"
  shows "witnessed_record d (entry_fact d p) \<and> RecordID (Envelope (entry_fact d p)) = PathRecord p"
proof -
  from join_total[OF assms(1,3)] obtain r row where r: "scanRecord (join_entry d p) = Inr r"
    "find_record d (PathRecord p) = Some row" "RecordID (Envelope r) = PathRecord p"
    "SchemaRef (Envelope r) = RowSchema row" "WitnessRef (Envelope r) = RowWitness row" by blast
  have in_: "row \<in> set (Records d)" using recs.look_Some[OF r(2)] by simp
  have e: "entry_fact d p = r" using r(1) by (simp add: entry_fact_def)
  show ?thesis
  proof (cases "RowSchema row = RootWitnessSchemaRef")
    case True
    have "rows_ok {} (Records d)" using assms(1) by (simp add: db_ok_def)
    from rows_root[OF this in_ True] True e r show ?thesis by (simp add: witnessed_record_def)
  next
    case False
    then have w: "is_witness_id d (RowWitness row)" using assms(2) in_ by (simp add: witnessed_def)
    then have "RowWitness row \<noteq> []" using assms(2) by (auto simp: is_witness_id_def witnessed_def)
    with w e r show ?thesis by (simp add: witnessed_record_def)
  qed
qed

end
