(* ===== verification/Read_Laws.thy ===== *)
theory Read_Laws
  imports Store_Invariant
begin

text \<open>
  What the reads return.  The parts of a slice are computed by one fold over the loaded facts;
  each part is characterised on its own.  The search of \<open>ReadCausalClosure\<close> visits exactly
  the ancestors of its roots.
\<close>

section \<open>The parts of a slice\<close>

lemma add_edge_fields [simp]:
  "spFacts (fold (add_parent_edge d inc sel i) ps sp) = spFacts sp"
  "spContexts (fold (add_parent_edge d inc sel i) ps sp) = spContexts sp"
  "spPaths (fold (add_parent_edge d inc sel i) ps sp) = spPaths sp"
  "spPathOrder (fold (add_parent_edge d inc sel i) ps sp) = spPathOrder sp"
  "spContextAnchors (fold (add_parent_edge d inc sel i) ps sp) = spContextAnchors sp"
proof -
  have "spFacts (fold (add_parent_edge d inc sel i) ps sp) = spFacts sp
    \<and> spContexts (fold (add_parent_edge d inc sel i) ps sp) = spContexts sp
    \<and> spPaths (fold (add_parent_edge d inc sel i) ps sp) = spPaths sp
    \<and> spPathOrder (fold (add_parent_edge d inc sel i) ps sp) = spPathOrder sp
    \<and> spContextAnchors (fold (add_parent_edge d inc sel i) ps sp) = spContextAnchors sp"
    by (induction ps arbitrary: sp) (simp_all add: add_parent_edge_def)
  then show "spFacts (fold (add_parent_edge d inc sel i) ps sp) = spFacts sp"
    "spContexts (fold (add_parent_edge d inc sel i) ps sp) = spContexts sp"
    "spPaths (fold (add_parent_edge d inc sel i) ps sp) = spPaths sp"
    "spPathOrder (fold (add_parent_edge d inc sel i) ps sp) = spPathOrder sp"
    "spContextAnchors (fold (add_parent_edge d inc sel i) ps sp) = spContextAnchors sp" by simp_all
qed

lemma add_context_fields [simp]:
  "spFacts (add_context d vis c sp) = spFacts sp"
  "spPaths (add_context d vis c sp) = spPaths sp"
  "spPathOrder (add_context d vis c sp) = spPathOrder sp"
  "spEdges (add_context d vis c sp) = spEdges sp"
  "spExternal (add_context d vis c sp) = spExternal sp"
  by (simp_all add: add_context_def split: sum.splits)

lemma add_path_fields [simp]:
  "spFacts (add_path pe sp) = spFacts sp" "spContexts (add_path pe sp) = spContexts sp"
  "spEdges (add_path pe sp) = spEdges sp" "spExternal (add_path pe sp) = spExternal sp"
  "spContextAnchors (add_path pe sp) = spContextAnchors sp"
  by (simp_all add: add_path_def)

lemma edges_of_parents:
  "spEdges (fold (add_parent_edge d inc sel i) ps sp) = spEdges sp @ map (\<lambda>p. (p, i)) (filter (\<lambda>p. p \<in> sel) ps)"
  by (induction ps arbitrary: sp) (simp_all add: add_parent_edge_def)

lemma external_of_parents:
  "om_ok (spExternal sp) \<Longrightarrow> om_ok (spExternal (fold (add_parent_edge d inc sel i) ps sp))
    \<and> dom (fst (spExternal (fold (add_parent_edge d inc sel i) ps sp)))
      = dom (fst (spExternal sp)) \<union> (if inc then {p \<in> set ps. p \<notin> sel} else {})"
proof (induction ps arbitrary: sp)
  case (Cons p ps)
  have k: "om_ok (spExternal (add_parent_edge d inc sel i p sp))
    \<and> dom (fst (spExternal (add_parent_edge d inc sel i p sp)))
      = dom (fst (spExternal sp)) \<union> (if inc \<and> p \<notin> sel then {p} else {})"
    using Cons.prems om_keep.invar_insert[OF Cons.prems]
    by (auto simp: add_parent_edge_def om_add_def)
  show ?case using k Cons.IH[of "add_parent_edge d inc sel i p sp"] by auto
qed simp

definition path_ids :: "(pathEntry \<times> Record) list \<Rightarrow> string \<Rightarrow> string list" where
  "path_ids loaded ow = map (\<lambda>(pe, r). peRecord pe) (filter (\<lambda>(pe, r). peRef pe = ow) loaded)"

definition parts_ok :: "db \<Rightarrow> string \<Rightarrow> bool \<Rightarrow> string set \<Rightarrow> (pathEntry \<times> Record) list \<Rightarrow> sliceParts \<Rightarrow> bool" where
  "parts_ok d vis inc sel loaded sp \<longleftrightarrow>
    spPathOrder sp = dedup_loop {} (map (\<lambda>(pe, r). peRef pe) loaded)
    \<and> map fst (spPaths sp) = spPathOrder sp
    \<and> (\<forall>ow. map_of (spPaths sp) ow = (if path_ids loaded ow = [] then None else Some (path_ids loaded ow)))
    \<and> fst ` set (spFacts sp) = (\<lambda>(pe, r). peRecord pe) ` set loaded
    \<and> snd ` set (spFacts sp) \<subseteq> (\<lambda>(pe, r). visibleFact r vis) ` set loaded
    \<and> spEdges sp = concat (map (\<lambda>(pe, r). map (\<lambda>p. (p, peRecord pe)) (filter (\<lambda>p. p \<in> sel) (elems (CausedByIDs (Envelope r))))) loaded)
    \<and> om_ok (spExternal sp)
    \<and> dom (fst (spExternal sp)) = (if inc then {p. p \<notin> sel \<and> (\<exists>(pe, r)\<in>set loaded. p \<in> set (elems (CausedByIDs (Envelope r))))} else {})
    \<and> (vis = VisibilityShapeOnly \<longrightarrow> spContexts sp = [])"

lemma dedup_snoc: "dedup_loop seen (xs @ [x]) = dedup_loop seen xs @ (if x \<in> seen \<union> set xs then [] else [x])"
  by (induction seen xs rule: dedup_loop.induct) auto

lemma update_keys: "map fst (AList.update k v al) = (if map_of al k = None then map fst al @ [k] else map fst al)"
  by (induction al) (auto simp: map_of_eq_None_iff)

lemma update_values: "snd ` set (AList.update k v al) \<subseteq> insert v (snd ` set al)"
  by (induction al) auto

lemma path_ids_snoc: "path_ids (loaded @ [(pe, r)]) ow = path_ids loaded ow @ (if peRef pe = ow then [peRecord pe] else [])"
  by (simp add: path_ids_def)

lemma path_ids_empty: "path_ids loaded ow = [] \<longleftrightarrow> ow \<notin> (\<lambda>(pe, r). peRef pe) ` set loaded"
  by (force simp: path_ids_def filter_empty_conv)

lemma parts_step:
  assumes "parts_ok d vis inc sel loaded sp"
  shows "parts_ok d vis inc sel (loaded @ [(pe, r)]) (add_fact d vis inc sel (pe, r) sp)"
proof -
  let ?sp1 = "add_path pe (sp\<lparr>spFacts := AList.update (peRecord pe) (visibleFact r vis) (spFacts sp)\<rparr>)"
  let ?sp2 = "fold (add_parent_edge d inc sel (peRecord pe)) (elems (CausedByIDs (Envelope r))) ?sp1"
  let ?sp3 = "add_fact d vis inc sel (pe, r) sp"
  have unf: "?sp3 = add_context d vis (case View r of None \<Rightarrow> [] | Some v \<Rightarrow> ViewContextRef v) ?sp2"
    by (simp add: add_fact_def)
  have paths: "map_of (spPaths sp) ow = (if path_ids loaded ow = [] then None else Some (path_ids loaded ow))" for ow
    using assms by (simp add: parts_ok_def)
  have order: "spPathOrder sp = dedup_loop {} (map (\<lambda>(pe, r). peRef pe) loaded)" "map fst (spPaths sp) = spPathOrder sp"
    using assms by (simp_all add: parts_ok_def)
  have "spPathOrder ?sp3 = dedup_loop {} (map (\<lambda>(pe, r). peRef pe) (loaded @ [(pe, r)]))"
    using paths[of "peRef pe"] by (simp add: unf add_path_def order dedup_snoc path_ids_empty)
  moreover have "map fst (spPaths ?sp3) = spPathOrder ?sp3"
    by (simp add: unf add_path_def update_keys order(2))
  moreover have "map_of (spPaths ?sp3) ow = (if path_ids (loaded @ [(pe, r)]) ow = [] then None
      else Some (path_ids (loaded @ [(pe, r)]) ow))" for ow
    using paths[of ow] paths[of "peRef pe"] by (simp add: unf add_path_def path_ids_snoc update_conv')
  moreover have "fst ` set (spFacts ?sp3) = (\<lambda>(pe, r). peRecord pe) ` set (loaded @ [(pe, r)])"
    using assms by (simp add: unf parts_ok_def dom_update)
  moreover have "snd ` set (spFacts ?sp3) \<subseteq> (\<lambda>(pe, r). visibleFact r vis) ` set (loaded @ [(pe, r)])"
  proof -
    have "snd ` set (spFacts ?sp3) \<subseteq> insert (visibleFact r vis) (snd ` set (spFacts sp))"
      using update_values by (simp add: unf)
    also have "\<dots> \<subseteq> insert (visibleFact r vis) ((\<lambda>(pe, r). visibleFact r vis) ` set loaded)"
      using assms unfolding parts_ok_def by (intro insert_mono) (elim conjE)
    finally show ?thesis by simp
  qed
  moreover have "spEdges ?sp3 = concat (map (\<lambda>(pe, r). map (\<lambda>p. (p, peRecord pe))
      (filter (\<lambda>p. p \<in> sel) (elems (CausedByIDs (Envelope r))))) (loaded @ [(pe, r)]))"
    using assms by (simp add: unf parts_ok_def edges_of_parents)
  moreover have "om_ok (spExternal ?sp3)"
    "dom (fst (spExternal ?sp3)) = (if inc then {p. p \<notin> sel \<and> (\<exists>(pe, r)\<in>set (loaded @ [(pe, r)]). p \<in> set (elems (CausedByIDs (Envelope r))))} else {})"
    using assms external_of_parents[of ?sp1 d inc sel "peRecord pe" "elems (CausedByIDs (Envelope r))"]
    by (auto simp: unf parts_ok_def)
  moreover have "vis = VisibilityShapeOnly \<longrightarrow> spContexts ?sp3 = []"
    using assms by (auto simp: add_fact_def parts_ok_def add_context_def)
  ultimately show ?thesis unfolding parts_ok_def by blast
qed

lemma parts_all: "parts_ok d vis inc sel loaded (fold (add_fact d vis inc sel) loaded no_parts)"
proof (induction loaded rule: rev_induct)
  case Nil
  then show ?case using om_keep.invar_empty
    by (simp add: parts_ok_def no_parts_def path_ids_def) (simp add: om_empty_def)
next
  case (snoc x loaded)
  then show ?case using parts_step by (cases x) simp
qed

text \<open>The ids of a slice: the paths in first-seen order.\<close>

lemma slice_ids:
  assumes "parts_ok d vis inc sel loaded sp" "OwnerPaths sl = spPaths sp" "OwnerPathOrder sl = spPathOrder sp"
  shows "slice_fact_ids sl = concat (map (path_ids loaded) (dedup_loop {} (map (\<lambda>(pe, r). peRef pe) loaded)))"
proof -
  have l: "length (OwnerPathOrder sl) = length (OwnerPaths sl)"
    using assms(2,3) assms(1)[unfolded parts_ok_def] by (metis length_map)
  have "(case map_of (OwnerPaths sl) ow of None \<Rightarrow> [] | Some ids \<Rightarrow> ids) = path_ids loaded ow" for ow
    using assms(1,2) by (simp add: parts_ok_def)
  then show ?thesis using l assms(1,3) by (simp add: slice_fact_ids_def parts_ok_def)
qed

lemma slice_ids_one_path:
  assumes "\<forall>(pe, r)\<in>set loaded. peRef pe = ow"
  shows "concat (map (path_ids loaded) (dedup_loop {} (map (\<lambda>(pe, r). peRef pe) loaded))) = map (\<lambda>(pe, r). peRecord pe) loaded"
proof (cases loaded)
  case (Cons x xs)
  have d: "dedup_loop {ow} ys = []" if "set ys \<subseteq> {ow}" for ys using that by (induction ys) auto
  have "map (\<lambda>(pe, r). peRef pe) loaded = ow # map (\<lambda>(pe, r). peRef pe) xs" using assms Cons by auto
  moreover have "set (map (\<lambda>(pe, r). peRef pe) xs) \<subseteq> {ow}" using assms Cons by auto
  ultimately have "dedup_loop {} (map (\<lambda>(pe, r). peRef pe) loaded) = [ow]" using d by simp
  moreover have "path_ids loaded ow = map (\<lambda>(pe, r). peRecord pe) loaded"
    using assms unfolding path_ids_def by (subst filter_True) auto
  ultimately show ?thesis by simp
qed simp

section \<open>Building a slice from path entries\<close>

definition loaded_ids :: "(pathEntry \<times> Record) list \<Rightarrow> string set" where
  "loaded_ids loaded = (\<lambda>(pe, r). peRecord pe) ` set loaded"

definition loaded_parts :: "db \<Rightarrow> string \<Rightarrow> bool \<Rightarrow> (pathEntry \<times> Record) list \<Rightarrow> sliceParts" where
  "loaded_parts d vis inc loaded = fold (add_fact d vis inc (loaded_ids loaded)) loaded no_parts"

definition slice_of :: "db \<Rightarrow> Frontier option \<Rightarrow> string \<Rightarrow> string \<Rightarrow> bool \<Rightarrow> (pathEntry \<times> Record) list \<Rightarrow> Record list \<Rightarrow> Slice" where
  "slice_of d fr vis f inc loaded support =
    (let sp = loaded_parts d vis inc loaded; wa = fold (add_witness vis) support ([], om_empty) in
      \<lparr>SliceFrontier = fr, SliceVisibility = vis, SliceModeFilter = f,
         FactsByID = spFacts sp, ContextsByID = spContexts sp, OwnerPaths = spPaths sp,
         OwnerPathOrder = spPathOrder sp, SliceCausalEdges = spEdges sp,
         ExternalAnchors = om_values (spExternal sp), ContextAnchors = om_values (spContextAnchors sp),
         WitnessesByID = fst wa, WitnessAnchors = om_values (snd wa)\<rparr>)"

lemma slice_of_fields [simp]:
  "FactsByID (slice_of d fr vis f inc loaded support) = spFacts (loaded_parts d vis inc loaded)"
  "ContextsByID (slice_of d fr vis f inc loaded support) = spContexts (loaded_parts d vis inc loaded)"
  "OwnerPaths (slice_of d fr vis f inc loaded support) = spPaths (loaded_parts d vis inc loaded)"
  "OwnerPathOrder (slice_of d fr vis f inc loaded support) = spPathOrder (loaded_parts d vis inc loaded)"
  "SliceCausalEdges (slice_of d fr vis f inc loaded support) = spEdges (loaded_parts d vis inc loaded)"
  "ExternalAnchors (slice_of d fr vis f inc loaded support) = om_values (spExternal (loaded_parts d vis inc loaded))"
  "WitnessesByID (slice_of d fr vis f inc loaded support) = fst (fold (add_witness vis) support ([], om_empty))"
  "SliceFrontier (slice_of d fr vis f inc loaded support) = fr"
  by (simp_all add: slice_of_def Let_def)

lemma loaded_parts_ok: "parts_ok d vis inc (loaded_ids loaded) loaded (loaded_parts d vis inc loaded)"
  unfolding loaded_parts_def by (rule parts_all)

lemma slice_of_ids: "slice_fact_ids (slice_of d fr vis f inc loaded support)
    = concat (map (path_ids loaded) (dedup_loop {} (map (\<lambda>(pe, r). peRef pe) loaded)))"
  by (rule slice_ids[OF loaded_parts_ok]) simp_all

lemma slice_of_id_set: "set (slice_fact_ids (slice_of d fr vis f inc loaded support)) = loaded_ids loaded"
  unfolding slice_of_ids by (force simp: path_ids_def loaded_ids_def dedup_loop_set)

lemma buildSlice_eq: "buildSlice d entries fr vis f inc =
    bindR (load_facts d entries f) (\<lambda>loaded. bindR (witnessSupportClosure d (map snd loaded)) (\<lambda>support.
      Inr (slice_of d fr vis f inc loaded support)))"
  by (simp add: buildSlice_def slice_of_def loaded_parts_def loaded_ids_def Let_def case_prod_beta)

text \<open>Every anchor is filed under its own reference.\<close>

lemma anchor_ref: "AnchorRef (anchorForFact d i why) = i"
  by (simp add: anchorForFact_def Let_def split: sum.splits)

lemma anchors_named: "fst (spExternal (loaded_parts d vis inc loaded)) k = Some a \<Longrightarrow> AnchorRef a = k"
proof -
  define named where "named sp \<longleftrightarrow> (\<forall>k a. fst (spExternal sp) k = Some a \<longrightarrow> AnchorRef a = k)" for sp :: sliceParts
  have e: "named (fold (add_parent_edge d inc sel i) ps sp)" if "named sp" for sel i ps sp
    using that
  proof (induction ps arbitrary: sp)
    case (Cons p ps)
    have "named (add_parent_edge d inc sel i p sp)"
      using Cons.prems by (auto simp: named_def add_parent_edge_def om_add_def anchor_ref)
    then show ?case using Cons.IH by simp
  qed simp
  have f: "named (add_fact d vis inc sel x sp)" if "named sp" for x sel sp
  proof -
    obtain pe r where x: "x = (pe, r)" by (cases x)
    let ?sp1 = "add_path pe (sp\<lparr>spFacts := AList.update (peRecord pe) (visibleFact r vis) (spFacts sp)\<rparr>)"
    have "named ?sp1" using that by (simp add: named_def)
    then have "named (fold (add_parent_edge d inc sel (peRecord pe)) (elems (CausedByIDs (Envelope r))) ?sp1)" by (rule e)
    then show ?thesis by (simp add: x add_fact_def named_def)
  qed
  have "named (fold (add_fact d vis inc sel) xs sp)" if "named sp" for xs sel sp
    using that by (induction xs arbitrary: sp) (simp_all add: f)
  moreover have "named no_parts" by (simp add: named_def no_parts_def om_empty_def)
  ultimately show "fst (spExternal (loaded_parts d vis inc loaded)) k = Some a \<Longrightarrow> AnchorRef a = k"
    unfolding loaded_parts_def named_def by blast
qed

text \<open>On entries of a store that keeps the invariant it never fails.\<close>

definition entry_facts :: "db \<Rightarrow> string \<Rightarrow> path_row list \<Rightarrow> (pathEntry \<times> Record) list" where
  "entry_facts d f ps = map (\<lambda>p. (entry_of_row p, entry_fact d p)) (filter (\<lambda>p. modeMatches (entry_fact d p) f) ps)"

lemma buildSlice_total:
  assumes "db_ok d" "witnessed d" "set ps \<subseteq> set (PathEntries d)"
  shows "\<exists>support. witnessSupportClosure d (map snd (entry_facts d f ps)) = Inr support
    \<and> buildSlice d (map entry_of_row ps) fr vis f inc = Inr (slice_of d fr vis f inc (entry_facts d f ps) support)"
proof -
  have "\<forall>r\<in>set (map snd (entry_facts d f ps)). witnessed_record d r"
    using entry_fact_witnessed[OF assms(1,2)] assms(3) by (auto simp: entry_facts_def)
  from closure_total[OF assms(1,2) this] show ?thesis
    using load_facts_entries[OF assms(1,3), of f] by (auto simp: buildSlice_eq entry_facts_def)
qed

section \<open>The owner prefix\<close>

lemma run_filter: "filter (\<lambda>k. k \<le> t) (run_from 0 n) = take (nat (t + 1)) (run_from 0 n)"
proof (induction n)
  case (Suc n)
  have s: "run_from 0 (Suc n) = run_from 0 n @ [int n]" by (simp add: run_from_def)
  have l: "length (run_from 0 n) = n" by (simp add: run_from_def)
  show ?case
  proof (cases "int n \<le> t")
    case True
    then have "n < nat (t + 1)" by linarith
    then show ?thesis using Suc True by (simp add: s l)
  next
    case False
    then have "nat (t + 1) \<le> n" by linarith
    then show ?thesis using Suc False by (simp add: s l)
  qed
qed (simp add: run_from_def)

lemma filter_by_key: "map g xs = ys \<Longrightarrow> filter P ys = take n ys \<Longrightarrow> distinct ys \<Longrightarrow> filter (\<lambda>x. P (g x)) xs = take n xs"
proof (induction xs arbitrary: ys n)
  case (Cons x xs)
  then obtain zs where ys: "ys = g x # zs" "map g xs = zs" by auto
  show ?case
  proof (cases n)
    case 0
    then show ?thesis using Cons.prems ys by (auto simp: filter_empty_conv split: if_splits)
  next
    case (Suc m)
    have "P (g x)"
    proof (rule ccontr)
      assume "\<not> P (g x)"
      then have "filter P zs = g x # take m zs" using Cons.prems(2) Suc by (simp add: ys(1))
      then have "g x \<in> set zs" by (metis filter_is_subset list.set_intros(1) subset_code(1))
      then show False using Cons.prems(3) by (simp add: ys(1))
    qed
    then show ?thesis using Cons.IH[OF ys(2), of m] Cons.prems Suc by (simp add: ys(1))
  qed
qed simp

lemma prefix_rows_owner:
  assumes "db_ok d" "ow \<noteq> []"
  shows "prefix_rows d ow t = take (nat (t + 1)) (owner_entries d ow)"
proof -
  let ?es = "owner_entries d ow"
  have m: "map PathOrdinal ?es = run_from 0 (length ?es)" using assms(1) by (simp add: db_ok_def owner_ok_def)
  have f: "filter (\<lambda>p. PathOrdinal p \<le> t) ?es = take (nat (t + 1)) ?es"
    by (rule filter_by_key[OF m run_filter run_from_distinct])
  have "filter (\<lambda>p. PathRef p = ow \<and> PathOrdinal p \<le> t) (PathEntries d) = filter (\<lambda>p. PathOrdinal p \<le> t) ?es"
    by (simp add: owner_entries_def conj_commute)
  moreover have "sorted (map PathOrdinal (take k ?es))" for k
  proof -
    have "map PathOrdinal (take k ?es) = take k (run_from 0 (length ?es))" by (simp add: take_map flip: m)
    moreover have "sorted (run_from 0 n)" for n by (auto simp: run_from_def sorted_iff_nth_mono)
    ultimately show ?thesis by (simp add: sorted_wrt_take)
  qed
  ultimately show ?thesis using assms(2) f by (simp add: prefix_rows_def sort_key_id_if_sorted)
qed

section \<open>The causal closure\<close>

text \<open>The parents of the retained records, as a relation.\<close>

definition causes :: "db \<Rightarrow> (string \<times> string) set" where
  "causes d = {(p, c). \<exists>r\<in>set (Records d). RowID r = c \<and> p \<in> set (elems (jsonToStrings (RowCausedBy r)))}"

definition ancestors :: "db \<Rightarrow> string set \<Rightarrow> string set" where
  "ancestors d roots = {p. \<exists>c\<in>roots. (p, c) \<in> (causes d)\<^sup>*}"

lemma causes_retained:
  assumes "db_ok d" "(p, c) \<in> causes d"
  shows "p \<in> row_ids d"
proof -
  obtain r where r: "r \<in> set (Records d)" "p \<in> set (elems (jsonToStrings (RowCausedBy r)))"
    using assms(2) by (auto simp: causes_def)
  have "rows_ok {} (Records d)" using assms(1) by (simp add: db_ok_def)
  from rows_ok_each[OF this r(1)] have "set (elems (jsonToStrings (RowCausedBy r))) \<subseteq> {} \<union> row_ids d"
    unfolding row_ok_def by (elim conjE)
  with r(2) show ?thesis by blast
qed

lemma causes_row:
  assumes "db_ok d" "find_record d c = Some row"
  shows "(p, c) \<in> causes d \<longleftrightarrow> p \<in> set (elems (jsonToStrings (RowCausedBy row)))"
proof -
  have in_: "row \<in> set (Records d)" "RowID row = c" using recs.look_Some[OF assms(2)] by simp_all
  have "rows_ok {} (Records d)" using assms(1) by (simp add: db_ok_def)
  then have "inj_on RowID (set (Records d))" using rows_ok_distinct distinct_map by blast
  then have u: "r = row" if "r \<in> set (Records d)" "RowID r = c" for r
    by (rule inj_onD) (use that in_ in simp_all)
  show ?thesis
  proof
    assume "(p, c) \<in> causes d"
    then obtain r where "r \<in> set (Records d)" "RowID r = c" "p \<in> set (elems (jsonToStrings (RowCausedBy r)))"
      unfolding causes_def by blast
    with u show "p \<in> set (elems (jsonToStrings (RowCausedBy row)))" by blast
  next
    assume "p \<in> set (elems (jsonToStrings (RowCausedBy row)))"
    with in_ show "(p, c) \<in> causes d" unfolding causes_def by blast
  qed
qed

lemma ancestors_closed: "c \<in> ancestors d A \<Longrightarrow> (p, c) \<in> causes d \<Longrightarrow> p \<in> ancestors d A"
  by (auto simp: ancestors_def intro: converse_rtrancl_into_rtrancl)

lemma ancestors_least:
  assumes "A \<subseteq> S" "\<forall>c\<in>S. \<forall>p. (p, c) \<in> causes d \<longrightarrow> p \<in> S"
  shows "ancestors d A \<subseteq> S"
proof
  fix p assume "p \<in> ancestors d A"
  then obtain c where c: "c \<in> A" "(p, c) \<in> (causes d)\<^sup>*" by (auto simp: ancestors_def)
  from c(2) show "p \<in> S"
  proof (induction rule: converse_rtrancl_induct)
    case base
    then show ?case using c(1) assms(1) by blast
  next
    case (step y z)
    then show ?case using assms(2) by blast
  qed
qed

lemma ancestors_retained:
  assumes "db_ok d" "A \<subseteq> row_ids d"
  shows "A \<subseteq> ancestors d A" "ancestors d A \<subseteq> row_ids d"
  using assms causes_retained[OF assms(1)] ancestors_least[of A "row_ids d" d] by (auto simp: ancestors_def)

text \<open>The loop invariant: what was visited is closed, but for the queue.\<close>

lemma closure_loop_search:
  assumes "db_ok d" "set pending \<union> seen \<subseteq> A" "A \<subseteq> row_ids d" "\<forall>c\<in>A. \<forall>p. (p, c) \<in> causes d \<longrightarrow> p \<in> A"
    and "\<forall>c\<in>seen. \<forall>p. (p, c) \<in> causes d \<longrightarrow> p \<in> seen \<union> set pending"
  shows "\<exists>S. closure_loop d pending seen = Inr S \<and> seen \<union> set pending \<subseteq> S \<and> S \<subseteq> A
    \<and> (\<forall>c\<in>S. \<forall>p. (p, c) \<in> causes d \<longrightarrow> p \<in> S)"
  using assms
proof (induction d pending seen rule: closure_loop.induct)
  case (2 d i pending seen)
  show ?case
  proof (cases "i \<in> seen")
    case True
    have "set pending \<union> seen \<subseteq> A" "\<forall>c\<in>seen. \<forall>p. (p, c) \<in> causes d \<longrightarrow> p \<in> seen \<union> set pending"
      using 2(4,7) True by auto
    from 2(1)[OF True 2(3) this(1) 2(5,6) this(2)] obtain S where
      "closure_loop d pending seen = Inr S" "seen \<union> set pending \<subseteq> S" "S \<subseteq> A" "\<forall>c\<in>S. \<forall>p. (p, c) \<in> causes d \<longrightarrow> p \<in> S"
      by blast
    with True show ?thesis by (intro exI[of _ S]) (auto simp: closure_loop.simps(2))
  next
    case False
    let ?seen = "insert i seen"
    have "i \<in> row_ids d" using 2(4,5) by auto
    then obtain row where row: "find_record d i = Some row" using recs.look_None[of d i] by fastforce
    from readFactTx_total[OF 2(3) row] obtain r where r: "readFact d i = Inr r"
      "CausedByIDs (Envelope r) = jsonToStrings (RowCausedBy row)" by (auto simp: readFact_def)
    let ?ps = "elems (CausedByIDs (Envelope r))"
    let ?pending = "pending @ filter (\<lambda>p. p \<notin> ?seen) ?ps"
    have ps: "p \<in> set ?ps \<longleftrightarrow> (p, i) \<in> causes d" for p using causes_row[OF 2(3) row] r(2) by simp
    have "set ?pending \<union> ?seen \<subseteq> A" using 2(4,6) ps by auto
    moreover have "\<forall>c\<in>?seen. \<forall>p. (p, c) \<in> causes d \<longrightarrow> p \<in> ?seen \<union> set ?pending" using 2(7) ps by auto
    ultimately obtain S where "closure_loop d ?pending ?seen = Inr S" "?seen \<union> set ?pending \<subseteq> S" "S \<subseteq> A"
      "\<forall>c\<in>S. \<forall>p. (p, c) \<in> causes d \<longrightarrow> p \<in> S"
      using 2(2)[OF False r(1) refl 2(3) _ 2(5,6)] by blast
    with False r(1) show ?thesis by (intro exI[of _ S]) (simp add: closure_loop.simps(2) Let_def)
  qed
qed simp

lemma closure_loop_ancestors:
  assumes "db_ok d" "set roots \<subseteq> row_ids d"
  shows "closure_loop d roots {} = Inr (ancestors d (set roots))"
proof -
  note a = ancestors_retained[OF assms]
  have "\<forall>c\<in>ancestors d (set roots). \<forall>p. (p, c) \<in> causes d \<longrightarrow> p \<in> ancestors d (set roots)"
    using ancestors_closed by blast
  from closure_loop_search[OF assms(1) _ a(2) this, of roots "{}"] a(1) obtain S where
    S: "closure_loop d roots {} = Inr S" "set roots \<subseteq> S" "S \<subseteq> ancestors d (set roots)"
    "\<forall>c\<in>S. \<forall>p. (p, c) \<in> causes d \<longrightarrow> p \<in> S" by auto
  with ancestors_least[OF S(2,4)] show ?thesis by auto
qed

text \<open>The canonical order: one entry a record, its first.\<close>

lemma first_rows_set:
  "set (first_rows seen ps) \<subseteq> set ps"
  "PathRecord ` set (first_rows seen ps) = PathRecord ` set ps - seen"
  "distinct (map PathRecord (first_rows seen ps))"
proof -
  show s: "PathRecord ` set (first_rows seen ps) = PathRecord ` set ps - seen" for seen
    by (induction seen ps rule: first_rows.induct) auto
  show "set (first_rows seen ps) \<subseteq> set ps" by (induction seen ps rule: first_rows.induct) auto
  show "distinct (map PathRecord (first_rows seen ps))"
  proof (induction seen ps rule: first_rows.induct)
    case (2 seen p ps)
    have "PathRecord p \<notin> PathRecord ` set (first_rows (insert (PathRecord p) seen) ps)"
    proof -
      have "PathRecord ` set (first_rows S ps) = PathRecord ` set ps - S" for S
        by (induction S ps rule: first_rows.induct) auto
      then show ?thesis by simp
    qed
    with 2 show ?case by simp
  qed simp
qed

definition closure_rows :: "db \<Rightarrow> string set \<Rightarrow> path_row list" where
  "closure_rows d ids = first_rows {} (sort_key (\<lambda>p. (PathRef p, PathOrdinal p, PathRecord p))
    (filter (\<lambda>p. PathRecord p \<in> ids) (PathEntries d)))"

lemma closure_rows_ok:
  assumes "db_ok d" "ids \<subseteq> row_ids d"
  shows "set (closure_rows d ids) \<subseteq> set (PathEntries d)" "PathRecord ` set (closure_rows d ids) = ids"
    "distinct (map PathRecord (closure_rows d ids))"
proof -
  let ?rows = "sort_key (\<lambda>p. (PathRef p, PathOrdinal p, PathRecord p)) (filter (\<lambda>p. PathRecord p \<in> ids) (PathEntries d))"
  have r: "set ?rows = {p \<in> set (PathEntries d). PathRecord p \<in> ids}" by simp
  show "set (closure_rows d ids) \<subseteq> set (PathEntries d)"
    using first_rows_set(1)[of "{}" ?rows] r unfolding closure_rows_def by blast
  have "PathRecord ` set (PathEntries d) = row_ids d" using assms(1) by (simp add: db_ok_def)
  then have "PathRecord ` {p \<in> set (PathEntries d). PathRecord p \<in> ids} = ids" using assms(2) by auto
  then show "PathRecord ` set (closure_rows d ids) = ids" unfolding closure_rows_def first_rows_set(2) r by simp
  show "distinct (map PathRecord (closure_rows d ids))" unfolding closure_rows_def by (rule first_rows_set(3))
qed

lemma canonicalFactOrder_rows: "canonicalFactOrder None d ids = map entry_of_row (closure_rows d ids)"
  by (simp add: canonicalFactOrder_def closure_rows_def)

section \<open>Edges and anchors\<close>

lemma entry_facts_Inr:
  "(pe, r) \<in> set (entry_facts d f ps) \<longleftrightarrow>
    (\<exists>q\<in>set ps. modeMatches (entry_fact d q) f \<and> pe = entry_of_row q \<and> r = entry_fact d q)"
  by (auto simp: entry_facts_def)

lemma entry_facts_causes:
  assumes "db_ok d" "set ps \<subseteq> set (PathEntries d)" "(pe, r) \<in> set (entry_facts d f ps)"
  shows "p \<in> set (elems (CausedByIDs (Envelope r))) \<longleftrightarrow> (p, peRecord pe) \<in> causes d"
proof -
  obtain q where q: "q \<in> set ps" "pe = entry_of_row q" "r = entry_fact d q"
    using assms(3) unfolding entry_facts_Inr by blast
  with assms(2) have "q \<in> set (PathEntries d)" by blast
  from join_total[OF assms(1) this] obtain row where row: "find_record d (PathRecord q) = Some row"
    "CausedByIDs (Envelope r) = jsonToStrings (RowCausedBy row)" by (auto simp: q(3) entry_fact_def)
  show ?thesis using causes_row[OF assms(1) row(1)] row(2) by (simp add: q(2) entry_of_row_def)
qed

lemma loaded_ids_iff: "c \<in> loaded_ids l \<longleftrightarrow> (\<exists>pe r. (pe, r) \<in> set l \<and> peRecord pe = c)"
  by (force simp: loaded_ids_def)

lemma entry_facts_edges:
  assumes "db_ok d" "set ps \<subseteq> set (PathEntries d)" "l = entry_facts d f ps"
  shows "set (spEdges (loaded_parts d vis inc l)) = {(p, c). (p, c) \<in> causes d \<and> p \<in> loaded_ids l \<and> c \<in> loaded_ids l}"
proof -
  have "spEdges (loaded_parts d vis inc l) = concat (map (\<lambda>(pe, r). map (\<lambda>p. (p, peRecord pe))
      (filter (\<lambda>p. p \<in> loaded_ids l) (elems (CausedByIDs (Envelope r))))) l)"
    using loaded_parts_ok[of d vis inc l] by (simp add: parts_ok_def)
  then have "set (spEdges (loaded_parts d vis inc l)) =
      {(p, peRecord pe) | p pe r. (pe, r) \<in> set l \<and> p \<in> loaded_ids l \<and> p \<in> set (elems (CausedByIDs (Envelope r)))}"
    by auto
  also have "\<dots> = {(p, peRecord pe) | p pe r. (pe, r) \<in> set l \<and> p \<in> loaded_ids l \<and> (p, peRecord pe) \<in> causes d}"
    using entry_facts_causes[OF assms(1,2)] unfolding assms(3) by blast
  also have "\<dots> = {(p, c). (p, c) \<in> causes d \<and> p \<in> loaded_ids l \<and> c \<in> loaded_ids l}"
    using loaded_ids_iff by fastforce
  finally show ?thesis .
qed

lemma entry_facts_external:
  assumes "db_ok d" "set ps \<subseteq> set (PathEntries d)" "l = entry_facts d f ps"
  shows "AnchorRef ` set (om_values (spExternal (loaded_parts d vis inc l)))
    = (if inc then {p. p \<notin> loaded_ids l \<and> (\<exists>c\<in>loaded_ids l. (p, c) \<in> causes d)} else {})"
proof -
  let ?m = "spExternal (loaded_parts d vis inc l)"
  have ok: "om_ok ?m" and dom: "dom (fst ?m) = (if inc then {p. p \<notin> loaded_ids l
      \<and> (\<exists>(pe, r)\<in>set l. p \<in> set (elems (CausedByIDs (Envelope r))))} else {})"
    using loaded_parts_ok[of d vis inc l] by (simp_all add: parts_ok_def)
  have "(\<exists>(pe, r)\<in>set l. p \<in> set (elems (CausedByIDs (Envelope r)))) \<longleftrightarrow> (\<exists>c\<in>loaded_ids l. (p, c) \<in> causes d)" for p
    using entry_facts_causes[OF assms(1,2)] unfolding assms(3) loaded_ids_def by fastforce
  moreover have "AnchorRef ` set (om_values ?m) = dom (fst ?m)"
  proof -
    have "AnchorRef (the (fst ?m k)) = k" if "k \<in> set (snd ?m)" for k
    proof -
      have "k \<in> dom (fst ?m)" using that ok by (simp add: om_ok_def)
      then obtain a where a: "fst ?m k = Some a" by blast
      with anchors_named[OF a] show ?thesis by simp
    qed
    then have "AnchorRef ` set (om_values ?m) = set (snd ?m)" by (force simp: om_values_eq[OF ok])
    then show ?thesis using ok by (simp add: om_ok_def)
  qed
  ultimately show ?thesis using dom by simp
qed

end
