(* ===== verification/Frontier_Laws.thy ===== *)
theory Frontier_Laws
  imports Read_Laws Store_Frontier
begin

text \<open>
  The tables only grow, so what a frontier names never changes: the relation \<open>extends\<close> between
  two states of the database, and that the lookups a read rests on are stable under it.  Then
  what publishing writes, and what resolving reads.
\<close>

section \<open>Append-only tables\<close>

definition extends :: "db \<Rightarrow> db \<Rightarrow> bool" where
  "extends d d' \<longleftrightarrow> (\<exists>rs. Records d' = Records d @ rs) \<and> (\<exists>ps. PathEntries d' = PathEntries d @ ps)
    \<and> (\<exists>fs. Frontiers d' = Frontiers d @ fs)"

lemma extends_refl [simp]: "extends d d"
  by (simp add: extends_def)

lemma extends_trans [trans]: "extends d d1 \<Longrightarrow> extends d1 d2 \<Longrightarrow> extends d d2"
  by (auto simp: extends_def)

lemma extends_eq: "Records d' = Records d \<Longrightarrow> PathEntries d' = PathEntries d \<Longrightarrow> Frontiers d' = Frontiers d \<Longrightarrow> extends d d'"
  by (simp add: extends_def)

lemma extends_fact: "insertFactRowTx r c intent d = Inr d' \<Longrightarrow> extends d d'"
  using insertFactRowTx_frame[of r c intent d d'] by (auto simp: extends_def)

lemma extends_witness: "insertWitnessRecordIfMissingTx p intent d = Inr d' \<Longrightarrow> extends d d'"
  by (erule insertWitness_effect) (auto simp: extends_def)

lemma extends_loop:
  assumes "foldR f d xs = Inr d'" "\<And>d x d'. f d x = Inr d' \<Longrightarrow> extends d d'"
  shows "extends d d'"
  by (rule foldR_invariant[OF assms(1), of "extends d"]) (use assms(2) extends_trans in auto)

lemma write_append_extends:
  assumes "write_append batch dig p d = Inr d'" "prepareAppend lib d batch ctx = Inr p"
  shows "extends d d'"
proof -
  obtain cs ws fs r where p: "p = (cs, ws, fs, r)" by (cases p) auto
  let ?i = "AppendIntentID batch"
  from assms(1)[unfolded p] obtain d1 d2 d3 d4 where d:
    "d1 = d\<lparr>AppendIntents := AppendIntents d @ [\<lparr>IntentID = ?i, IntentDigest = dig, IntentReceipt = receiptToJSON r\<rparr>],
      Contexts := Contexts d @ map (\<lambda>c. context_row_of c ?i) cs\<rparr>"
    "insert_witnesses ?i d1 ws = Inr d2" "insert_facts ?i d2 (zip fs (CommitReceipts r)) = Inr d3"
    "update_ordinals (OwnerRanges r) d3 = Inr d4"
    "d' = (if CommitReceipts r \<noteq> [] then update_commit_seq (nextCommitSeq (CommitReceipts r)) d4 else d4)"
    by (rule write_append_Inr)
  obtain nc st where "OwnerRanges r = stRanges st" "ordinals_ok d st"
    using prepareAppend_Inr[OF assms(2)[unfolded p]] by (metis AppendReceipt.select_convs(4))
  then have "distinct (map fst (OwnerRanges r))" by (simp add: ordinals_ok_def)
  note u = update_ordinals_Inr[OF d(4) this]
  have "extends d d1" by (rule extends_eq) (simp_all add: d(1))
  also have "extends d1 d2" by (rule extends_loop[OF d(2)]) (rule extends_witness)
  also have "extends d2 d3" by (rule extends_loop[OF d(3)]) (auto intro: extends_fact)
  also have "extends d3 d4" using u by (intro extends_eq) (simp_all add: same_rest_def)
  also have "extends d4 d'" by (rule extends_eq) (simp_all add: d(5) update_commit_seq_def)
  finally show ?thesis .
qed

lemma appendInTx_extends:
  assumes "appendInTx lib ctx batch d = Inr ((receipt, isNew), d')"
  shows "extends d d'"
proof (cases "find_intent d (AppendIntentID batch)")
  case None
  with assms show ?thesis by (auto simp: appendInTx_def bindR_eq_Inr intro: write_append_extends)
next
  case (Some row)
  with assms have "d' = d" by (auto simp: appendInTx_def bindR_eq_Inr split: if_splits)
  then show ?thesis by simp
qed

lemma index_frontier_extends: "index_frontier f intent d = Inr (f', d') \<Longrightarrow> extends d d'"
  by (auto simp: index_frontier_def bindR_eq_Inr insert_frontier_def extends_def split: sum.splits if_splits)

text \<open>A successful publication, step by step.\<close>

lemma publishFrontierInTx_Inr:
  assumes "publishFrontierInTx lib ctx spec d = Inr (f, d')"
  obtains through view receipt isNew d1 i rest where "SpecFrontierID spec \<noteq> []"
    "readLatestFactOnPathTx d (SpecThroughFactID spec) (SpecTargetOwnerID spec) = Inr through"
    "View through = Some view" "ViewOwner view = SpecTargetOwnerID spec"
    "appendInTx lib ctx (frontier_batch ctx spec (ViewOrdinal view)) d = Inr ((receipt, isNew), d1)"
    "FactIDs receipt = i # rest"
    "index_frontier \<lparr>FrontierID = SpecFrontierID spec, TargetTraceOwnerID = SpecTargetOwnerID spec,
        ThroughFactID = SpecThroughFactID spec, ThroughOwnerOrdinal = ViewOrdinal view,
        PublisherOwnerID = frontier_publisher spec, CreatedByFactID = i\<rparr> (frontier_intent spec) d1 = Inr (f, d')"
proof -
  have id: "SpecFrontierID spec \<noteq> []" using assms by (auto simp: publishFrontierInTx_def split: if_splits)
  from assms id obtain through where t: "readLatestFactOnPathTx d (SpecThroughFactID spec) (SpecTargetOwnerID spec) = Inr through"
    by (auto simp: publishFrontierInTx_def bindR_eq_Inr)
  from assms id t obtain view where v: "View through = Some view" "ViewOwner view = SpecTargetOwnerID spec"
    by (auto simp: publishFrontierInTx_def split: option.splits if_splits)
  from assms id t v obtain receipt isNew d1 where
    a: "appendInTx lib ctx (frontier_batch ctx spec (ViewOrdinal view)) d = Inr ((receipt, isNew), d1)"
    by (auto simp: publishFrontierInTx_def bindR_eq_Inr)
  from assms id t v a obtain i rest where "FactIDs receipt = i # rest"
    by (cases "FactIDs receipt") (simp_all add: publishFrontierInTx_def)
  with that[OF id t v a] assms id t v a show thesis by (simp add: publishFrontierInTx_def)
qed

lemma publishFrontierInTx_extends: "publishFrontierInTx lib ctx spec d = Inr (f, d') \<Longrightarrow> extends d d'"
  by (erule publishFrontierInTx_Inr) (blast intro: extends_trans appendInTx_extends index_frontier_extends)

section \<open>Stable lookups\<close>

lemma extends_find:
  assumes "extends d d'"
  shows "find_record d i = Some r \<Longrightarrow> find_record d' i = Some r"
    "find_frontier d k = Some fr \<Longrightarrow> find_frontier d' k = Some fr"
  using assms by (auto simp: extends_def find_record_def find_frontier_def find_append)

lemma extends_entries:
  assumes "extends d d'"
  obtains ps where "owner_entries d' ow = owner_entries d ow @ ps" "set (PathEntries d) \<subseteq> set (PathEntries d')"
  using assms by (auto simp: extends_def owner_entries_def)

lemma extends_entry_fact:
  assumes "extends d d'" "db_ok d" "p \<in> set (PathEntries d)"
  shows "entry_fact d' p = entry_fact d p"
proof -
  have "PathRecord p \<in> row_ids d" using assms(2,3) by (auto simp: db_ok_def)
  then obtain row where "find_record d (PathRecord p) = Some row" using recs.look_None[of d "PathRecord p"] by fastforce
  with extends_find(1)[OF assms(1)] show ?thesis by (simp add: entry_fact_def join_entry_def)
qed

lemma extends_entry_facts:
  assumes "extends d d'" "db_ok d" "set ps \<subseteq> set (PathEntries d)"
  shows "entry_facts d' f ps = entry_facts d f ps"
  unfolding entry_facts_def
  using extends_entry_fact[OF assms(1,2)] assms(3) by (auto intro!: map_cong filter_cong)

lemma readFact_body:
  assumes "readFact d i = Inr r"
  shows "\<exists>row. find_record d i = Some row \<and> bodyFromJSON (RowBody row) = Inr (Body r)"
  using assms unfolding readFact_def by (rule readFactTx_Inr) simp

lemma readFact_total: "db_ok d \<Longrightarrow> find_record d i = Some row \<Longrightarrow> \<exists>r. readFact d i = Inr r"
  using readFactTx_total[of d i row] by (auto simp: readFact_def)

text \<open>A frontier that reads once reads the same for ever.\<close>

lemma readOwnerCutoff_stable:
  assumes "readOwnerCutoff d k = Inr f" "extends d d'" "db_ok d'"
  shows "readOwnerCutoff d' k = Inr f"
proof -
  obtain r e where r: "readOwnerCutoffTx d k = Inr f" "readFact d (CreatedByFactID f) = Inr r"
    "frontierFromPayload (Body r) (CreatedByFactID f) = Inr e" "same_cutoff f e"
    using assms(1) by (auto simp: readOwnerCutoff_def bindR_eq_Inr split: if_splits)
  from readFact_body[OF r(2)] obtain row where row: "find_record d (CreatedByFactID f) = Some row"
    "bodyFromJSON (RowBody row) = Inr (Body r)" by blast
  have row': "find_record d' (CreatedByFactID f) = Some row" by (rule extends_find(1)[OF assms(2) row(1)])
  from readFact_total[OF assms(3) this] obtain r' where r': "readFact d' (CreatedByFactID f) = Inr r'" by blast
  have "Body r' = Body r" using readFact_body[OF r'] row' row(2) by simp
  moreover have "readOwnerCutoffTx d' k = Inr f"
    using r(1) extends_find(2)[OF assms(2)] by (auto simp: readOwnerCutoffTx_def split: option.splits)
  ultimately show ?thesis using r r' by (simp add: readOwnerCutoff_def)
qed

lemma readOwnerCutoff_target:
  assumes "readOwnerCutoff d k = Inr f"
  shows "TargetTraceOwnerID f \<noteq> []" "FrontierID f = k"
proof -
  obtain r e where r: "readOwnerCutoffTx d k = Inr f" "readFact d (CreatedByFactID f) = Inr r"
      "frontierFromPayload (Body r) (CreatedByFactID f) = Inr e" "same_cutoff f e"
    using assms by (auto simp: readOwnerCutoff_def bindR_eq_Inr split: if_splits)
  have "TargetTraceOwnerID e \<noteq> []"
    using r(3) by (auto simp: frontierFromPayload_def payload_string_def bindR_eq_Inr split: gval.splits if_splits)
  with r(4) show "TargetTraceOwnerID f \<noteq> []" by (simp add: same_cutoff_def)
  show "FrontierID f = k"
    using r(1) cuts.look_Some by (fastforce simp: readOwnerCutoffTx_def frontier_of_row_def split: option.splits)
qed

section \<open>Resolving\<close>

definition cut_entries :: "db \<Rightarrow> Frontier \<Rightarrow> path_row list" where
  "cut_entries d f = take (nat (ThroughOwnerOrdinal f + 1)) (owner_entries d (TargetTraceOwnerID f))"

definition cut_entry :: "db \<Rightarrow> Frontier \<Rightarrow> bool" where
  "cut_entry d f \<longleftrightarrow> (\<exists>p\<in>set (PathEntries d). PathRecord p = ThroughFactID f \<and> PathRef p = TargetTraceOwnerID f
    \<and> PathOrdinal p = ThroughOwnerOrdinal f)"

lemma cut_entries_sub: "set (cut_entries d f) \<subseteq> set (PathEntries d)"
  using set_take_subset by (fastforce simp: cut_entries_def owner_entries_def)

lemma resolve_eq:
  assumes "db_ok (Db s)" "witnessed (Db s)" "readOwnerCutoff (Db s) k = Inr f" "cut_entry (Db s) f"
    and "ensureReadAuthorized (read_operation_context auth) = Inr ()" "ensureModeFilter m = Inr ()"
  shows "\<exists>support. ResolveFrontier None auth k m s = Inr (slice_of (Db s) (Some f)
    (VisibilityProfile (read_operation_context auth)) m True (entry_facts (Db s) m (cut_entries (Db s) f)) support)"
proof -
  let ?d = "Db s" and ?ow = "TargetTraceOwnerID f"
  obtain p where p: "p \<in> set (PathEntries ?d)" "entry_of_row p
      = \<lparr>peRecord = ThroughFactID f, peRef = ?ow, peOrdinal = ThroughOwnerOrdinal f\<rparr>"
    "PathRef p = ?ow" "PathOrdinal p = ThroughOwnerOrdinal f"
    using assms(4) by (auto simp: cut_entry_def entry_of_row_def)
  have th: "readFactAtPath ?d \<lparr>peRecord = ThroughFactID f, peRef = ?ow, peOrdinal = ThroughOwnerOrdinal f\<rparr> = Inr (entry_fact ?d p)"
    using readFactAtPath_entry[OF assms(1) p(1)] p(2) by simp
  obtain r where "scanRecord (join_entry ?d p) = Inr r" using join_total[OF assms(1) p(1)] by blast
  then have "View (entry_fact ?d p) = Some \<lparr>ViewOwner = PathRef p, ViewOrdinal = PathOrdinal p,
      ViewContextRef = PathContext p, ViewKindLabel = PathKind p\<rparr>"
    by (auto simp: entry_fact_def scanRecord_def join_entry_def bindR_eq_Inr split: option.splits)
  then have v: "View (entry_fact ?d p) \<noteq> None" "ViewOwner (the (View (entry_fact ?d p))) = ?ow"
    "ViewOrdinal (the (View (entry_fact ?d p))) = ThroughOwnerOrdinal f" using p(3,4) by simp_all
  have ow: "?ow \<noteq> []" by (rule readOwnerCutoff_target(1)[OF assms(3)])
  have rows: "sort_key PathOrdinal (filter (\<lambda>p. PathRef p = ?ow \<and> PathOrdinal p \<le> ThroughOwnerOrdinal f) (PathEntries ?d))
      = cut_entries ?d f"
    using prefix_rows_owner[OF assms(1) ow, of "ThroughOwnerOrdinal f"] ow by (simp add: prefix_rows_def cut_entries_def)
  from buildSlice_total[OF assms(1,2) cut_entries_sub, of m f "Some f" "VisibilityProfile (read_operation_context auth)" True] v
  show ?thesis by (auto simp: ResolveFrontier_def assms(3,5,6) th rows)
qed

lemma resolve_inv:
  assumes "ResolveFrontier q auth k m s = Inr sl" "db_ok (Db s)" "witnessed (Db s)"
  obtains f support where "readOwnerCutoff (Db s) k = Inr f" "cut_entry (Db s) f"
    "ensureReadAuthorized (read_operation_context auth) = Inr ()" "ensureModeFilter m = Inr ()" "q = None"
    "sl = slice_of (Db s) (Some f) (VisibilityProfile (read_operation_context auth)) m True
       (entry_facts (Db s) m (cut_entries (Db s) f)) support"
proof -
  obtain f r where f: "readOwnerCutoff (Db s) k = Inr f" "ensureReadAuthorized (read_operation_context auth) = Inr ()"
    "ensureModeFilter m = Inr ()" "q = None"
    "readFactAtPath (Db s) \<lparr>peRecord = ThroughFactID f, peRef = TargetTraceOwnerID f, peOrdinal = ThroughOwnerOrdinal f\<rparr> = Inr r"
    using assms(1) by (auto simp: ResolveFrontier_def Let_def bindR_eq_Inr split: option.splits if_splits)
  have "cut_entry (Db s) f"
    using f(5) by (auto simp: readFactAtPath_def scanRecord_def cut_entry_def find_Some_iff set_conv_nth split: option.splits)
  with resolve_eq[OF assms(2,3) f(1) _ f(2,3)] assms(1) f that show thesis by auto
qed

end
