(* ===== verification/Append_Rows.thy ===== *)
theory Append_Rows
  imports Frontier_Laws
begin

text \<open>
  What an append leaves in the record table, for the components that append records of their
  own and read them back (frontiers, executions): a record whose id was not retained before has
  the row of its draft, and the members of a stored payload are the decoded members of the
  payload.
\<close>

section \<open>Stored payloads\<close>

lemma sorted_fields_lookup:
  assumes "distinct (map fst kvs)"
  shows "map_of (sorted_fields kvs) = map_of kvs"
proof (rule map_of_inject_set[THEN iffD2])
  show "set (sorted_fields kvs) = set kvs" by (simp add: sorted_fields_def)
  have "mset (map fst (sorted_fields kvs)) = mset (map fst kvs)" by (simp add: sorted_fields_def)
  then show "distinct (map fst (sorted_fields kvs))" using assms mset_eq_imp_distinct_iff by blast
  show "distinct (map fst kvs)" by (rule assms)
qed

lemma marshal_fields_lookup:
  assumes "marshal_fields kvs = Inr js" "list_all (\<lambda>(k, v). valid_string k) kvs"
  shows "map_of (map (\<lambda>(k, j). (to_valid k, json_decode j)) js) k
    = (case map_of kvs k of None \<Rightarrow> None | Some v \<Rightarrow> (case json_marshal v of Inl e \<Rightarrow> None | Inr j \<Rightarrow> Some (json_decode j)))"
  using assms
proof (induction kvs arbitrary: js)
  case (Cons kv kvs)
  obtain k' v where kv: "kv = (k', v)" by (cases kv)
  obtain j js' where "json_marshal v = Inr j" "marshal_fields kvs = Inr js'" "js = (k', j) # js'"
    using Cons.prems(1) by (auto simp: kv bindR_eq_Inr)
  with Cons.IH[of js'] Cons.prems(2) kv show ?case by (simp add: to_valid_id)
qed simp

text \<open>A payload that can be stored reads back member by member.\<close>

lemma stored_payload:
  assumes "json_marshal (VMap kvs) = Inr j" "distinct (map fst kvs)" "list_all (\<lambda>(k, v). valid_string k) kvs"
  shows "\<exists>b. bodyFromJSON (bodyToJSON (Some kvs)) = Inr (Some b)
    \<and> (\<forall>k. map_of b k = (case map_of kvs k of None \<Rightarrow> None
         | Some v \<Rightarrow> (case json_marshal v of Inl e \<Rightarrow> None | Inr j \<Rightarrow> Some (json_decode j))))"
proof -
  obtain js where js: "marshal_fields (sorted_fields kvs) = Inr js" "j = JObj js"
    using assms(1) by (auto simp: bindR_eq_Inr)
  have "list_all (\<lambda>(k, v). valid_string k) (sorted_fields kvs)" using assms(3) by (simp add: sorted_fields_all)
  note marshal_fields_lookup[OF js(1) this]
  then show ?thesis
    using assms(1) js(2) by (simp add: bodyToJSON_def bodyFromJSON_def of_gmap_def sorted_fields_lookup[OF assms(2)])
qed

section \<open>The rows of an append\<close>

lemma insert_facts_row:
  assumes "insert_facts intent d fcs = Inr d'" "i \<notin> row_ids d" "i \<in> (\<lambda>(f, c). RecordID (Envelope f)) ` set fcs"
  shows "\<exists>f\<in>fst ` set fcs. RecordID (Envelope f) = i \<and> find_record d' i = Some (record_row_of f intent)"
  using assms
proof (induction fcs arbitrary: d)
  case (Cons fc fcs)
  obtain f c where fc: "fc = (f, c)" by (cases fc)
  obtain d1 where d1: "insertFactRowTx f c intent d = Inr d1" "insert_facts intent d1 fcs = Inr d'"
    using Cons.prems(1) by (auto simp: fc bindR_eq_Inr)
  obtain d2 where d2: "insertRecordIfMissingTx f intent d = Inr d2" "insert_path (entry_of intent f c) d2 = Inr d1"
    using d1(1) by (rule insertFactRowTx_Inr)
  have same: "Records d1 = Records d2" using d2(2) by (simp add: insert_Inr)
  have ext: "extends d1 d'" by (rule extends_loop[OF d1(2)]) (auto intro: extends_fact)
  show ?case
  proof (cases "RecordID (Envelope f) = i")
    case True
    with Cons.prems(2) d2(1) have "Records d2 = Records d @ [record_row_of f intent]"
      by (elim insertRecordIfMissingTx_Inr) simp_all
    moreover have "find_record d i = None" using Cons.prems(2) by (simp only: recs.look_None not_False_eq_True)
    ultimately have "find_record d1 i = Some (record_row_of f intent)"
      using True same by (simp add: find_record_def find_append record_row_of_def)
    from extends_find(1)[OF ext this] True fc show ?thesis by force
  next
    case False
    have "Records d2 = Records d \<or> Records d2 = Records d @ [record_row_of f intent]"
      using d2(1) by (elim insertRecordIfMissingTx_Inr) simp_all
    with False Cons.prems(2) same have "i \<notin> row_ids d1" by (auto simp: record_row_of_def)
    from Cons.IH[OF d1(2) this] Cons.prems(3) False fc show ?thesis by auto
  qed
qed simp

lemma insert_witnesses_ids: "insert_witnesses intent d ws = Inr d' \<Longrightarrow> row_ids d' \<subseteq> row_ids d \<union> planID ` set ws"
proof (induction ws arbitrary: d)
  case (Cons p ws)
  obtain d1 where d1: "insertWitnessRecordIfMissingTx p intent d = Inr d1" "insert_witnesses intent d1 ws = Inr d'"
    using Cons.prems by (auto simp: bindR_eq_Inr)
  have "row_ids d1 \<subseteq> row_ids d \<union> {planID p}"
    using d1(1)
  proof (cases rule: insertWitness_effect)
    case (2 rs es e)
    let ?f = "witness_fact p (nextOwnerOrdinalTx d witnessTraceOwnerID)"
    obtain d0 where d0: "insertRecordIfMissingTx ?f intent d = Inr d0"
        "insert_path (entry_of intent ?f (''witness:'' @ planID p)) d0 = Inr (d1\<lparr>OwnerOrdinals := OwnerOrdinals d\<rparr>)"
      using 2(2) by (rule insertFactRowTx_Inr)
    have "Records (d1\<lparr>OwnerOrdinals := OwnerOrdinals d\<rparr>) = Records d0" using d0(2) by (simp add: insert_Inr del: db.simps)
    moreover have "Records d0 = Records d \<or> Records d0 = Records d @ [record_row_of ?f intent]"
      using d0(1) by (elim insertRecordIfMissingTx_Inr) simp_all
    ultimately show ?thesis by (auto simp: record_row_of_def witness_fact_def)
  qed blast
  with Cons.IH[OF d1(2)] show ?case by auto
qed simp

lemma appended_row:
  assumes p: "prepareAppend lib d batch ctx = Inr (cs, ws, fs, r)" and w: "write_append batch dig (cs, ws, fs, r) d = Inr d'"
    and f: "i \<in> set (FactIDs r)" "i \<notin> row_ids d" and np: "\<And>p. plan_ok lib p \<Longrightarrow> planID p \<noteq> i" and u: "root_unique lib"
  shows "\<exists>f\<in>set fs. RecordID (Envelope f) = i \<and> find_record d' i = Some (record_row_of f (AppendIntentID batch))"
proof -
  let ?i = "AppendIntentID batch"
  from w obtain d1 d2 d3 d4 where d:
    "d1 = d\<lparr>AppendIntents := AppendIntents d @ [\<lparr>IntentID = ?i, IntentDigest = dig, IntentReceipt = receiptToJSON r\<rparr>],
      Contexts := Contexts d @ map (\<lambda>c. context_row_of c ?i) cs\<rparr>"
    "insert_witnesses ?i d1 ws = Inr d2" "insert_facts ?i d2 (zip fs (CommitReceipts r)) = Inr d3"
    "update_ordinals (OwnerRanges r) d3 = Inr d4"
    "d' = (if CommitReceipts r \<noteq> [] then update_commit_seq (nextCommitSeq (CommitReceipts r)) d4 else d4)"
    by (rule write_append_Inr)
  obtain nc st where st: "ws = List.map_filter (fst (stWitnesses st)) (snd (stWitnesses st))" "FactIDs r = factIDs (stFacts st)"
    "fs = stFacts st" "CommitReceipts r = stCommits st" "OwnerRanges r = stRanges st"
    "staged_facts_ok lib d nc st" "ordinals_ok d st" "witnesses_planned lib st"
    using prepareAppend_Inr[OF p] by (metis (no_types, lifting) AppendReceipt.select_convs(2,3,4))
  have "plans_ok lib (stWitnesses st)" using st(8) by (simp add: witnesses_planned_def)
  from planned_witnesses(1)[OF this u st(1)] np have "i \<notin> planID ` set ws" by blast
  moreover have "row_ids d1 = row_ids d" by (simp add: d(1))
  ultimately have fresh: "i \<notin> row_ids d2" using insert_witnesses_ids[OF d(2)] f(2) by auto
  have len: "length fs = length (CommitReceipts r)" using st(3,4,6) by (simp add: staged_facts_ok_def commits_from_def)
  have "fst ` set (zip fs (CommitReceipts r)) = set fs" using len by (metis list.set_map map_fst_zip)
  moreover have "(\<lambda>(f, c). RecordID (Envelope f)) ` set (zip fs (CommitReceipts r)) = (\<lambda>f. RecordID (Envelope f)) ` set fs"
    using calculation by (force simp: image_def)
  moreover have "i \<in> (\<lambda>f. RecordID (Envelope f)) ` set fs" using f(1) st(2,3) by (simp add: factIDs_def)
  ultimately obtain fct where fct: "fct \<in> set fs" "RecordID (Envelope fct) = i" "find_record d3 i = Some (record_row_of fct ?i)"
    using insert_facts_row[OF d(3) fresh] by auto
  have "distinct (map fst (OwnerRanges r))" using st(5,7) by (simp add: ordinals_ok_def)
  from update_ordinals_Inr[OF d(4) this] have "Records d' = Records d3" by (simp add: d(5) update_commit_seq_def)
  with fct show ?thesis by (auto simp: find_record_def)
qed

text \<open>No record of another schema has the id of a witness.\<close>

lemma witness_ids_apart:
  assumes "lib_ok lib" "inj (sha256 lib)" "RecordDigest lib s m b cs w = Inr i" "gval_ok (VMap (elems b))"
    and "\<not> is_witness_schema s" "plan_ok lib p"
  shows "planID p \<noteq> i"
proof
  assume e: "planID p = i"
  obtain s' m' b' c' w' where p: "RecordDigest lib s' m' b' c' w' = Inr (planID p)" "gval_ok (VMap (elems b'))" "is_witness_schema s'"
  proof (cases "p = rootWitnessPlan lib")
    case True
    have "RecordDigest lib RootWitnessSchemaRef Capture RootWitnessBody [] RootWitnessRef = Inr (planID p)"
      using RootWitnessRecordID_total[of lib] True by (simp add: RootWitnessRecordID_def rootWitnessPlan_def)
    with that ordinary_body_ok(2) show thesis by (simp add: is_witness_schema_def)
  next
    case False
    then obtain rc ctx where "ordinaryWitnessPlan lib rc ctx = Inr p" using assms(6) by (auto simp: plan_ok_def)
    from ordinaryWitnessPlan_Inr(6)[OF this] that ordinary_body_ok(1) show thesis by (simp add: is_witness_schema_def)
  qed
  have "inj_on (sha256 lib) X" for X using assms(2) by (simp add: inj_on_def)
  from RecordDigest_inject[OF assms(1,4) p(2) assms(3) p(1)[unfolded e] this] p(3) assms(5) show False by simp
qed

text \<open>The row of a draft: its schema, mode and payload under the id of its digest.\<close>

definition draft_row :: "golib \<Rightarrow> db \<Rightarrow> AppendGroup \<times> RecordDraft \<Rightarrow> string \<Rightarrow> bool" where
  "draft_row lib d gd i \<longleftrightarrow> (\<exists>row cs w. find_record d i = Some row \<and> RowSchema row = DraftSchemaRef (snd gd)
    \<and> RowMode row = DraftMode (snd gd) \<and> RowBody row = bodyToJSON (DraftPayload (snd gd))
    \<and> RecordDigest lib (DraftSchemaRef (snd gd)) (DraftMode (snd gd)) (DraftPayload (snd gd)) cs w = Inr i)"

text \<open>Drafts with payloads in the domain of the encoder, none of them a witness record.\<close>

definition drafts_ok :: "AppendBatch \<Rightarrow> bool" where
  "drafts_ok batch \<longleftrightarrow> (\<forall>gd\<in>set (batch_drafts batch).
    gval_ok (VMap (elems (DraftPayload (snd gd)))) \<and> \<not> is_witness_schema (DraftSchemaRef (snd gd)))"

lemma appended_fact_row:
  assumes p: "prepareAppend lib d batch ctx = Inr (cs, ws, fs, r)" and w: "write_append batch dig (cs, ws, fs, r) d = Inr d'"
    and lib: "lib_ok lib" "inj (sha256 lib)" and f: "f \<in> set fs" "RecordID (Envelope f) \<notin> row_ids d"
    and b: "gval_ok (VMap (elems (Body f)))" "\<not> is_witness_schema (SchemaRef (Envelope f))"
  shows "\<exists>c w. RecordDigest lib (SchemaRef (Envelope f)) (Mode (Envelope f)) (Body f) c w = Inr (RecordID (Envelope f))"
    "\<exists>g\<in>set fs. RecordID (Envelope g) = RecordID (Envelope f)
      \<and> find_record d' (RecordID (Envelope f)) = Some (record_row_of g (AppendIntentID batch))"
proof -
  obtain nc st where st: "FactIDs r = factIDs fs" "fs = stFacts st" "staged_facts_ok lib d nc st"
    using prepareAppend_Inr[OF p] by (metis (no_types, lifting) AppendReceipt.select_convs(2))
  have "facts_ok lib d {} fs" using st(2,3) by (simp add: staged_facts_ok_def)
  from facts_ok_each[OF this f(1)] show dg: "\<exists>c w. RecordDigest lib (SchemaRef (Envelope f)) (Mode (Envelope f)) (Body f) c w
      = Inr (RecordID (Envelope f))"
    unfolding fact_ok_def by (force simp: draft_record_def)
  then have np: "planID q \<noteq> RecordID (Envelope f)" if "plan_ok lib q" for q
    using witness_ids_apart[OF lib _ b] that by blast
  have "RecordID (Envelope f) \<in> set (FactIDs r)" using f(1) by (simp add: st(1) factIDs_def)
  from appended_row[OF p w this f(2) np root_unique_inj[OF lib(2,1)]]
  show "\<exists>g\<in>set fs. RecordID (Envelope g) = RecordID (Envelope f)
      \<and> find_record d' (RecordID (Envelope f)) = Some (record_row_of g (AppendIntentID batch))" .
qed

lemma appended_drafts:
  assumes a: "appendInTx lib ctx batch d = Inr ((r, new), d')" "find_intent d (AppendIntentID batch) = None"
    and lib: "lib_ok lib" "inj (sha256 lib)" and b: "drafts_ok batch"
    and fresh: "distinct (FactIDs r)" "set (FactIDs r) \<inter> row_ids d = {}"
  shows "list_all2 (draft_row lib d') (batch_drafts batch) (FactIDs r)"
proof -
  obtain dig cs ws fs where w: "validateBatchShape batch = Inr ()" "prepareAppend lib d batch ctx = Inr (cs, ws, fs, r)"
    "write_append batch dig (cs, ws, fs, r) d = Inr d'"
    using a by (auto simp: appendInTx_def bindR_eq_Inr)
  obtain nc st where "FactIDs r = factIDs fs" "fs = stFacts st" "staged_origins st (batch_drafts batch)"
    using prepareAppend_Inr[OF w(2)] by (metis (no_types, lifting) AppendReceipt.select_convs(2))
  then have st: "FactIDs r = map (\<lambda>f. RecordID (Envelope f)) fs" "map fact_origin fs = map draft_origin (batch_drafts batch)"
    by (simp_all add: factIDs_def staged_origins_def)
  have len: "length fs = length (batch_drafts batch)" using st(2) by (rule map_eq_imp_length_eq)
  show ?thesis
  proof (rule list_all2_all_nthI)
    show "length (batch_drafts batch) = length (FactIDs r)" by (simp add: st(1) len)
  next
    fix k assume k: "k < length (batch_drafts batch)"
    let ?f = "fs ! k" and ?draft = "snd (batch_drafts batch ! k)"
    have in_: "?f \<in> set fs" "batch_drafts batch ! k \<in> set (batch_drafts batch)" using k len by simp_all
    have i: "FactIDs r ! k = RecordID (Envelope ?f)" using k len by (simp add: st(1))
    have "fact_origin ?f = draft_origin (batch_drafts batch ! k)" using st(2) k len by (metis nth_map)
    then have orig: "SchemaRef (Envelope ?f) = DraftSchemaRef ?draft" "Mode (Envelope ?f) = DraftMode ?draft" "Body ?f = DraftPayload ?draft"
      by (simp_all add: fact_origin_def draft_origin_def)
    have "gval_ok (VMap (elems (Body ?f)))" "\<not> is_witness_schema (SchemaRef (Envelope ?f))"
      using b in_(2) by (simp_all add: drafts_ok_def orig)
    moreover have "RecordID (Envelope ?f) \<in> set (FactIDs r)" using in_(1) by (simp add: st(1))
    then have "RecordID (Envelope ?f) \<notin> row_ids d" using fresh(2) by blast
    ultimately obtain c wr g where g: "RecordDigest lib (SchemaRef (Envelope ?f)) (Mode (Envelope ?f)) (Body ?f) c wr = Inr (RecordID (Envelope ?f))"
      "g \<in> set fs" "RecordID (Envelope g) = RecordID (Envelope ?f)"
      "find_record d' (RecordID (Envelope ?f)) = Some (record_row_of g (AppendIntentID batch))"
      using appended_fact_row[OF w(2,3) lib in_(1)] by blast
    have "inj_on (\<lambda>f. RecordID (Envelope f)) (set fs)" using fresh(1) by (simp add: st(1) distinct_map)
    then have "g = ?f" using g(2,3) in_(1) by (auto simp: inj_on_def)
    with g(1,4) show "draft_row lib d' (batch_drafts batch ! k) (FactIDs r ! k)"
      unfolding draft_row_def by (intro exI[of _ "record_row_of ?f (AppendIntentID batch)"] exI[of _ c] exI[of _ wr])
        (simp add: i orig record_row_of_def)
  qed
qed

end
