(* ===== verification/Append_Properties.thy ===== *)
theory Append_Properties
  imports Append_Scenario
begin

text \<open>The properties of the append, each at the scenario of \<open>Append_Scenario\<close>.\<close>

section \<open>Inversion\<close>

lemma publish_db: "publishAppendEvents batch r now s = Inr s' \<Longrightarrow> Db s' = Db s"
  by (auto simp: publishAppendEvents_def bindR_eq_Inr split: option.splits)

lemma Append_new_facts:
  assumes "Append lib env auth batch s = (Inr r, s')" "find_intent (Db s) (AppendIntentID batch) = None"
  obtains dig cs ws fs where "validateBatchShape batch = Inr ()"
    "batchDigest lib batch (append_operation_context auth OpAppend) = Inr dig"
    "prepareAppend lib (Db s) batch (append_operation_context auth OpAppend) = Inr (cs, ws, fs, r)"
    "write_append batch dig (cs, ws, fs, r) (Db s) = Inr (Db s')"
    "publishAppendEvents batch r (clock env) (s\<lparr>Db := Db s'\<rparr>) = Inr s'"
    "ensureAppendAuthorized (append_operation_context auth OpAppend) = Inr ()"
proof -
  from assms obtain dig cs ws fs d' where a: "ensureAppendAuthorized (append_operation_context auth OpAppend) = Inr ()"
    "validateBatchShape batch = Inr ()"
    "batchDigest lib batch (append_operation_context auth OpAppend) = Inr dig"
    "prepareAppend lib (Db s) batch (append_operation_context auth OpAppend) = Inr (cs, ws, fs, r)"
    "write_append batch dig (cs, ws, fs, r) (Db s) = Inr d'"
    "publishAppendEvents batch r (clock env) (s\<lparr>Db := d'\<rparr>) = Inr s'"
    by (rule Append_new)
  have "Db s' = d'" using publish_db[OF a(6)] by simp
  with a that show thesis by blast
qed

lemma prepared_counts:
  assumes "prepareAppend lib d batch ctx = Inr (cs, ws, fs, r)"
  shows "\<exists>nc. NextCommitSeq d = Some nc \<and> CommitReceipts r = commits_from nc (length (batch_drafts batch))
    \<and> length (FactIDs r) = length (batch_drafts batch) \<and> distinct (map fst (OwnerRanges r))
    \<and> (\<forall>ow. map_of (OwnerRanges r) ow = (let n = length (filter (\<lambda>gd. TraceOwnerID (fst gd) = ow) (batch_drafts batch)) in
         if n = 0 then None else Some (nextOwnerOrdinalTx d ow, nextOwnerOrdinalTx d ow + int n - 1)))"
  using assms
proof (cases rule: prepareAppend_Inr)
  case (1 nc st)
  have origins: "map fact_origin fs = map draft_origin (batch_drafts batch)" using 1(5,10) by (simp add: staged_origins_def)
  then have l: "length fs = length (batch_drafts batch)" by (rule map_eq_imp_length_eq)
  have m: "map (\<lambda>f. fst (fact_slot f)) fs = map (\<lambda>gd. TraceOwnerID (fst gd)) (batch_drafts batch)"
    using arg_cong[OF origins, of "map fst"] by (simp add: fact_origin_def draft_origin_def comp_def)
  have f: "length (filter (\<lambda>x. h x = ow) xs) = length (filter (\<lambda>y. y = ow) (map h xs))" for ow :: string and h :: "'z \<Rightarrow> string" and xs
    by (simp add: filter_map comp_def)
  have n: "length (ords fs ow) = length (filter (\<lambda>gd. TraceOwnerID (fst gd) = ow) (batch_drafts batch))" for ow
  proof -
    have "length (ords fs ow) = length (filter (\<lambda>f. fst (fact_slot f) = ow) fs)" by (simp add: ords_def filter_map comp_def)
    then show ?thesis unfolding f[of "\<lambda>f. fst (fact_slot f)"] m f[of "\<lambda>gd. TraceOwnerID (fst gd)"] .
  qed
  have "distinct (map fst (stRanges st))"
    "map_of (stRanges st) ow = (if ords fs ow = [] then None
      else Some (nextOwnerOrdinalTx d ow, nextOwnerOrdinalTx d ow + int (length (ords fs ow)) - 1))" for ow
    using 1(5,8) by (simp_all add: ordinals_ok_def)
  moreover have "ords fs ow = [] \<longleftrightarrow> length (ords fs ow) = 0" for ow by simp
  ultimately have "map_of (stRanges st) ow = (let n = length (filter (\<lambda>gd. TraceOwnerID (fst gd) = ow) (batch_drafts batch)) in
         if n = 0 then None else Some (nextOwnerOrdinalTx d ow, nextOwnerOrdinalTx d ow + int n - 1))" for ow
    unfolding n Let_def by presburger
  moreover have "stCommits st = commits_from nc (length (batch_drafts batch))"
    using 1(5,7) l by (simp add: staged_facts_ok_def)
  ultimately show ?thesis using 1(1,5,8) l by (simp add: 1(6) factIDs_def ordinals_ok_def)
qed

section \<open>Properties\<close>

text \<open>C3: The append is atomic: an append that returns an error (a guard, a digest, a constraint, the
  begin or the commit of the transaction) leaves the store, its bus included, as it was.\<close>

theorem append_atomic:
  assumes "Append lib env auth batch s = (Inl e, s')" "\<forall>b. Bus s = Some b \<longrightarrow> bus_ok b"
  shows "s' = s"
  by (rule Append_error_unchanged[OF assms])

theorem append_atomic_witness:
  "\<exists>e s'. Append demo_lib (demo_env\<lparr>commit_error := Some (Driver ''disk full'')\<rparr>) TrustedAppendContext demo_batch demo_store
     = (Inl e, s') \<and> s' = demo_store"
proof -
  obtain c wp i dig where i: "demo_ids demo_lib c wp i" and dig: "batchDigest demo_lib demo_batch demo_ctx = Inr dig"
    by (rule demo_append[OF demo_lib_ok(1,2)])
  have "Append demo_lib (demo_env\<lparr>commit_error := Some (Driver ''disk full'')\<rparr>) TrustedAppendContext demo_batch demo_store
     = (Inl (Driver ''disk full''), demo_store)"
    using demo_in_tx[OF i dig] by (simp add: Append_def demo_valid demo_env_def Let_def)
  moreover from append_atomic[OF this] have "demo_store = demo_store" by (simp add: demo_store_def)
  ultimately show ?thesis by blast
qed

text \<open>C2: A committed append refines the abstract store, a log of record ids for every owner: the log
  of each owner of the batch grows by the ids of its drafts in batch order, no other log
  changes, nothing retained is lost, and the invariant of the database holds again (rows
  content-addressed, parents and witnesses retained first, ordinals counting from zero).\<close>

theorem append_extends_logs:
  assumes "Append lib env auth batch s = (Inr r, s')" "find_intent (Db s) (AppendIntentID batch) = None"
    and "db_ok (Db s)" "root_unique lib" "no_witness_owner batch"
  shows "db_ok (Db s') \<and> length (FactIDs r) = length (batch_drafts batch)
    \<and> (\<forall>ow. ow \<noteq> witnessTraceOwnerID \<longrightarrow> owner_log (Db s') ow = owner_log (Db s) ow @ batch_log batch (FactIDs r) ow)
    \<and> row_ids (Db s) \<subseteq> row_ids (Db s') \<and> set (FactIDs r) \<subseteq> row_ids (Db s')"
proof -
  from assms(1,2) obtain dig cs ws fs where "validateBatchShape batch = Inr ()"
    "prepareAppend lib (Db s) batch (append_operation_context auth OpAppend) = Inr (cs, ws, fs, r)"
    "write_append batch dig (cs, ws, fs, r) (Db s) = Inr (Db s')"
    by (rule Append_new_facts)
  from write_append_ok[OF this(2,1,3) assms(3,4,5)] show ?thesis .
qed

theorem append_extends_logs_witness:
  "\<exists>r s'. Append demo_lib demo_env TrustedAppendContext demo_batch demo_store = (Inr r, s')
    \<and> db_ok (Db s') \<and> owner_log (Db s') ''alice'' = FactIDs r \<and> length (FactIDs r) = 1"
proof -
  obtain r s' where a: "Append demo_lib demo_env TrustedAppendContext demo_batch demo_store = (Inr r, s')"
    by (rule demo_append[OF demo_lib_ok(1,2)])
  have "batch_drafts demo_batch = [(demo_group, demo_draft)]" "TraceOwnerID demo_group = ''alice''"
    "owner_log (Db demo_store) ''alice'' = []"
    by (simp_all add: batch_drafts_def demo_defs owner_log_def owner_entries_def)
  with append_extends_logs[OF a demo_fresh demo_db_ok demo_lib_ok(3) demo_owner] a show ?thesis
    by (intro exI[of _ r] exI[of _ s']) (cases "FactIDs r"; simp add: batch_log_def witnessTraceOwnerID_def)
qed

text \<open>C4: Retrying a committed append returns the same receipt (its owner ranges in key order) and
  changes nothing: no row is written and no event is published again.\<close>

theorem append_retry_idempotent:
  assumes "Append lib env auth batch s = (Inr r, s')" "find_intent (Db s) (AppendIntentID batch) = None"
    and "int64_room (Db s) (length (batch_drafts batch))" "begin_error env' = None" "commit_error env' = None"
  shows "Append lib env' auth batch s' = (Inr (r\<lparr>OwnerRanges := sorted_fields (OwnerRanges r)\<rparr>), s')"
proof -
  let ?ctx = "append_operation_context auth OpAppend"
  from assms(1,2) obtain dig cs ws fs where a: "validateBatchShape batch = Inr ()" "batchDigest lib batch ?ctx = Inr dig"
    "prepareAppend lib (Db s) batch ?ctx = Inr (cs, ws, fs, r)"
    "write_append batch dig (cs, ws, fs, r) (Db s) = Inr (Db s')" "ensureAppendAuthorized ?ctx = Inr ()"
    by (rule Append_new_facts)
  have "distinct (map fst (OwnerRanges r))" using prepared_counts[OF a(3)] by blast
  from write_append_intent[OF a(4) this] have row: "find_intent (Db s') (AppendIntentID batch)
      = Some \<lparr>IntentID = AppendIntentID batch, IntentDigest = dig, IntentReceipt = receiptToJSON r\<rparr>" by blast
  have "receiptFromJSON (receiptToJSON r) = Inr (r\<lparr>OwnerRanges := sorted_fields (OwnerRanges r)\<rparr>)"
    using prepared_receipt_ok[OF a(3,2) assms(3)] by (rule receipt_round_trip)
  then have "appendInTx lib ?ctx batch (Db s') = Inr ((r\<lparr>OwnerRanges := sorted_fields (OwnerRanges r)\<rparr>, False), Db s')"
    using a row by (simp add: appendInTx_def)
  then show ?thesis using a(5) assms(4,5) by (simp add: Append_def Let_def)
qed

theorem append_retry_idempotent_witness:
  "\<exists>r s'. Append demo_lib demo_env TrustedAppendContext demo_batch demo_store = (Inr r, s')
    \<and> Append demo_lib (demo_env\<lparr>clock := 8\<rparr>) TrustedAppendContext demo_batch s' = (Inr r, s')"
proof -
  obtain dig c wp i where a: "Append demo_lib demo_env TrustedAppendContext demo_batch demo_store
      = (Inr (demo_receipt c i), demo_store\<lparr>Db := demo_db demo_lib dig c wp i\<rparr>)"
    by (rule demo_append[OF demo_lib_ok(1,2)])
  have "(demo_receipt c i)\<lparr>OwnerRanges := sorted_fields (OwnerRanges (demo_receipt c i))\<rparr> = demo_receipt c i"
    by (simp add: demo_receipt_def sorted_fields_def)
  with append_retry_idempotent[OF a demo_fresh demo_room, of "demo_env\<lparr>clock := 8\<rparr>"] a show ?thesis
    by (auto simp: demo_env_def)
qed

text \<open>C5: An intent that is already known never writes: an append under it succeeds only with the
  recorded digest (of this release, or of the legacy encoding), returns the recorded receipt, and
  leaves the store as it was; a batch with another digest is refused.\<close>

theorem known_intent_never_writes:
  assumes "find_intent (Db s) (AppendIntentID batch) = Some row"
  shows "snd (Append lib env auth batch s) = s
    \<and> (\<forall>r. fst (Append lib env auth batch s) = Inr r \<longrightarrow> receiptFromJSON (IntentReceipt row) = Inr r
        \<and> (\<exists>dig. batchDigest lib batch (append_operation_context auth OpAppend) = Inr dig
            \<and> (IntentDigest row = dig \<or> IntentDigest row = legacyBatchDigest lib batch (append_operation_context auth OpAppend))))"
proof -
  let ?ctx = "append_operation_context auth OpAppend"
  have t: "d = Db s \<and> \<not> new \<and> receiptFromJSON (IntentReceipt row) = Inr r
      \<and> (\<exists>dig. batchDigest lib batch ?ctx = Inr dig \<and> (IntentDigest row = dig \<or> IntentDigest row = legacyBatchDigest lib batch ?ctx))"
    if "appendInTx lib ?ctx batch (Db s) = Inr ((r, new), d)" for r new d
    using that assms by (auto simp: appendInTx_def bindR_eq_Inr split: if_splits)
  show ?thesis
  proof (cases "appendInTx lib ?ctx batch (Db s)")
    case (Inl e)
    then show ?thesis by (simp add: Append_def Let_def split: sum.splits option.splits)
  next
    case (Inr x)
    obtain r new d where x: "x = ((r, new), d)" by (cases x) auto
    from t[of r new d] Inr x show ?thesis by (simp add: Append_def Let_def split: sum.splits option.splits)
  qed
qed

theorem known_intent_never_writes_witness:
  "\<exists>r s'. Append demo_lib demo_env TrustedAppendContext demo_batch demo_store = (Inr r, s')
    \<and> snd (Append demo_lib demo_env TrustedAppendContext (demo_batch\<lparr>Groups := None\<rparr>) s') = s'"
proof -
  obtain dig c wp i where a: "Append demo_lib demo_env TrustedAppendContext demo_batch demo_store
      = (Inr (demo_receipt c i), demo_store\<lparr>Db := demo_db demo_lib dig c wp i\<rparr>)"
    by (rule demo_append[OF demo_lib_ok(1,2)])
  have "\<exists>row. find_intent (Db (demo_store\<lparr>Db := demo_db demo_lib dig c wp i\<rparr>))
      (AppendIntentID (demo_batch\<lparr>Groups := None\<rparr>)) = Some row"
    by (simp add: find_intent_def demo_db_def demo_batch_def)
  with known_intent_never_writes a show ?thesis by blast
qed

text \<open>C20: The preview of a batch names exactly the record ids its append then allocates, in order.\<close>

theorem preview_names_ids:
  assumes "Append lib env auth batch s = (Inr r, s')" "find_intent (Db s) (AppendIntentID batch) = None"
  shows "PreviewRecordIDs lib auth batch s = Inr (FactIDs r)"
proof -
  let ?ctx = "append_operation_context auth OpAppend"
  from assms obtain dig cs ws fs where a: "validateBatchShape batch = Inr ()"
    "prepareAppend lib (Db s) batch ?ctx = Inr (cs, ws, fs, r)" "ensureAppendAuthorized ?ctx = Inr ()"
    by (rule Append_new_facts)
  then show ?thesis using preview_is_append by (simp add: PreviewRecordIDs_def Let_def)
qed

theorem preview_names_ids_witness:
  "\<exists>i. PreviewRecordIDs demo_lib TrustedAppendContext demo_batch demo_store = Inr [i]"
proof -
  obtain dig c wp i where a: "Append demo_lib demo_env TrustedAppendContext demo_batch demo_store
      = (Inr (demo_receipt c i), demo_store\<lparr>Db := demo_db demo_lib dig c wp i\<rparr>)"
    by (rule demo_append[OF demo_lib_ok(1,2)])
  from preview_names_ids[OF a demo_fresh] show ?thesis by (simp add: demo_receipt_def)
qed

text \<open>C19: Commit receipts are numbered without gap or repetition: a batch of \<open>n\<close> drafts takes the
  next \<open>n\<close> numbers of the store and the sequence moves past them (the text form included, which
  \<open>Sscanf\<close> reads back), and the range of each owner starts at the owner's next ordinal and has
  one ordinal a draft.\<close>

theorem commits_numbered_in_sequence:
  assumes "Append lib env auth batch s = (Inr r, s')" "find_intent (Db s) (AppendIntentID batch) = None"
    and "int64_room (Db s) (length (batch_drafts batch))"
  shows "\<exists>k. NextCommitSeq (Db s) = Some k \<and> CommitReceipts r = commits_from k (length (batch_drafts batch))
    \<and> NextCommitSeq (Db s') = Some (k + int (length (batch_drafts batch)))
    \<and> (\<forall>ow. map_of (OwnerRanges r) ow = (let n = length (filter (\<lambda>gd. TraceOwnerID (fst gd) = ow) (batch_drafts batch)) in
         if n = 0 then None else Some (nextOwnerOrdinalTx (Db s) ow, nextOwnerOrdinalTx (Db s) ow + int n - 1)))"
proof -
  let ?n = "length (batch_drafts batch)"
  from assms(1,2) obtain dig cs ws fs where a:
    "prepareAppend lib (Db s) batch (append_operation_context auth OpAppend) = Inr (cs, ws, fs, r)"
    "write_append batch dig (cs, ws, fs, r) (Db s) = Inr (Db s')"
    by (rule Append_new_facts)
  from prepared_counts[OF a(1)] obtain k where k: "NextCommitSeq (Db s) = Some k"
    "CommitReceipts r = commits_from k ?n" "distinct (map fst (OwnerRanges r))"
    and o: "\<forall>ow. map_of (OwnerRanges r) ow = (let n = length (filter (\<lambda>gd. TraceOwnerID (fst gd) = ow) (batch_drafts batch)) in
         if n = 0 then None else Some (nextOwnerOrdinalTx (Db s) ow, nextOwnerOrdinalTx (Db s) ow + int n - 1))"
    by blast
  have room: "0 \<le> k" "k + int ?n < 2 ^ 63" using assms(3) k(1) by (simp_all add: int64_room_def)
  have "NextCommitSeq (Db s') = Some (k + int ?n)"
  proof (cases "?n = 0")
    case True
    with write_append_intent[OF a(2) k(3)] k(1,2) show ?thesis by (simp add: commits_from_def)
  next
    case False
    then have "commits_from k ?n \<noteq> []" by (simp add: commits_from_def)
    with False write_append_intent[OF a(2) k(3)] k(1,2) nextCommitSeq_run[OF room] show ?thesis by simp
  qed
  with k o show ?thesis by blast
qed

theorem commits_numbered_in_sequence_witness:
  "\<exists>r s'. Append demo_lib demo_env TrustedAppendContext demo_batch demo_store = (Inr r, s')
    \<and> CommitReceipts r = commits_from 0 1 \<and> NextCommitSeq (Db s') = Some 1 \<and> map_of (OwnerRanges r) ''alice'' = Some (0, 0)"
proof -
  obtain r s' where a: "Append demo_lib demo_env TrustedAppendContext demo_batch demo_store = (Inr r, s')"
    by (rule demo_append[OF demo_lib_ok(1,2)])
  have d: "batch_drafts demo_batch = [(demo_group, demo_draft)]" "TraceOwnerID demo_group = ''alice''"
    "NextCommitSeq (Db demo_store) = Some 0" "nextOwnerOrdinalTx (Db demo_store) ow = 0" for ow
    by (simp_all add: batch_drafts_def demo_defs nextOwnerOrdinalTx_def)
  from commits_numbered_in_sequence[OF a demo_fresh demo_room] a show ?thesis
    by (intro exI[of _ r] exI[of _ s']) (simp add: d)
qed

text \<open>A committed batch reaches every subscriber of the attached bus as one event a record, in the
  order of the batch and with the ids of the receipt: a channel that held the last events of a
  history holds the last events of the history extended by the batch.\<close>

theorem committed_events_delivered:
  assumes "Append lib env auth batch s = (Inr r, s')" "find_intent (Db s) (AppendIntentID batch) = None"
    and "Bus s = Some b" "bus_ok b"
  shows "map EventRecordID (append_events batch r (clock env)) = FactIDs r
    \<and> (\<exists>b'. Bus s' = Some b' \<and> bus_ok b' \<and> Subscribers b' = Subscribers b
      \<and> (\<forall>xs. \<forall>(i, a)\<in>set (Subscribers b). Buffer (Heap b a) = go_channel.last_n (nat (BufferSize b)) xs \<longrightarrow>
           Buffer (Heap b' a) = go_channel.last_n (nat (BufferSize b)) (xs @ append_events batch r (clock env))))"
proof -
  from assms(1,2) obtain dig cs ws fs where a:
    "prepareAppend lib (Db s) batch (append_operation_context auth OpAppend) = Inr (cs, ws, fs, r)"
    "publishAppendEvents batch r (clock env) (s\<lparr>Db := Db s'\<rparr>) = Inr s'"
    by (rule Append_new_facts)
  have l: "length (FactIDs r) = length (batch_drafts batch)" using prepared_counts[OF a(1)] by blast
  have "map EventRecordID (append_events batch r (clock env)) = map snd (zip (batch_drafts batch) (FactIDs r))"
    by (simp add: append_events_def event_of_def case_prod_beta comp_def)
  then have ids: "map EventRecordID (append_events batch r (clock env)) = FactIDs r" using l by simp
  let ?es = "append_events batch r (clock env)"
  have run: "foldR (\<lambda>b e. Publish e b) b ?es = Inr b'' \<longrightarrow> Bus s' = Some b''" for b''
  proof
    assume "foldR (\<lambda>b e. Publish e b) b ?es = Inr b''"
    then have "s\<lparr>Db := Db s', Bus := Some b''\<rparr> = s'" using a(2) assms(3) by (simp add: publishAppendEvents_def)
    from arg_cong[OF this, of Bus] show "Bus s' = Some b''" by simp
  qed
  obtain b' where b': "foldR (\<lambda>b e. Publish e b) b ?es = Inr b'" "bus_ok b'" "Subscribers b' = Subscribers b"
    using publish_events_loop[OF assms(4), of ?es "[]"] by blast
  have "\<forall>(i, a)\<in>set (Subscribers b). Buffer (Heap b a) = go_channel.last_n (nat (BufferSize b)) xs \<longrightarrow>
      Buffer (Heap b' a) = go_channel.last_n (nat (BufferSize b)) (xs @ ?es)" for xs
    using publish_events_loop[OF assms(4), of ?es xs] b'(1) by auto
  then show ?thesis using ids run b' by blast
qed

theorem committed_events_delivered_witness:
  "\<exists>a b r s' b'. Subscribe ''x'' (NewEffectBus 1) = Inr (a, b)
    \<and> Append demo_lib demo_env TrustedAppendContext demo_batch (demo_store\<lparr>Bus := Some b\<rparr>) = (Inr r, s')
    \<and> Bus s' = Some b' \<and> map EventRecordID (Buffer (Heap b' a)) = FactIDs r \<and> length (FactIDs r) = 1"
proof -
  from sample_bus obtain a b where b: "Subscribe ''x'' (NewEffectBus 1) = Inr (a, b)" "bus_ok b"
    "Buffer (Heap b a) = []" "(''x'', a) \<in> set (Subscribers b)" "BufferSize b = 1" by blast
  obtain dig c wp i where i: "demo_ids demo_lib c wp i" "batchDigest demo_lib demo_batch demo_ctx = Inr dig"
    by (rule demo_append[OF demo_lib_ok(1,2)])
  let ?s = "demo_store\<lparr>Bus := Some b\<rparr>"
  obtain s' where "publishAppendEvents demo_batch (demo_receipt c i) (clock demo_env) (?s\<lparr>Db := demo_db demo_lib dig c wp i\<rparr>) = Inr s'"
    using publishAppendEvents_ok[of "?s\<lparr>Db := demo_db demo_lib dig c wp i\<rparr>" demo_batch "demo_receipt c i" "clock demo_env"]
      b(2) by auto
  then have ap: "Append demo_lib demo_env TrustedAppendContext demo_batch ?s = (Inr (demo_receipt c i), s')"
    using demo_in_tx[OF i] by (simp add: Append_def demo_valid Let_def) (simp add: demo_env_def)
  have fresh: "find_intent (Db ?s) (AppendIntentID demo_batch) = None" using demo_fresh by simp
  have "Bus ?s = Some b" by simp
  from committed_events_delivered[OF ap fresh this b(2)] obtain b' where
    ev: "map EventRecordID (append_events demo_batch (demo_receipt c i) (clock demo_env)) = FactIDs (demo_receipt c i)"
    and b': "Bus s' = Some b'" "\<forall>xs. \<forall>(j, a)\<in>set (Subscribers b). Buffer (Heap b a) = go_channel.last_n (nat (BufferSize b)) xs \<longrightarrow>
           Buffer (Heap b' a) = go_channel.last_n (nat (BufferSize b)) (xs @ append_events demo_batch (demo_receipt c i) (clock demo_env))"
    by blast
  have l: "length (append_events demo_batch (demo_receipt c i) (clock demo_env)) = 1"
    using arg_cong[OF ev, of length] by (simp add: demo_receipt_def)
  have "Buffer (Heap b' a) = go_channel.last_n (nat (BufferSize b)) ([] @ append_events demo_batch (demo_receipt c i) (clock demo_env))"
    using b'(2)[THEN spec, of "[]"] b(3,4) by (auto simp: go_channel.last_n_def)
  then have "Buffer (Heap b' a) = append_events demo_batch (demo_receipt c i) (clock demo_env)"
    using l b(5) by (simp add: go_channel.last_n_def)
  with ev b(1) b'(1) ap show ?thesis by (auto simp: demo_receipt_def)
qed

text \<open>C33: A record body that holds only what the store keeps (no floats and no byte slices) is read
  back with the same identity: the record read from its row digests to the id it is stored
  under.\<close>

theorem stored_record_redigests:
  assumes "insertRecordIfMissingTx rec intent d = Inr d'" "\<not> factExistsTx d (RecordID (Envelope rec))"
    and "RecordDigest lib (SchemaRef (Envelope rec)) (Mode (Envelope rec)) (Body rec) (elems (CausedByIDs (Envelope rec)))
      (WitnessRef (Envelope rec)) = Inr (RecordID (Envelope rec))"
    and "SchemaRef (Envelope rec) \<noteq> RootWitnessSchemaRef" "storable (of_gmap (Body rec))" "json_marshal (of_gmap (Body rec)) = Inr j"
  shows "\<exists>r. readRecordTx d' (RecordID (Envelope rec)) = Inr r
    \<and> RecordDigest lib (SchemaRef (Envelope r)) (Mode (Envelope r)) (Body r) (elems (CausedByIDs (Envelope r)))
        (WitnessRef (Envelope r)) = Inr (RecordID (Envelope rec)) \<and> RecordID (Envelope r) = RecordID (Envelope rec)"
proof -
  let ?i = "RecordID (Envelope rec)" and ?row = "record_row_of rec intent"
  have fresh: "?i \<notin> RowID ` set (Records d)" using assms(2) by (simp only: factExistsTx_iff simp_thms)
  have d': "Records d' = Records d @ [?row]"
    using assms(1) by (rule insertRecordIfMissingTx_Inr) (use fresh in simp_all)
  have row: "find_record d' ?i = Some ?row"
    using fresh recs.look_None[of d ?i] by (simp add: find_record_def d' find_append record_row_of_def)
  obtain b where b: "bodyFromJSON (Some j) = Inr b" "of_gmap b = (if j = JNull then VNilMap else json_decode j)"
    using bodyFromJSON_marshal[OF assms(6)] by blast
  have causes: "jsonToStrings (stringToJSON (CausedByIDs (Envelope rec))) = CausedByIDs (Envelope rec)"
    using RecordDigest_causes[OF assms(3)] by (cases "CausedByIDs (Envelope rec)") simp_all
  have tree: "canonical_tree lib (VMap (elems b)) = canonical_tree lib (VMap (elems (Body rec)))"
  proof (cases "Body rec")
    case None
    then have "j = JNull" using assms(6) by (simp add: of_gmap_def)
    with b(1) None show ?thesis by (simp add: bodyFromJSON_def)
  next
    case (Some kvs)
    then obtain js where j: "j = JObj js" using assms(6) by (auto simp: of_gmap_def bindR_eq_Inr)
    then have "of_gmap b = json_decode j" using b(2) by simp
    then have "VMap (elems b) = json_decode j" using j by (cases b) (simp_all add: of_gmap_def)
    moreover have "VMap (elems (Body rec)) = of_gmap (Body rec)" using Some by (simp add: of_gmap_def)
    ultimately show ?thesis using storable_round_trip(1)[OF assms(5,6)] by simp
  qed
  have "RecordDigest lib (SchemaRef (Envelope rec)) (Mode (Envelope rec)) b (elems (CausedByIDs (Envelope rec)))
      (WitnessRef (Envelope rec)) = Inr ?i"
    using RecordDigest_tree[OF tree _ assms(3)] assms(4) by blast
  moreover have "bodyToJSON (Body rec) = Some j" using assms(6) by (simp add: bodyToJSON_def)
  ultimately show ?thesis
    using row b(1) causes by (simp add: readRecordTx_def scanRecord_def) (simp add: record_row_of_def causes)
qed

theorem stored_record_redigests_witness:
  "\<exists>rec d' r. insertRecordIfMissingTx rec ''i'' (empty_db\<lparr>AppendIntents := [\<lparr>IntentID = ''i'', IntentDigest = [], IntentReceipt = JNull\<rparr>]\<rparr>) = Inr d'
    \<and> Body rec = Some [(''done'', VBool True)] \<and> readRecordTx d' (RecordID (Envelope rec)) = Inr r
    \<and> RecordID (Envelope r) = RecordID (Envelope rec)"
proof -
  obtain c wp i where i: "demo_ids demo_lib c wp i" by (rule demo_append[OF demo_lib_ok(1,2)])
  let ?d = "empty_db\<lparr>AppendIntents := [\<lparr>IntentID = ''i'', IntentDigest = [], IntentReceipt = JNull\<rparr>]\<rparr>"
  let ?rec = "demo_record c wp i"
  have f: "RecordID (Envelope ?rec) = i" "SchemaRef (Envelope ?rec) = ''note.v1''" "Mode (Envelope ?rec) = ''capture''"
    "Body ?rec = Some [(''done'', VBool True)]" "CausedByIDs (Envelope ?rec) = None" "WitnessRef (Envelope ?rec) = planID wp"
    "Digest (Envelope ?rec) = i"
    by (simp_all add: demo_record_def draft_record_def demo_draft_def)
  have "insertRecordIfMissingTx ?rec ''i'' ?d = Inr (?d\<lparr>Records := [record_row_of ?rec ''i'']\<rparr>)"
    by (simp add: insertRecordIfMissingTx_def factExistsTx_def find_record_def empty_db_def f insert_record_def insert_edges_def
        record_row_of_def)
  note ins = this
  have v: "valid_string ''done''" using demo_valid_strings by simp
  have "RecordDigest demo_lib (SchemaRef (Envelope ?rec)) (Mode (Envelope ?rec)) (Body ?rec)
      (elems (CausedByIDs (Envelope ?rec))) (WitnessRef (Envelope ?rec)) = Inr (RecordID (Envelope ?rec))"
    using i by (simp add: f demo_ids_def)
  moreover have "\<not> factExistsTx ?d (RecordID (Envelope ?rec))" by (simp add: factExistsTx_def find_record_def empty_db_def)
  moreover have "SchemaRef (Envelope ?rec) \<noteq> RootWitnessSchemaRef" by (simp add: f RootWitnessSchemaRef_def)
  moreover have "storable (of_gmap (Body ?rec))" using v by (simp add: f of_gmap_def)
  moreover have "json_marshal (of_gmap (Body ?rec)) = Inr (JObj [(''done'', JBool True)])"
    by (simp add: f of_gmap_def sorted_fields_def)
  ultimately show ?thesis using stored_record_redigests[OF ins] ins f(4) by blast
qed

text \<open>A nil payload and an empty one have the same record id but not the same content: the
  digest copies the body into a fresh map, the comparison encodes \<open>null\<close> for one and \<open>{}\<close> for the
  other.  An append of one after the other is refused as different content under a used id.\<close>

theorem nil_and_empty_body_clash:
  "RecordDigest lib s m None c w = RecordDigest lib s m (Some []) c w
    \<and> \<not> recordContentMatches (r\<lparr>Body := None\<rparr>) (r\<lparr>Body := Some []\<rparr>)"
proof
  have "mapEqual None RootWitnessBody \<longleftrightarrow> mapEqual (Some []) RootWitnessBody"
    by (simp add: mapEqual_def RootWitnessBody_def)
  then show "RecordDigest lib s m None c w = RecordDigest lib s m (Some []) c w"
    by (simp add: RecordDigest_def CanonicalRecordInput_def record_input_def ValidateRootWitnessRecord_def)
  have "\<exists>t. content_text (r\<lparr>Body := b\<rparr>) = ''{'' @ go_render ''body'' @ '':'' @ print_json go_render j @ t"
    if "json_marshal (of_gmap b) = Inr j" for b j
  proof -
    have m: "\<exists>js. marshal_items (map VString xs) = Inr js" for xs by (induction xs) auto
    obtain js where "json_marshal (of_strings (CausedByIDs (Envelope r))) = Inr js"
      using m[of "elems (CausedByIDs (Envelope r))"] by (cases "CausedByIDs (Envelope r)") (auto simp: of_strings_def)
    moreover have "sorted_fields [(''schema_ref'', a), (''mode'', b), (''witness_ref'', c), (''caused_by'', d), (''body'', e)]
        = [(''body'', e), (''caused_by'', d), (''mode'', b), (''schema_ref'', a), (''witness_ref'', c)]" for a b c d e :: gval
      by (simp add: sorted_fields_def)
    ultimately show ?thesis using that
      by (simp add: content_text_def content_value_def json_text_def comma_def)
  qed
  from this[of None JNull] this[of "Some []" "JObj []"] obtain t t' where
    "content_text (r\<lparr>Body := None\<rparr>) = ''{'' @ go_render ''body'' @ '':'' @ ''null'' @ t"
    "content_text (r\<lparr>Body := Some []\<rparr>) = ''{'' @ go_render ''body'' @ '':'' @ ''{}'' @ t'"
    by (auto simp: of_gmap_def sorted_fields_def)
  then show "\<not> recordContentMatches (r\<lparr>Body := None\<rparr>) (r\<lparr>Body := Some []\<rparr>)"
    by (simp add: recordContentMatches_def)
qed

text \<open>The digest of an intent identifies its document: two batches with the same digest have the
  same canonical document (intent, actor, schema set, owners, contexts, parents and drafts), unless
  the hash collides on the two texts.\<close>

theorem batch_digest_identifies:
  assumes "batch_document batch ctx = Inr p" "batch_document batch' ctx' = Inr p'"
    and "batchDigest lib batch ctx = Inr dig" "batchDigest lib batch' ctx' = Inr dig"
    and "lib_ok lib" "gval_ok p" "gval_ok p'" "inj (sha256 lib)"
  shows "\<exists>j. canonical_tree lib p = Inr j \<and> canonical_tree lib p' = Inr j"
proof -
  obtain t t' where "canonical_json_ascii_bytes lib p = Inr t" "canonical_json_ascii_bytes lib p' = Inr t'"
    "hex (sha256 lib t) = hex (sha256 lib t')"
    using assms(1-4) by (auto simp: batchDigest_def bindR_eq_Inr)
  moreover from this have "t = t'" using assms(8) by (simp add: inj_eq)
  ultimately show ?thesis
    using write_value_inject[OF assms(5,6,7)] by (simp add: canonical_json_ascii_bytes_def)
qed

theorem batch_digest_identifies_witness:
  "\<exists>p j. batch_document demo_batch demo_ctx = Inr p \<and> canonical_tree demo_lib p = Inr j"
proof -
  obtain dig where d: "batchDigest demo_lib demo_batch demo_ctx = Inr dig" by (rule demo_append[OF demo_lib_ok(1,2)])
  obtain p where p: "batch_document demo_batch demo_ctx = Inr p" "plain p" using demo_document by blast
  from batch_digest_identifies[OF p(1) p(1) d d demo_lib_ok(1) plain_ok[OF p(2)] plain_ok[OF p(2)] demo_lib_ok(2)] p(1)
  show ?thesis by blast
qed

end
