(* ===== verification/Read_Properties.thy ===== *)
theory Read_Properties
  imports Append_Properties Read_Laws
begin

text \<open>The properties of the reads, each at the store of the append scenario.\<close>

section \<open>The scenario, read\<close>

lemma demo_witnessed:
  assumes "demo_ids demo_lib c wp i"
  shows "db_ok (demo_db demo_lib dig c wp i)" "witnessed (demo_db demo_lib dig c wp i)"
proof -
  have "witnessed (Db demo_store)" by (simp add: witnessed_def demo_store_def empty_db_def)
  from write_append_witnessed[OF demo_prepare[OF assms] demo_write[OF assms] this demo_lib_ok(3)]
  show "witnessed (demo_db demo_lib dig c wp i)" .
  from write_append_ok[OF demo_prepare[OF assms] demo_valid(2) demo_write[OF assms] demo_db_ok demo_lib_ok(3) demo_owner]
  show "db_ok (demo_db demo_lib dig c wp i)" by blast
qed

definition demo_after :: "string \<Rightarrow> string \<Rightarrow> witnessPlan \<Rightarrow> string \<Rightarrow> store" where
  "demo_after dig c wp i = demo_store\<lparr>Db := demo_db demo_lib dig c wp i\<rparr>"

lemma demo_after_ok:
  assumes "demo_ids demo_lib c wp i"
  shows "db_ok (Db (demo_after dig c wp i))" "witnessed (Db (demo_after dig c wp i))"
    "owner_log (Db (demo_after dig c wp i)) ''alice'' = [i]" "i \<in> row_ids (Db (demo_after dig c wp i))"
  using demo_witnessed[OF assms]
  by (simp_all add: demo_after_def owner_log_def owner_entries_def)
    (simp_all add: demo_db_def demo_entry_def witnessTraceOwnerID_def record_row_of_def demo_record_def draft_record_def)

lemma demo_reader: "ensureReadAuthorized (read_operation_context TrustedReadContext) = Inr ()"
  "VisibilityProfile (read_operation_context TrustedReadContext) = VisibilityPayload"
  by (simp_all add: ensureReadAuthorized_def read_operation_context_def TrustedReadContext_def
      VisibilityShapeOnly_def VisibilityPayload_def VisibilityFullInternal_def)

lemma mode_both: "ensureModeFilter ModeBoth = Inr ()" "modeMatches r ModeBoth"
  by (simp_all add: ensureModeFilter_def modeMatches_def)

lemma prefix_total:
  assumes "db_ok (Db s)" "witnessed (Db s)" "ow \<noteq> []"
    and "ensureReadAuthorized (read_operation_context auth) = Inr ()" "ensureModeFilter f = Inr ()"
  shows "\<exists>sl. ReadOwnerPrefix None auth ow t f s = Inr sl
    \<and> slice_fact_ids sl = map PathRecord (filter (\<lambda>p. modeMatches (entry_fact (Db s) p) f)
        (take (nat (t + 1)) (owner_entries (Db s) ow)))
    \<and> (f = ModeBoth \<longrightarrow> slice_fact_ids sl = take (nat (t + 1)) (owner_log (Db s) ow))"
proof -
  let ?d = "Db s" and ?vis = "VisibilityProfile (read_operation_context auth)"
  let ?ps = "take (nat (t + 1)) (owner_entries ?d ow)"
  have ps: "prefix_rows ?d ow t = ?ps" by (rule prefix_rows_owner[OF assms(1,3)])
  have sub: "set ?ps \<subseteq> set (PathEntries ?d)" using set_take_subset by (fastforce simp: owner_entries_def)
  obtain support where b: "buildSlice ?d (map entry_of_row ?ps) None ?vis f True
      = Inr (slice_of ?d None ?vis f True (entry_facts ?d f ?ps) support)"
    using buildSlice_total[OF assms(1,2) sub] by blast
  let ?sl = "slice_of ?d None ?vis f True (entry_facts ?d f ?ps) support"
  have one: "\<forall>(pe, r)\<in>set (entry_facts ?d f ?ps). peRef pe = ow"
    using set_take_subset[of "nat (t + 1)" "owner_entries ?d ow"]
    by (auto simp: entry_facts_def owner_entries_def entry_of_row_def)
  have ids: "slice_fact_ids ?sl = map PathRecord (filter (\<lambda>p. modeMatches (entry_fact ?d p) f) ?ps)"
    unfolding slice_of_ids slice_ids_one_path[OF one] by (simp add: entry_facts_def comp_def entry_of_row_def)
  moreover have "f = ModeBoth \<longrightarrow> slice_fact_ids ?sl = take (nat (t + 1)) (owner_log ?d ow)"
    unfolding ids by (simp add: mode_both owner_log_def take_map)
  moreover have "ReadOwnerPrefix None auth ow t f s = Inr ?sl"
    using b by (simp add: ReadOwnerPrefix_def assms(4,5) ps)
  ultimately show ?thesis by blast
qed

section \<open>Properties\<close>

text \<open>C9: Reading an owner's path up to an ordinal never fails on a store that keeps its invariant, and
  returns the prefix of the owner's log: the ids of the entries up to that ordinal, in order,
  those of the wanted mode.\<close>

theorem owner_prefix_reads_log:
  assumes "db_ok (Db s)" "witnessed (Db s)" "ow \<noteq> []"
    and "ensureReadAuthorized (read_operation_context auth) = Inr ()" "ensureModeFilter f = Inr ()"
  shows "\<exists>sl. ReadOwnerPrefix None auth ow t f s = Inr sl
    \<and> slice_fact_ids sl = map PathRecord (filter (\<lambda>p. modeMatches (entry_fact (Db s) p) f)
        (take (nat (t + 1)) (owner_entries (Db s) ow)))
    \<and> (f = ModeBoth \<longrightarrow> slice_fact_ids sl = take (nat (t + 1)) (owner_log (Db s) ow))"
  by (rule prefix_total[OF assms])

theorem owner_prefix_reads_log_witness:
  "\<exists>s sl i. ReadOwnerPrefix None TrustedReadContext ''alice'' 0 ModeBoth s = Inr sl \<and> slice_fact_ids sl = [i]"
proof -
  obtain c wp i where i: "demo_ids demo_lib c wp i" by (rule demo_append[OF demo_lib_ok(1,2)])
  note ok = demo_after_ok[OF i, of "[]"]
  have "''alice'' \<noteq> []" by simp
  from owner_prefix_reads_log[OF ok(1,2) this demo_reader(1) mode_both(1), of 0] show ?thesis
    by (simp add: ok(3)) blast
qed

text \<open>C10: The causal closure of retained records never fails on a store that keeps its invariant, and it
  is exactly their ancestors: every record the roots depend on is in the slice and no other,
  with every causal edge among them and nothing left to anchor outside.\<close>

theorem causal_closure_is_ancestors:
  assumes "db_ok (Db s)" "witnessed (Db s)" "set roots \<subseteq> row_ids (Db s)"
    and "ensureReadAuthorized (read_operation_context auth) = Inr ()" "ensureClosurePolicy policy = Inr ()"
  shows "\<exists>sl. ReadCausalClosure None auth roots ModeBoth policy s = Inr sl
    \<and> set (slice_fact_ids sl) = ancestors (Db s) (set roots)
    \<and> fst ` set (FactsByID sl) = ancestors (Db s) (set roots)
    \<and> set (SliceCausalEdges sl) = {(p, c). (p, c) \<in> causes (Db s) \<and> c \<in> ancestors (Db s) (set roots)}
    \<and> ExternalAnchors sl = []"
proof -
  let ?d = "Db s" and ?vis = "VisibilityProfile (read_operation_context auth)"
  let ?A = "ancestors ?d (set roots)" and ?inc = "policy = ''include_external_anchors''"
  have A: "?A \<subseteq> row_ids ?d" using ancestors_retained[OF assms(1,3)] by simp
  note rows = closure_rows_ok[OF assms(1) A]
  obtain support where b: "buildSlice ?d (map entry_of_row (closure_rows ?d ?A)) None ?vis ModeBoth ?inc
      = Inr (slice_of ?d None ?vis ModeBoth ?inc (entry_facts ?d ModeBoth (closure_rows ?d ?A)) support)"
    using buildSlice_total[OF assms(1,2) rows(1)] by blast
  let ?l = "entry_facts ?d ModeBoth (closure_rows ?d ?A)"
  let ?sl = "slice_of ?d None ?vis ModeBoth ?inc ?l support"
  have l: "loaded_ids ?l = ?A"
    unfolding loaded_ids_def entry_facts_def using rows(2)
    by (simp add: mode_both entry_of_row_def image_image)
  note edges = entry_facts_edges[OF assms(1) rows(1) refl, of ?vis ?inc ModeBoth, unfolded l]
    and ext = entry_facts_external[OF assms(1) rows(1) refl, of ?vis ?inc ModeBoth, unfolded l]
  have "set (SliceCausalEdges ?sl) = {(p, c). (p, c) \<in> causes ?d \<and> c \<in> ?A}"
    using ancestors_closed by (auto simp: edges)
  moreover have "ExternalAnchors ?sl = []"
  proof -
    have "AnchorRef ` set (ExternalAnchors ?sl) = {}" using ancestors_closed by (auto simp: ext)
    then show ?thesis by (simp only: image_is_empty set_empty)
  qed
  moreover have "fst ` set (FactsByID ?sl) = ?A"
    using loaded_parts_ok[of ?d ?vis ?inc ?l] l by (simp add: parts_ok_def loaded_ids_def)
  moreover have "set (slice_fact_ids ?sl) = ?A" by (simp only: slice_of_id_set l)
  moreover have "ReadCausalClosure None auth roots ModeBoth policy s = Inr ?sl"
    using b closure_loop_ancestors[OF assms(1,3)]
    by (simp add: ReadCausalClosure_def assms(4,5) mode_both canonicalFactOrder_rows)
  ultimately show ?thesis by blast
qed

theorem causal_closure_is_ancestors_witness:
  "\<exists>s sl i. ReadCausalClosure None TrustedReadContext [i] ModeBoth ''visible_only'' s = Inr sl \<and> i \<in> set (slice_fact_ids sl)"
proof -
  obtain c wp i where i: "demo_ids demo_lib c wp i" by (rule demo_append[OF demo_lib_ok(1,2)])
  note ok = demo_after_ok[OF i, of "[]"]
  have "set [i] \<subseteq> row_ids (Db (demo_after [] c wp i))" using ok(4) by simp
  moreover have "ensureClosurePolicy ''visible_only'' = Inr ()" by (simp add: ensureClosurePolicy_def)
  moreover have "i \<in> ancestors d (set [i])" for d by (simp add: ancestors_def)
  ultimately show ?thesis using causal_closure_is_ancestors[OF ok(1,2) _ demo_reader(1)] by blast
qed

text \<open>A prefix slice accounts for every parent of its records: a parent inside the slice is joined by
  a causal edge, a parent outside appears as an external anchor, and there are no other edges
  or anchors.\<close>

theorem prefix_slice_accounts_for_parents:
  assumes "db_ok (Db s)" "witnessed (Db s)" "ow \<noteq> []" "ReadOwnerPrefix None auth ow t f s = Inr sl"
  shows "set (SliceCausalEdges sl) = {(p, c). (p, c) \<in> causes (Db s) \<and> p \<in> set (slice_fact_ids sl) \<and> c \<in> set (slice_fact_ids sl)}
    \<and> AnchorRef ` set (ExternalAnchors sl) = {p. p \<notin> set (slice_fact_ids sl) \<and> (\<exists>c\<in>set (slice_fact_ids sl). (p, c) \<in> causes (Db s))}"
proof -
  let ?d = "Db s" and ?vis = "VisibilityProfile (read_operation_context auth)"
  let ?ps = "prefix_rows ?d ow t" and ?l = "entry_facts ?d f (prefix_rows ?d ow t)"
  have sub: "set ?ps \<subseteq> set (PathEntries ?d)" by (auto simp: prefix_rows_def)
  obtain support where b: "buildSlice ?d (map entry_of_row ?ps) None ?vis f True = Inr (slice_of ?d None ?vis f True ?l support)"
    using buildSlice_total[OF assms(1,2) sub] by blast
  have sl: "sl = slice_of ?d None ?vis f True ?l support" using assms(4) b by (simp add: ReadOwnerPrefix_def bindR_eq_Inr)
  show ?thesis
    unfolding sl slice_of_id_set slice_of_fields entry_facts_edges[OF assms(1) sub refl] entry_facts_external[OF assms(1) sub refl]
    by simp
qed

theorem prefix_slice_accounts_for_parents_witness:
  "\<exists>s sl. ReadOwnerPrefix None TrustedReadContext ''alice'' 0 ModeBoth s = Inr sl
    \<and> AnchorRef ` set (ExternalAnchors sl) = {p. p \<notin> set (slice_fact_ids sl) \<and> (\<exists>c\<in>set (slice_fact_ids sl). (p, c) \<in> causes (Db s))}"
proof -
  obtain c wp i where i: "demo_ids demo_lib c wp i" by (rule demo_append[OF demo_lib_ok(1,2)])
  note ok = demo_after_ok[OF i, of "[]"]
  let ?s = "demo_after [] c wp i" and ?ps = "prefix_rows (Db (demo_after [] c wp i)) ''alice'' 0"
  have sub: "set ?ps \<subseteq> set (PathEntries (Db ?s))" by (auto simp: prefix_rows_def)
  obtain sl where r: "ReadOwnerPrefix None TrustedReadContext ''alice'' 0 ModeBoth ?s = Inr sl"
    using buildSlice_total[OF ok(1,2) sub, of ModeBoth None VisibilityPayload True]
    by (auto simp: ReadOwnerPrefix_def demo_reader mode_both)
  have "''alice'' \<noteq> []" by simp
  from prefix_slice_accounts_for_parents[OF ok(1,2) this r] r show ?thesis by blast
qed

text \<open>C22: A slice read with the \<open>shape_only\<close> profile exposes no payload: every fact in it is a shape, and
  it holds no retained context and no witness record, only their anchors.\<close>

theorem shape_only_hides_payloads:
  assumes "ReadOwnerPrefix query auth ow t f s = Inr sl" "ReadVisibility auth = VisibilityShapeOnly"
  shows "(\<forall>(i, v)\<in>set (FactsByID sl). \<exists>sh. v = Shape sh) \<and> ContextsByID sl = [] \<and> WitnessesByID sl = []"
proof -
  have v: "VisibilityProfile (read_operation_context auth) = VisibilityShapeOnly"
    using assms(2) by (simp add: read_operation_context_def)
  obtain entries where "buildSlice (Db s) entries None VisibilityShapeOnly f True = Inr sl"
    using assms(1) by (auto simp: ReadOwnerPrefix_def bindR_eq_Inr v split: option.splits)
  then obtain loaded support where sl: "sl = slice_of (Db s) None VisibilityShapeOnly f True loaded support"
    by (auto simp: buildSlice_eq bindR_eq_Inr)
  note parts = loaded_parts_ok[of "Db s" VisibilityShapeOnly True loaded, unfolded parts_ok_def]
  have "\<exists>sh. visibleFact r VisibilityShapeOnly = Shape sh" for r
    by (simp add: visibleFact_def VisibilityShapeOnly_def VisibilityPayload_def VisibilityFullInternal_def)
  then have "\<exists>sh. v = Shape sh" if "(i, v) \<in> set (FactsByID sl)" for i v
    using parts that unfolding sl by force
  moreover have "fst (fold (add_witness VisibilityShapeOnly) support wa) = fst wa" for wa
    by (induction support arbitrary: wa) (simp_all add: add_witness_def case_prod_beta)
  ultimately show ?thesis using parts by (auto simp: sl)
qed

definition shape_reader :: ReadContext where
  "shape_reader = \<lparr>ReadActorRef = ''viewer'', ReadWitnessRefs = None, ReadVisibility = VisibilityShapeOnly\<rparr>"

theorem shape_only_hides_payloads_witness:
  "\<exists>s sl i. ReadOwnerPrefix None shape_reader ''alice'' 0 ModeBoth s = Inr sl \<and> slice_fact_ids sl = [i] \<and> WitnessesByID sl = []"
proof -
  obtain c wp i where i: "demo_ids demo_lib c wp i" by (rule demo_append[OF demo_lib_ok(1,2)])
  note ok = demo_after_ok[OF i, of "[]"]
  have "''alice'' \<noteq> []" and a: "ensureReadAuthorized (read_operation_context shape_reader) = Inr ()"
    by (simp_all add: shape_reader_def ensureReadAuthorized_def read_operation_context_def
        VisibilityShapeOnly_def VisibilityFullInternal_def)
  from prefix_total[OF ok(1,2) this(1) a mode_both(1), of 0] obtain sl where
    r: "ReadOwnerPrefix None shape_reader ''alice'' 0 ModeBoth (demo_after [] c wp i) = Inr sl"
    "slice_fact_ids sl = [i]" by (auto simp: ok(3))
  have "ReadVisibility shape_reader = VisibilityShapeOnly" by (simp add: shape_reader_def)
  from shape_only_hides_payloads[OF r(1) this] r show ?thesis by blast
qed

text \<open>The witnesses a slice carries in full, by id.\<close>

definition slice_witnesses :: "Slice \<Rightarrow> string \<Rightarrow> Record option" where
  "slice_witnesses sl i = (case map_of (WitnessesByID sl) i of Some (Full w) \<Rightarrow> Some w | _ \<Rightarrow> None)"

lemma witness_fold:
  assumes "vis \<noteq> VisibilityShapeOnly" "distinct (map (\<lambda>w. RecordID (Envelope w)) ws)"
  shows "map_of (fst (fold (add_witness vis) ws ([], anchors))) = map_of (map (\<lambda>w. (RecordID (Envelope w), Full w)) ws)"
proof -
  have full: "visibleFact w vis = Full w" for w using assms(1) by (simp add: visibleFact_def)
  have "map_of (fst (fold (add_witness vis) ws (al, an))) = map_of (rev (map (\<lambda>w. (RecordID (Envelope w), Full w)) ws) @ al)" for al an
  proof (induction ws arbitrary: al an)
    case (Cons w ws)
    have "map_of (AList.update (RecordID (Envelope w)) (Full w) al) = map_of ((RecordID (Envelope w), Full w) # al)"
      by (simp add: update_conv')
    then show ?case using Cons.IH[of "AList.update (RecordID (Envelope w)) (Full w) al" an] assms(1)
      by (simp add: add_witness_def full)
  qed simp
  from this[of "[]" anchors] have "map_of (fst (fold (add_witness vis) ws ([], anchors)))
      = map_of (rev (map (\<lambda>w. (RecordID (Envelope w), Full w)) ws))" by simp
  also have "\<dots> = map_of (map (\<lambda>w. (RecordID (Envelope w), Full w)) ws)"
    using assms(2) by (subst map_of_inject_set) (simp_all add: comp_def rev_map[symmetric])
  finally show ?thesis .
qed

text \<open>C21: A slice read with payloads is closed under witnesses: from the witness of every record in it,
  the witness records the slice carries lead to the root witness; only a root witness has none.\<close>

theorem slices_closed_under_witnesses:
  assumes "ReadOwnerPrefix query auth ow t f s = Inr sl" "ReadVisibility auth \<noteq> VisibilityShapeOnly"
  shows "\<forall>(i, v)\<in>set (FactsByID sl). if WitnessRef (GetEnvelope v) = [] then SchemaRef (GetEnvelope v) = RootWitnessSchemaRef
    else to_root (slice_witnesses sl) (WitnessRef (GetEnvelope v))"
proof -
  let ?vis = "VisibilityProfile (read_operation_context auth)"
  have v: "?vis \<noteq> VisibilityShapeOnly" using assms(2) by (simp add: read_operation_context_def)
  obtain entries where "buildSlice (Db s) entries None ?vis f True = Inr sl"
    using assms(1) by (auto simp: ReadOwnerPrefix_def bindR_eq_Inr split: option.splits)
  then obtain loaded support where sl: "sl = slice_of (Db s) None ?vis f True loaded support"
    and w: "witnessSupportClosure (Db s) (map snd loaded) = Inr support"
    by (auto simp: buildSlice_eq bindR_eq_Inr)
  note c = witnessSupportClosure_closed[OF w]
  have root: "SchemaRef (Envelope r) = RootWitnessSchemaRef" if "r \<in> set (map snd loaded)" "WitnessRef (Envelope r) = []" for r
    using c that by blast
  have chain: "to_root (map_of (map (\<lambda>w. (RecordID (Envelope w), w)) support)) (WitnessRef (Envelope r))"
    if "r \<in> set (map snd loaded)" "WitnessRef (Envelope r) \<noteq> []" for r using c that by blast
  have m: "slice_witnesses sl = map_of (map (\<lambda>w. (RecordID (Envelope w), w)) support)"
  proof
    fix i
    have "map_of (map (\<lambda>w. (RecordID (Envelope w), Full w)) support) i
        = map_option Full (map_of (map (\<lambda>w. (RecordID (Envelope w), w)) support) i)"
      by (induction support) auto
    moreover have "map_of (WitnessesByID sl) = map_of (map (\<lambda>w. (RecordID (Envelope w), Full w)) support)"
      unfolding sl slice_of_fields using c by (intro witness_fold[OF v]) blast
    ultimately show "slice_witnesses sl i = map_of (map (\<lambda>w. (RecordID (Envelope w), w)) support) i"
      by (simp add: slice_witnesses_def split: option.splits)
  qed
  show ?thesis
  proof (intro ballI, clarify)
    fix i x assume "(i, x) \<in> set (FactsByID sl)"
    then have "x \<in> snd ` set (FactsByID sl)" by force
    moreover have "snd ` set (FactsByID sl) \<subseteq> (\<lambda>(pe, r). visibleFact r ?vis) ` set loaded"
      using loaded_parts_ok[of "Db s" ?vis True loaded] unfolding sl parts_ok_def slice_of_fields by (elim conjE)
    ultimately obtain pe r where r: "(pe, r) \<in> set loaded" "x = visibleFact r ?vis" by auto
    have "GetEnvelope x = Envelope r" using r(2) v by (simp add: visibleFact_def)
    moreover have "r \<in> set (map snd loaded)" using r(1) by force
    ultimately show "if WitnessRef (GetEnvelope x) = [] then SchemaRef (GetEnvelope x) = RootWitnessSchemaRef
        else to_root (slice_witnesses sl) (WitnessRef (GetEnvelope x))"
      using root chain m by simp
  qed
qed

theorem slices_closed_under_witnesses_witness:
  "\<exists>s sl i v. ReadOwnerPrefix None TrustedReadContext ''alice'' 0 ModeBoth s = Inr sl \<and> (i, v) \<in> set (FactsByID sl)
    \<and> (if WitnessRef (GetEnvelope v) = [] then SchemaRef (GetEnvelope v) = RootWitnessSchemaRef
       else to_root (slice_witnesses sl) (WitnessRef (GetEnvelope v)))"
proof -
  obtain c wp i where i: "demo_ids demo_lib c wp i" by (rule demo_append[OF demo_lib_ok(1,2)])
  note ok = demo_after_ok[OF i, of "[]"]
  let ?s = "demo_after [] c wp i" and ?ps = "prefix_rows (Db (demo_after [] c wp i)) ''alice'' 0"
  have sub: "set ?ps \<subseteq> set (PathEntries (Db ?s))" by (auto simp: prefix_rows_def)
  have a: "''alice'' \<noteq> []" by simp
  have "owner_entries (Db ?s) ''alice'' \<noteq> []" using ok(3) by (auto simp: owner_log_def)
  then have ps: "?ps \<noteq> []" using prefix_rows_owner[OF ok(1) a, of 0] by simp
  obtain support where r: "ReadOwnerPrefix None TrustedReadContext ''alice'' 0 ModeBoth ?s
      = Inr (slice_of (Db ?s) None VisibilityPayload ModeBoth True (entry_facts (Db ?s) ModeBoth ?ps) support)"
    using buildSlice_total[OF ok(1,2) sub, of ModeBoth None VisibilityPayload True]
    by (auto simp: ReadOwnerPrefix_def demo_reader mode_both)
  let ?sl = "slice_of (Db ?s) None VisibilityPayload ModeBoth True (entry_facts (Db ?s) ModeBoth ?ps) support"
  have "entry_facts (Db ?s) ModeBoth ?ps \<noteq> []" using ps by (simp add: entry_facts_def mode_both)
  then have "fst ` set (FactsByID ?sl) \<noteq> {}"
    using loaded_parts_ok[of "Db ?s" VisibilityPayload True "entry_facts (Db ?s) ModeBoth ?ps"]
    by (simp add: parts_ok_def)
  then obtain x where x: "x \<in> set (FactsByID ?sl)" by (simp only: image_is_empty) (meson ex_in_conv)
  obtain j v where "x = (j, v)" by (cases x)
  with x have jv: "(j, v) \<in> set (FactsByID ?sl)" by (simp only:)
  have "ReadVisibility TrustedReadContext \<noteq> VisibilityShapeOnly"
    by (simp add: TrustedReadContext_def VisibilityShapeOnly_def VisibilityPayload_def)
  from slices_closed_under_witnesses[OF r this] jv r show ?thesis by blast
qed

text \<open>A query error during the ordering of a causal closure is swallowed: the read of retained roots
  then succeeds with an empty slice, as if the roots had no facts.\<close>

theorem closure_query_error_reads_empty:
  assumes "db_ok (Db s)" "set roots \<subseteq> row_ids (Db s)"
    and "ensureReadAuthorized (read_operation_context auth) = Inr ()" "ensureModeFilter f = Inr ()" "ensureClosurePolicy policy = Inr ()"
  shows "\<exists>sl. ReadCausalClosure (Some e) auth roots f policy s = Inr sl \<and> slice_fact_ids sl = [] \<and> FactsByID sl = []"
proof -
  have "canonicalFactOrder (Some e) (Db s) ids = []" for ids by (simp add: canonicalFactOrder_def)
  then show ?thesis
    using closure_loop_ancestors[OF assms(1,2)]
    by (simp add: ReadCausalClosure_def assms(3-5) buildSlice_def load_facts_def witnessSupportClosure_def
        support_records_def newWitnessSupport_def List.map_filter_simps no_parts_def slice_fact_ids_def)
qed

theorem closure_query_error_reads_empty_witness:
  "\<exists>s sl i. i \<in> row_ids (Db s) \<and> ReadCausalClosure (Some (Driver ''too many SQL variables'')) TrustedReadContext [i] ModeBoth ''visible_only'' s
      = Inr sl \<and> slice_fact_ids sl = []"
proof -
  obtain c wp i where i: "demo_ids demo_lib c wp i" by (rule demo_append[OF demo_lib_ok(1,2)])
  note ok = demo_after_ok[OF i, of "[]"]
  have "set [i] \<subseteq> row_ids (Db (demo_after [] c wp i))" using ok(4) by simp
  moreover have "ensureClosurePolicy ''visible_only'' = Inr ()" by (simp add: ensureClosurePolicy_def)
  ultimately show ?thesis
    using closure_query_error_reads_empty[OF ok(1) _ demo_reader(1) mode_both(1)] ok(4) by blast
qed

end
