(* ===== verification/Frontier_Properties.thy ===== *)
theory Frontier_Properties
  imports Append_Rows Read_Properties
begin

text \<open>The properties of frontiers: what publishing writes, that it resolves, and that it keeps
  resolving to the same facts whatever is written later.\<close>

section \<open>What publishing writes\<close>

lemma write_append_frontiers:
  assumes "write_append batch dig (cs, ws, fs, r) d = Inr d'" "distinct (map fst (OwnerRanges r))"
  shows "Frontiers d' = Frontiers d"
  using assms(1)
proof (cases rule: write_append_Inr)
  case (1 d1 d2 d3 d4)
  have "same_rest d1 d4"
    using insert_witnesses_rest[OF 1(3)] insert_facts_rest[OF 1(4)] update_ordinals_Inr[OF 1(5) assms(2)] same_rest_trans by blast
  then show ?thesis by (simp add: 1(2,6) same_rest_def update_commit_seq_def)
qed

lemma appendInTx_frontiers:
  assumes "appendInTx lib ctx batch d = Inr ((r, new), d')"
  shows "Frontiers d' = Frontiers d"
proof (cases "find_intent d (AppendIntentID batch)")
  case None
  with assms obtain dig cs ws fs where "prepareAppend lib d batch ctx = Inr (cs, ws, fs, r)"
    "write_append batch dig (cs, ws, fs, r) d = Inr d'"
    by (auto simp: appendInTx_def bindR_eq_Inr)
  then show ?thesis using write_append_frontiers prepared_counts by blast
next
  case (Some row)
  with assms show ?thesis by (auto simp: appendInTx_def bindR_eq_Inr split: if_splits)
qed

lemma frontiers_db_ok [simp]: "db_ok (d\<lparr>Frontiers := fs\<rparr>) = db_ok d" "witnessed (d\<lparr>Frontiers := fs\<rparr>) = witnessed d"
  "owner_log (d\<lparr>Frontiers := fs\<rparr>) ow = owner_log d ow"
  by (simp_all add: db_ok_def owner_ok_def owner_entries_def nextOwnerOrdinalTx_def witnessed_def is_witness_id_def owner_log_def)

text \<open>A fact read on a path has an entry there.\<close>

lemma readLatestFactOnPath_entry:
  assumes "readLatestFactOnPathTx d i ow = Inr r" "View r = Some v"
  shows "\<exists>p\<in>set (PathEntries d). PathRecord p = i \<and> PathRef p = ow \<and> PathOrdinal p = ViewOrdinal v \<and> ViewOwner v = ow"
proof -
  obtain p where p: "latest_entry d i ow = Some p" "scanRecord (join_entry d p) = Inr r"
    using assms(1) by (auto simp: readLatestFactOnPathTx_def scanRecord_def split: option.splits)
  let ?ps = "filter (\<lambda>p. PathRecord p = i \<and> PathRef p = ow) (PathEntries d)"
  obtain ps where "sort_key (\<lambda>p. - PathOrdinal p) ?ps = p # ps" using p(1) by (auto simp: latest_entry_def split: list.splits)
  then have "p \<in> set (sort_key (\<lambda>p. - PathOrdinal p) ?ps)" by (simp only: list.set_intros(1))
  then have "p \<in> set (PathEntries d)" "PathRecord p = i" "PathRef p = ow" by (simp_all only: set_sort set_filter mem_Collect_eq)
  moreover have "ViewOrdinal v = PathOrdinal p" "ViewOwner v = PathRef p"
    using p(2) assms(2) by (auto simp: scanRecord_def join_entry_def bindR_eq_Inr split: option.splits)
  ultimately show ?thesis by auto
qed

text \<open>The published payload, stored and read back, is the frontier.\<close>

lemma frontier_payload_reads:
  assumes "json_marshal (of_gmap (frontier_payload spec n)) = Inr j"
    and "valid_string (SpecFrontierID spec)" "valid_string (SpecTargetOwnerID spec)" "valid_string (SpecThroughFactID spec)"
    and "SpecFrontierID spec \<noteq> []" "SpecTargetOwnerID spec \<noteq> []" "SpecThroughFactID spec \<noteq> []" "0 \<le> n" "n < 2 ^ 63"
  shows "\<exists>b f. bodyFromJSON (bodyToJSON (frontier_payload spec n)) = Inr b \<and> frontierFromPayload b i = Inr f
    \<and> FrontierID f = SpecFrontierID spec \<and> TargetTraceOwnerID f = SpecTargetOwnerID spec
    \<and> ThroughFactID f = SpecThroughFactID spec \<and> ThroughOwnerOrdinal f = n"
proof -
  obtain kvs where kvs: "frontier_payload spec n = Some kvs" "distinct (map fst kvs)" by (simp add: frontier_payload_def)
  have "list_all valid_string [''frontier_id'', ''target_trace_owner_id'', ''through_fact_id'', ''through_owner_ordinal'',
      ''publisher_trace_owner_id'']"
    by (simp only: list.pred_inject simp_thms, intro conjI; rule valid_string_ascii; simp add: byte_def)
  then have "list_all (\<lambda>(k, v). valid_string k) kvs" using kvs(1) by (auto simp: frontier_payload_def)
  with kvs assms(1) obtain b where b: "bodyFromJSON (bodyToJSON (frontier_payload spec n)) = Inr (Some b)"
    "\<And>k. map_of b k = (case map_of kvs k of None \<Rightarrow> None
         | Some v \<Rightarrow> (case json_marshal v of Inl e \<Rightarrow> None | Inr j \<Rightarrow> Some (json_decode j)))"
    using stored_payload[of kvs j] by (auto simp: of_gmap_def)
  have m: "map_of kvs ''frontier_id'' = Some (VString (SpecFrontierID spec))"
    "map_of kvs ''target_trace_owner_id'' = Some (VString (SpecTargetOwnerID spec))"
    "map_of kvs ''through_fact_id'' = Some (VString (SpecThroughFactID spec))"
    "map_of kvs ''through_owner_ordinal'' = Some (VInt n)"
    using kvs(1) by (auto simp: frontier_payload_def)
  have "parse_int64 (itoa n) = Some n" using assms(8,9) by (intro parse_int64_itoa) simp_all
  then have "\<exists>f. frontierFromPayload (Some b) i = Inr f \<and> FrontierID f = SpecFrontierID spec \<and> TargetTraceOwnerID f = SpecTargetOwnerID spec
    \<and> ThroughFactID f = SpecThroughFactID spec \<and> ThroughOwnerOrdinal f = n"
    using assms(2-7) by (simp add: frontierFromPayload_def payload_string_def payload_at_def intFromPayload_def b(2) m to_valid_id)
  with b(1) show ?thesis by blast
qed

lemma entry_ordinal:
  assumes "db_ok d" "p \<in> set (PathEntries d)"
  shows "0 \<le> PathOrdinal p" "PathOrdinal p < nextOwnerOrdinalTx d (PathRef p)"
proof -
  let ?es = "owner_entries d (PathRef p)"
  have "map PathOrdinal ?es = run_from 0 (length ?es)" "nextOwnerOrdinalTx d (PathRef p) = int (length ?es)"
    using assms(1) by (simp_all add: db_ok_def owner_ok_def)
  moreover have "PathOrdinal p \<in> set (map PathOrdinal ?es)" using assms(2) by (auto simp: owner_entries_def)
  ultimately show "0 \<le> PathOrdinal p" "PathOrdinal p < nextOwnerOrdinalTx d (PathRef p)" by (auto simp: run_from_def)
qed

lemma payload_strings_valid:
  assumes "RecordDigest lib s m (Some kvs) cs w = Inr i" "(k, VString x) \<in> set kvs"
  shows "valid_string x"
proof -
  obtain t where "write_value lib False (record_input s m (Some kvs) cs w) = Inr t"
    using assms(1) by (auto simp: RecordDigest_Inr CanonicalDigest_Inr canonical_json_bytes_def)
  then obtain j where "canonical_tree lib (record_input s m (Some kvs) cs w) = Inr j"
    by (auto simp: write_value_print bindR_eq_Inr)
  then have "\<exists>j. canonical_tree lib (VMap (elems (Some kvs))) = Inr j"
    unfolding record_input_def by (rule canonical_map_in[THEN conjunct2]) simp
  then obtain j' where "canonical_tree lib (VMap kvs) = Inr j'" by (auto simp del: canonical_tree.simps)
  from canonical_map_in[OF this assms(2)] obtain jx where "canonical_tree lib (VString x) = Inr jx" by (elim conjE exE)
  then show ?thesis by (rule canonical_string_valid)
qed

text \<open>A publication under a new intent and a new id, whose record was not retained before.\<close>

definition fresh_cut :: "db \<Rightarrow> FrontierSpec \<Rightarrow> Frontier \<Rightarrow> bool" where
  "fresh_cut d spec f \<longleftrightarrow> find_intent d (frontier_intent spec) = None \<and> find_frontier d (SpecFrontierID spec) = None
    \<and> CreatedByFactID f \<notin> row_ids d \<and> SpecTargetOwnerID spec \<noteq> [] \<and> frontier_publisher spec \<noteq> witnessTraceOwnerID"

text \<open>The single draft of a frontier, appended: its row in the table.\<close>

lemma frontier_batch_fields:
  "AppendIntentID (frontier_batch ctx spec n) = frontier_intent spec"
  "\<exists>g. batch_drafts (frontier_batch ctx spec n) = [(g, frontier_draft spec n)]"
  "no_witness_owner (frontier_batch ctx spec n) \<longleftrightarrow> frontier_publisher spec \<noteq> witnessTraceOwnerID"
  "drafts_ok (frontier_batch ctx spec n)"
  by (simp_all add: frontier_batch_def batch_drafts_def no_witness_owner_def drafts_ok_def frontier_draft_def
      frontier_payload_def is_witness_schema_def RootWitnessSchemaRef_def WitnessSchemaRef_def)

lemma appended_cut:
  assumes a: "appendInTx lib ctx (frontier_batch ctx spec n) d = Inr ((r, new), d')" "FactIDs r = i # rest"
    and fresh: "find_intent d (frontier_intent spec) = None" "i \<notin> row_ids d" and lib: "lib_ok lib" "inj (sha256 lib)"
    and ok: "db_ok d" "witnessed d" "frontier_publisher spec \<noteq> witnessTraceOwnerID"
  shows "db_ok d' \<and> witnessed d'"
    "\<exists>row. find_record d' i = Some row \<and> RowBody row = bodyToJSON (frontier_payload spec n)"
    "\<exists>j. json_marshal (of_gmap (frontier_payload spec n)) = Inr j"
    "valid_string (SpecFrontierID spec)" "valid_string (SpecTargetOwnerID spec)" "valid_string (SpecThroughFactID spec)"
proof -
  let ?b = "frontier_batch ctx spec n"
  note u = root_unique_inj[OF lib(2,1)] and bf = frontier_batch_fields[of ctx spec n]
  obtain g where g: "batch_drafts ?b = [(g, frontier_draft spec n)]" using bf(2) by blast
  obtain dig cs ws fs where w: "validateBatchShape ?b = Inr ()" "prepareAppend lib d ?b ctx = Inr (cs, ws, fs, r)"
    "write_append ?b dig (cs, ws, fs, r) d = Inr d'"
    using a(1) fresh(1) by (auto simp: appendInTx_def bindR_eq_Inr bf(1))
  have n: "no_witness_owner ?b" using ok(3) bf(3) by simp
  from write_append_ok[OF w(2,1,3) ok(1) u n] write_append_witnessed[OF w(2,3) ok(2) u]
  have d': "db_ok d'" "witnessed d'" "length (FactIDs r) = length (batch_drafts ?b)" by blast+
  then show "db_ok d' \<and> witnessed d'" by blast
  have ids: "FactIDs r = [i]" using d'(3) a(2) by (simp add: g)
  have "find_intent d (AppendIntentID ?b) = None" using fresh(1) bf(1) by simp
  from appended_drafts[OF a(1) this lib bf(4)] fresh(2) have "draft_row lib d' (g, frontier_draft spec n) i"
    by (simp add: ids g)
  then obtain row cs' w' where row: "find_record d' i = Some row" "RowBody row = bodyToJSON (frontier_payload spec n)"
    "RecordDigest lib (DraftSchemaRef (frontier_draft spec n)) (DraftMode (frontier_draft spec n)) (frontier_payload spec n) cs' w' = Inr i"
    unfolding draft_row_def by (auto simp: frontier_draft_def)
  then show "\<exists>row. find_record d' i = Some row \<and> RowBody row = bodyToJSON (frontier_payload spec n)" by blast
  have "DraftPayload (frontier_draft spec n) = frontier_payload spec n" by (simp add: frontier_draft_def)
  then show "\<exists>j. json_marshal (of_gmap (frontier_payload spec n)) = Inr j"
    using validated_drafts[OF w(1), of g "frontier_draft spec n"] by (simp add: g)
  obtain kvs where kvs: "frontier_payload spec n = Some kvs" by (simp add: frontier_payload_def)
  note valid = payload_strings_valid[OF row(3)[unfolded kvs]]
  show "valid_string (SpecFrontierID spec)" "valid_string (SpecTargetOwnerID spec)" "valid_string (SpecThroughFactID spec)"
    using kvs by (auto simp: frontier_payload_def intro: valid)
qed

lemma publish_new:
  assumes pub: "publishFrontierInTx lib ctx spec d = Inr (f, d')" and ok: "db_ok d" "witnessed d" "int64_room d 1"
    and lib: "lib_ok lib" "inj (sha256 lib)" and fresh: "fresh_cut d spec f"
  shows "readOwnerCutoff d' (SpecFrontierID spec) = Inr f \<and> cut_entry d f \<and> db_ok d' \<and> witnessed d'
    \<and> TargetTraceOwnerID f = SpecTargetOwnerID spec \<and> ThroughFactID f = SpecThroughFactID spec"
proof -
  from pub obtain through view receipt isNew d1 i rest where a: "SpecFrontierID spec \<noteq> []"
    "readLatestFactOnPathTx d (SpecThroughFactID spec) (SpecTargetOwnerID spec) = Inr through"
    "View through = Some view" "ViewOwner view = SpecTargetOwnerID spec"
    "appendInTx lib ctx (frontier_batch ctx spec (ViewOrdinal view)) d = Inr ((receipt, isNew), d1)"
    "FactIDs receipt = i # rest"
    and idx: "index_frontier \<lparr>FrontierID = SpecFrontierID spec, TargetTraceOwnerID = SpecTargetOwnerID spec,
        ThroughFactID = SpecThroughFactID spec, ThroughOwnerOrdinal = ViewOrdinal view,
        PublisherOwnerID = frontier_publisher spec, CreatedByFactID = i\<rparr> (frontier_intent spec) d1 = Inr (f, d')"
    by (rule publishFrontierInTx_Inr)
  let ?n = "ViewOrdinal view"
  let ?f = "\<lparr>FrontierID = SpecFrontierID spec, TargetTraceOwnerID = SpecTargetOwnerID spec,
        ThroughFactID = SpecThroughFactID spec, ThroughOwnerOrdinal = ViewOrdinal view,
        PublisherOwnerID = frontier_publisher spec, CreatedByFactID = i\<rparr>"
  from fresh have fr: "find_intent d (frontier_intent spec) = None" "find_frontier d (SpecFrontierID spec) = None"
    "SpecTargetOwnerID spec \<noteq> []" "frontier_publisher spec \<noteq> witnessTraceOwnerID" by (simp_all add: fresh_cut_def)
  obtain p where p: "p \<in> set (PathEntries d)" "PathRecord p = SpecThroughFactID spec" "PathRef p = SpecTargetOwnerID spec"
    "PathOrdinal p = ?n" using readLatestFactOnPath_entry[OF a(2,3)] by blast
  have "0 \<le> ?n" "?n < nextOwnerOrdinalTx d (PathRef p)" using entry_ordinal[OF ok(1) p(1)] p(4) by simp_all
  moreover have "nextOwnerOrdinalTx d (PathRef p) < 2 ^ 63" using ok(3) by (simp add: int64_room_def) (smt (verit))
  ultimately have n: "0 \<le> ?n" "?n < 2 ^ 63" by linarith+
  have "PathRecord p \<in> row_ids d" using ok(1) p(1) by (auto simp: db_ok_def)
  then have tf: "SpecThroughFactID spec \<noteq> []" using ok(2) p(2) by (auto simp: witnessed_def)
  have none: "find_frontier d1 (SpecFrontierID spec) = None"
    using fr(2) appendInTx_frontiers[OF a(5)] by (simp add: find_frontier_def)
  then have "bindR (insert_frontier (frontier_row_of ?f (frontier_intent spec)) d1) (\<lambda>d. Inr (?f, d)) = Inr (f, d')"
    using idx by (simp add: index_frontier_def readOwnerCutoffTx_def)
  then have ins: "insert_frontier (frontier_row_of ?f (frontier_intent spec)) d1 = Inr d'" "f = ?f"
    unfolding bindR_eq_Inr by (elim exE conjE, simp)+
  have d': "d' = d1\<lparr>Frontiers := Frontiers d1 @ [frontier_row_of ?f (frontier_intent spec)]\<rparr>"
    using ins(1) by (auto simp: insert_frontier_def bindR_eq_Inr)
  have "i \<notin> row_ids d" using fresh ins(2) by (simp add: fresh_cut_def)
  note cut = appended_cut[OF a(5,6) fr(1) this lib ok(1,2) fr(4)]
  obtain j row where row: "json_marshal (of_gmap (frontier_payload spec ?n)) = Inr j" "find_record d1 i = Some row"
    "RowBody row = bodyToJSON (frontier_payload spec ?n)" using cut(2,3) by blast
  have ok': "db_ok d'" "witnessed d'" using cut(1) by (simp_all add: d')
  have row': "find_record d' i = Some row" using row(2) by (simp add: d' find_record_def)
  from readFact_total[OF ok'(1) this] obtain r where r: "readFact d' i = Inr r" by blast
  from readFact_body[OF r] row' row(3) have rb: "bodyFromJSON (bodyToJSON (frontier_payload spec ?n)) = Inr (Body r)" by auto
  from frontier_payload_reads[OF row(1) cut(4-6) a(1) fr(3) tf n, of i] rb obtain e where
    e: "frontierFromPayload (Body r) i = Inr e" "FrontierID e = SpecFrontierID spec" "TargetTraceOwnerID e = SpecTargetOwnerID spec"
      "ThroughFactID e = SpecThroughFactID spec" "ThroughOwnerOrdinal e = ?n" by auto
  have "readOwnerCutoffTx d' (SpecFrontierID spec) = Inr ?f"
    using cuts.look_inserted[OF ins(1), of "SpecFrontierID spec"]
    by (simp add: readOwnerCutoffTx_def frontier_row_of_def frontier_of_row_def)
  then have "readOwnerCutoff d' (SpecFrontierID spec) = Inr f"
    using r e by (simp add: readOwnerCutoff_def same_cutoff_def ins(2))
  moreover have "cut_entry d f" using p by (auto simp: cut_entry_def ins(2))
  ultimately show ?thesis using ok' by (simp add: ins(2))
qed

end
