(* ===== verification/Store_Ledger.thy ===== *)
theory Store_Ledger
  imports Store_Db Canonical_Record "HOL-Library.Word"
begin

text \<open>
  The two side tables of the store: the ledger of completed materializations
  (\<open>materialization_ledger.go\<close>, \<open>materialization_types.go\<close>) and the checkpoint blobs
  (\<open>checkpoint_blob.go\<close>, \<open>workspace_state.go\<close>).  Neither touches the trace tables.
\<close>

section \<open>Receipts of materializations\<close>

definition MaterializationSuccess :: string where
  "MaterializationSuccess = ''success''"

definition MaterializationCleanFailure :: string where
  "MaterializationCleanFailure = ''clean_failure''"

definition MaterializationSplitState :: string where
  "MaterializationSplitState = ''split_state''"

record MaterializationReceipt =
  Outcome :: string
  MatSubstrateRef :: string
  TargetRecordIDs :: "string slice"
  ProducedRecordIDs :: "string slice"
  FailureReason :: string
  WorldSideAnchors :: "gmap slice"

definition NonNilAnchors :: "gmap slice \<Rightarrow> gmap slice" where
  "NonNilAnchors anchors = (case anchors of None \<Rightarrow> Some [] | Some as \<Rightarrow> Some as)"

definition receipt_value :: "MaterializationReceipt \<Rightarrow> gval" where
  "receipt_value r = VMap
    [(''outcome'', VString (Outcome r)),
     (''substrate_ref'', VString (MatSubstrateRef r)),
     (''target_record_ids'', of_strings (NonNilStrings (TargetRecordIDs r))),
     (''produced_record_ids'', of_strings (NonNilStrings (ProducedRecordIDs r))),
     (''failure_reason'', VString (FailureReason r)),
     (''world_side_anchors'', VSlice (map of_gmap (elems (NonNilAnchors (WorldSideAnchors r)))))]"

text \<open>The column holds the text of the canonical writer; as everywhere, the model keeps the
  document of which it is the text (\<open>write_value_print\<close>).\<close>

definition materializationReceiptJSON :: "golib \<Rightarrow> MaterializationReceipt \<Rightarrow> kerror + json" where
  "materializationReceiptJSON lib r = canonical_tree lib (receipt_value r)"

fun to_gmap_json :: "json \<Rightarrow> kerror + gmap" where
  "to_gmap_json JNull = Inr None"
| "to_gmap_json (JObj js) = Inr (Some (map (\<lambda>(k, j). (to_valid k, json_decode j)) js))"
| "to_gmap_json _ = Inl unmarshal_error"

definition materializationReceiptFromJSON :: "json \<Rightarrow> kerror + MaterializationReceipt" where
  "materializationReceiptFromJSON j =
    bindR (struct_members j) (\<lambda>js.
    bindR (to_string_json (member js ''outcome'')) (\<lambda>outcome.
    bindR (to_string_json (member js ''substrate_ref'')) (\<lambda>substrate.
    bindR (to_list_json to_string_json (member js ''target_record_ids'')) (\<lambda>targets.
    bindR (to_list_json to_string_json (member js ''produced_record_ids'')) (\<lambda>produced.
    bindR (to_string_json (member js ''failure_reason'')) (\<lambda>failure.
    bindR (to_list_json to_gmap_json (member js ''world_side_anchors'')) (\<lambda>anchors.
    Inr \<lparr>Outcome = outcome, MatSubstrateRef = substrate, TargetRecordIDs = Some targets,
         ProducedRecordIDs = Some produced, FailureReason = failure, WorldSideAnchors = Some anchors\<rparr>)))))))"

section \<open>The ledger\<close>

definition find_ledger :: "db \<Rightarrow> string \<Rightarrow> ledger_row option" where
  "find_ledger d i = find (\<lambda>r. LedgerID r = i) (Ledger d)"

text \<open>The digest and the receipt of a completed intent; \<open>None\<close> when there is none.  What the driver
  answers to a statement is an argument here and below: an error, or that it ran.\<close>

definition ReadCompletedMaterialization :: "kerror option \<Rightarrow> string \<Rightarrow> store \<Rightarrow> kerror + (string \<times> MaterializationReceipt) option" where
  "ReadCompletedMaterialization query intentID s =
    (case query of
       Some e \<Rightarrow> Inl e
     | None \<Rightarrow>
       (case find_ledger (Db s) intentID of
          None \<Rightarrow> Inr None
        | Some row \<Rightarrow> bindR (materializationReceiptFromJSON (LedgerReceipt row)) (\<lambda>receipt.
            Inr (Some (LedgerDigest row, receipt)))))"

text \<open>\<open>INSERT OR IGNORE\<close>, then the comparison of digests when the row was there.\<close>

definition RecordCompletedMaterialization :: "kerror option \<Rightarrow> golib \<Rightarrow> string \<Rightarrow> string \<Rightarrow> MaterializationReceipt \<Rightarrow> store
    \<Rightarrow> (kerror + unit) \<times> store" where
  "RecordCompletedMaterialization exec lib intentID digest receipt s =
    (case materializationReceiptJSON lib receipt of
       Inl e \<Rightarrow> (Inl e, s)
     | Inr receiptJSON \<Rightarrow>
    (case exec of
       Some e \<Rightarrow> (Inl e, s)
     | None \<Rightarrow>
    (case find_ledger (Db s) intentID of
       None \<Rightarrow> (Inr (), s\<lparr>Db := (Db s)\<lparr>Ledger := Ledger (Db s)
           @ [\<lparr>LedgerID = intentID, LedgerDigest = digest, LedgerReceipt = receiptJSON\<rparr>]\<rparr>\<rparr>)
     | Some row \<Rightarrow>
         if LedgerDigest row \<noteq> digest then (Inl (AppendIntentConflictError intentID), s) else (Inr (), s))))"

definition DeleteMaterializationIntent :: "kerror option \<Rightarrow> string \<Rightarrow> store \<Rightarrow> (kerror + unit) \<times> store" where
  "DeleteMaterializationIntent exec intentID s =
    (case exec of
       Some e \<Rightarrow> (Inl e, s)
     | None \<Rightarrow> (Inr (), s\<lparr>Db := (Db s)\<lparr>Ledger := filter (\<lambda>r. LedgerID r \<noteq> intentID) (Ledger (Db s))\<rparr>\<rparr>))"

section \<open>Workspace states and checkpoints\<close>

record WorkspaceState =
  WsBackend :: string
  WsRevision :: string
  WsData :: gmap

definition state_value :: "WorkspaceState \<Rightarrow> gval" where
  "state_value ws = VMap
    [(''backend'', VString (WsBackend ws)), (''revision'', VString (WsRevision ws)), (''data'', of_gmap (WsData ws))]"

definition WorkspaceState_Digest :: "golib \<Rightarrow> WorkspaceState \<Rightarrow> kerror + string" where
  "WorkspaceState_Digest lib ws = CanonicalDigest lib (state_value ws)"

text \<open>The sequence is a \<open>uint64\<close>, stored as the \<open>int64\<close> with the same bits; the creation time
  is its count of nanoseconds.\<close>

record RecoveredCheckpointBlob =
  CheckpointID :: string
  ScopeID :: string
  CkSeq :: "64 word"
  CkState :: WorkspaceState
  CkSnapshot :: string
  CreatedAt :: int

definition PersistCheckpointBlob :: "kerror option \<Rightarrow> string \<Rightarrow> string \<Rightarrow> 64 word \<Rightarrow> WorkspaceState \<Rightarrow> char slice
    \<Rightarrow> int \<Rightarrow> store \<Rightarrow> (kerror + unit) \<times> store" where
  "PersistCheckpointBlob exec checkpointID scopeID sq ws snapshot createdAt s =
    (case json_marshal (state_value ws) of
       Inl e \<Rightarrow> (Inl e, s)
     | Inr stateJSON \<Rightarrow>
       (case exec of
          Some e \<Rightarrow> (Inl e, s)
        | None \<Rightarrow> (Inr (), s\<lparr>Db := (Db s)\<lparr>Snapshots := filter (\<lambda>r. SnapID r \<noteq> checkpointID) (Snapshots (Db s))
            @ [\<lparr>SnapID = checkpointID, SnapScope = scopeID, SnapSeq = sint sq, SnapState = Some stateJSON,
                SnapBytes = elems snapshot, SnapCreated = createdAt\<rparr>]\<rparr>\<rparr>)))"

definition stateFromJSON :: "json option \<Rightarrow> kerror + WorkspaceState" where
  "stateFromJSON t =
    (case t of
       None \<Rightarrow> Inl (Plain ''EOF'' [])
     | Some j \<Rightarrow>
         bindR (struct_members j) (\<lambda>js.
         bindR (to_string_json (member js ''backend'')) (\<lambda>backend.
         bindR (to_string_json (member js ''revision'')) (\<lambda>revision.
         bindR (to_gmap_json (member js ''data'')) (\<lambda>data.
         Inr \<lparr>WsBackend = backend, WsRevision = revision, WsData = data\<rparr>)))))"

text \<open>A row whose state does not decode is skipped, its id collected.\<close>

definition load_blob :: "RecoveredCheckpointBlob list \<times> string list \<Rightarrow> snapshot_row \<Rightarrow> RecoveredCheckpointBlob list \<times> string list" where
  "load_blob = (\<lambda>(blobs, corrupt) r.
    (case stateFromJSON (SnapState r) of
       Inl _ \<Rightarrow> (blobs, corrupt @ [SnapID r])
     | Inr state \<Rightarrow> (blobs @ [\<lparr>CheckpointID = SnapID r, ScopeID = SnapScope r, CkSeq = of_int (SnapSeq r),
         CkState = state, CkSnapshot = SnapBytes r, CreatedAt = SnapCreated r\<rparr>], corrupt)))"

definition LoadCheckpointBlobs :: "kerror option \<Rightarrow> store \<Rightarrow> kerror + RecoveredCheckpointBlob list \<times> string list" where
  "LoadCheckpointBlobs query s =
    (case query of
       Some e \<Rightarrow> Inl e
     | None \<Rightarrow> Inr (foldl load_blob ([], []) (sort_key SnapCreated (Snapshots (Db s)))))"

definition DeleteCheckpointBlob :: "kerror option \<Rightarrow> string \<Rightarrow> store \<Rightarrow> (kerror + unit) \<times> store" where
  "DeleteCheckpointBlob exec checkpointID s =
    (case exec of
       Some e \<Rightarrow> (Inl e, s)
     | None \<Rightarrow> (Inr (), s\<lparr>Db := (Db s)\<lparr>Snapshots := filter (\<lambda>r. SnapID r \<noteq> checkpointID) (Snapshots (Db s))\<rparr>\<rparr>))"

section \<open>Decoding what was encoded\<close>

lemma canonical_strings_Inr:
  "canonical_items lib (map VString xs) = Inr js \<Longrightarrow> js = map JStr xs \<and> list_all valid_string xs"
  by (induction xs arbitrary: js) (auto simp: bindR_eq_Inr check_string_def split: if_splits)

lemma anchors_decode:
  "canonical_items lib (map of_gmap as) = Inr js \<Longrightarrow> \<exists>bs. mapR to_gmap_json js = Inr bs \<and> length bs = length as"
proof (induction as arbitrary: js)
  case (Cons a as)
  obtain j js' where j: "canonical_tree lib (of_gmap a) = Inr j" "canonical_items lib (map of_gmap as) = Inr js'" "js = j # js'"
    using Cons.prems by (auto simp: bindR_eq_Inr)
  have "\<exists>b. to_gmap_json j = Inr b" using j(1) by (cases a) (auto simp: of_gmap_def bindR_eq_Inr)
  with Cons.IH[OF j(2)] j(3) show ?case by auto
qed simp

lemma sorted_receipt_fields:
  "sorted_fields [(''outcome'', a), (''substrate_ref'', b), (''target_record_ids'', c), (''produced_record_ids'', d),
     (''failure_reason'', e), (''world_side_anchors'', f)]
   = [(''failure_reason'', e), (''outcome'', a), (''produced_record_ids'', d), (''substrate_ref'', b),
     (''target_record_ids'', c), (''world_side_anchors'', f)]"
  by (simp add: sorted_fields_def)

lemma receipt_decodes:
  assumes "materializationReceiptJSON lib r = Inr j"
  shows "\<exists>r'. materializationReceiptFromJSON j = Inr r' \<and> Outcome r' = Outcome r \<and> MatSubstrateRef r' = MatSubstrateRef r
    \<and> elems (TargetRecordIDs r') = elems (TargetRecordIDs r) \<and> elems (ProducedRecordIDs r') = elems (ProducedRecordIDs r)
    \<and> FailureReason r' = FailureReason r \<and> length (elems (WorldSideAnchors r')) = length (elems (WorldSideAnchors r))"
proof -
  have ne: "of_strings (NonNilStrings ss) = VSlice (map VString (elems ss))" "elems (NonNilAnchors as) = elems as" for ss as
    by (simp_all add: of_strings_def NonNilStrings_def NonNilAnchors_def split: option.splits)
  obtain ts ps ws where a: "canonical_items lib (map VString (elems (TargetRecordIDs r))) = Inr ts"
    "canonical_items lib (map VString (elems (ProducedRecordIDs r))) = Inr ps"
    "canonical_items lib (map of_gmap (elems (WorldSideAnchors r))) = Inr ws"
    "valid_string (Outcome r)" "valid_string (MatSubstrateRef r)" "valid_string (FailureReason r)"
    "j = JObj [(''failure_reason'', JStr (FailureReason r)), (''outcome'', JStr (Outcome r)), (''produced_record_ids'', JArr ps),
      (''substrate_ref'', JStr (MatSubstrateRef r)), (''target_record_ids'', JArr ts), (''world_side_anchors'', JArr ws)]"
    using assms by (auto simp: materializationReceiptJSON_def receipt_value_def ne sorted_receipt_fields bindR_eq_Inr
        check_string_def split: if_splits)
  note s = canonical_strings_Inr[OF a(1)] canonical_strings_Inr[OF a(2)]
  obtain bs where "mapR to_gmap_json ws = Inr bs" "length bs = length (elems (WorldSideAnchors r))" using anchors_decode[OF a(3)] by blast
  with a(4-6) s show ?thesis
    by (simp add: materializationReceiptFromJSON_def a(7) member_def to_list_strings to_valid_id del: to_list_json.simps)
      (simp add: mapR_id)
qed

lemma sorted_state_fields:
  "sorted_fields [(''backend'', a), (''revision'', b), (''data'', c)] = [(''backend'', a), (''data'', c), (''revision'', b)]"
  by (simp add: sorted_fields_def)

lemma state_decodes:
  assumes "json_marshal (state_value ws) = Inr j" "storable (state_value ws)"
  shows "\<exists>ws'. stateFromJSON (Some j) = Inr ws' \<and> WsBackend ws' = WsBackend ws \<and> WsRevision ws' = WsRevision ws
    \<and> WorkspaceState_Digest lib ws' = WorkspaceState_Digest lib ws"
proof -
  obtain jd where jd: "json_marshal (of_gmap (WsData ws)) = Inr jd"
    "j = JObj [(''backend'', JStr (WsBackend ws)), (''data'', jd), (''revision'', JStr (WsRevision ws))]"
    using assms(1) by (auto simp: state_value_def sorted_state_fields bindR_eq_Inr)
  have v: "valid_string (WsBackend ws)" "valid_string (WsRevision ws)" using assms(2) by (auto simp: state_value_def)
  have d: "storable (of_gmap (WsData ws))" using assms(2) by (simp add: state_value_def)
  have "\<exists>b. to_gmap_json jd = Inr b \<and> canonical_tree lib (of_gmap b) = canonical_tree lib (of_gmap (WsData ws))"
  proof (cases "WsData ws")
    case None
    then have "jd = JNull" using jd(1) by (simp add: of_gmap_def)
    with None show ?thesis by simp
  next
    case (Some kvs)
    then obtain js where js: "jd = JObj js" using jd(1) by (auto simp: of_gmap_def bindR_eq_Inr)
    have "canonical_tree lib (json_decode jd) = canonical_tree lib (of_gmap (WsData ws))"
      by (rule storable_round_trip(1)[OF d jd(1)])
    then show ?thesis by (simp add: js of_gmap_def)
  qed
  then obtain b where b: "to_gmap_json jd = Inr b" "canonical_tree lib (of_gmap b) = canonical_tree lib (of_gmap (WsData ws))" by blast
  let ?ws = "\<lparr>WsBackend = WsBackend ws, WsRevision = WsRevision ws, WsData = b\<rparr>"
  have "canonical_tree lib (state_value ?ws) = canonical_tree lib (state_value ws)"
    by (simp add: state_value_def sorted_state_fields b(2))
  then have "WorkspaceState_Digest lib ?ws = WorkspaceState_Digest lib ws"
    by (simp add: WorkspaceState_Digest_def CanonicalDigest_def canonical_json_bytes_def write_value_print)
  then show ?thesis
    using b(1) v by (simp add: stateFromJSON_def jd(2) member_def to_valid_id)
qed

text \<open>Loading is a filter: the rows whose state decodes, oldest first.\<close>

definition blob_of :: "snapshot_row \<Rightarrow> RecoveredCheckpointBlob option" where
  "blob_of r = (case stateFromJSON (SnapState r) of
     Inl _ \<Rightarrow> None
   | Inr state \<Rightarrow> Some \<lparr>CheckpointID = SnapID r, ScopeID = SnapScope r, CkSeq = of_int (SnapSeq r),
       CkState = state, CkSnapshot = SnapBytes r, CreatedAt = SnapCreated r\<rparr>)"

lemma load_blobs:
  "foldl load_blob (blobs, corrupt) rs = (blobs @ List.map_filter blob_of rs, corrupt @ map SnapID (filter (\<lambda>r. blob_of r = None) rs))"
  by (induction rs arbitrary: blobs corrupt) (auto simp: load_blob_def blob_of_def List.map_filter_simps split: sum.splits)

section \<open>Properties\<close>

text \<open>C23: The first completion of a materialize intent decides: it is read back with its digest and its
  receipt, and every later completion of the same intent leaves the ledger as it is, succeeding
  only with the same digest.\<close>

theorem first_completion_decides:
  assumes "RecordCompletedMaterialization None lib i dig r s = (Inr (), s')" "find_ledger (Db s) i = None"
  shows "(\<exists>r'. ReadCompletedMaterialization None i s' = Inr (Some (dig, r')) \<and> Outcome r' = Outcome r
      \<and> elems (TargetRecordIDs r') = elems (TargetRecordIDs r) \<and> elems (ProducedRecordIDs r') = elems (ProducedRecordIDs r)
      \<and> FailureReason r' = FailureReason r)
    \<and> (\<forall>lib' dig' r'. snd (RecordCompletedMaterialization None lib' i dig' r' s') = s'
      \<and> (fst (RecordCompletedMaterialization None lib' i dig' r' s') = Inr () \<longrightarrow> dig' = dig))"
proof -
  obtain j where j: "materializationReceiptJSON lib r = Inr j"
    "s' = s\<lparr>Db := (Db s)\<lparr>Ledger := Ledger (Db s) @ [\<lparr>LedgerID = i, LedgerDigest = dig, LedgerReceipt = j\<rparr>]\<rparr>\<rparr>"
    using assms by (auto simp: RecordCompletedMaterialization_def split: sum.splits)
  have row: "find_ledger (Db s') i = Some \<lparr>LedgerID = i, LedgerDigest = dig, LedgerReceipt = j\<rparr>"
    using assms(2) by (simp add: j(2) find_ledger_def find_append)
  have "snd (RecordCompletedMaterialization None lib' i dig' r' s') = s'
      \<and> (fst (RecordCompletedMaterialization None lib' i dig' r' s') = Inr () \<longrightarrow> dig' = dig)" for lib' dig' r'
    by (cases "materializationReceiptJSON lib' r'") (simp_all add: RecordCompletedMaterialization_def row)
  moreover from receipt_decodes[OF j(1)] row have "\<exists>r'. ReadCompletedMaterialization None i s' = Inr (Some (dig, r'))
      \<and> Outcome r' = Outcome r \<and> elems (TargetRecordIDs r') = elems (TargetRecordIDs r)
      \<and> elems (ProducedRecordIDs r') = elems (ProducedRecordIDs r) \<and> FailureReason r' = FailureReason r"
    by (auto simp: ReadCompletedMaterialization_def)
  ultimately show ?thesis by blast
qed

definition sample_materialization :: MaterializationReceipt where
  "sample_materialization = \<lparr>Outcome = MaterializationSuccess, MatSubstrateRef = [], TargetRecordIDs = None,
    ProducedRecordIDs = Some [], FailureReason = [], WorldSideAnchors = Some [None, Some []]\<rparr>"

theorem first_completion_decides_witness:
  "\<exists>s' r'. RecordCompletedMaterialization None \<lparr>sha256 = id, parse_float = Map.empty\<rparr> ''m1'' ''d1'' sample_materialization
      \<lparr>Db = empty_db, Bus = None, BlobLimit = 0\<rparr> = (Inr (), s')
    \<and> ReadCompletedMaterialization None ''m1'' s' = Inr (Some (''d1'', r')) \<and> Outcome r' = ''success''"
proof -
  let ?lib = "\<lparr>sha256 = id, parse_float = Map.empty\<rparr>" and ?s = "\<lparr>Db = empty_db, Bus = None, BlobLimit = 0\<rparr>"
  have "valid_string [] \<and> valid_string ''success''"
    by (intro conjI; rule valid_string_ascii; simp add: byte_def)
  moreover have "list_all valid_string [''failure_reason'', ''outcome'', ''produced_record_ids'', ''substrate_ref'',
      ''target_record_ids'', ''world_side_anchors'']"
    by (simp only: list.pred_inject simp_thms, intro conjI; rule valid_string_ascii; simp add: byte_def)
  ultimately have "\<exists>j. materializationReceiptJSON ?lib sample_materialization = Inr j"
    by (simp add: materializationReceiptJSON_def receipt_value_def sample_materialization_def sorted_receipt_fields
        NonNilStrings_def NonNilAnchors_def of_strings_def of_gmap_def check_string_def MaterializationSuccess_def sorted_fields_sorted)
  moreover have none: "find_ledger (Db ?s) ''m1'' = None" by (simp add: find_ledger_def empty_db_def)
  ultimately obtain s' where s': "RecordCompletedMaterialization None ?lib ''m1'' ''d1'' sample_materialization ?s = (Inr (), s')"
    by (auto simp: RecordCompletedMaterialization_def)
  from first_completion_decides[OF this none] s' show ?thesis
    by (auto simp: sample_materialization_def MaterializationSuccess_def)
qed

text \<open>C37: A persisted checkpoint is recovered: loading gives it back with its scope, its sequence number
  (all 64 bits of it), its snapshot and creation time, and a state of the same digest, beside
  the other checkpoints as they were; a checkpoint of the same id is replaced.  The snapshot may
  have any length: the limit of the store is not enforced here.\<close>

theorem persisted_checkpoint_recovered:
  assumes "PersistCheckpointBlob None i scope n ws snapshot t s = (Inr (), s')" "storable (state_value ws)"
    and "LoadCheckpointBlobs None s = Inr (before, corrupt)"
  shows "\<exists>b bs corrupt'. LoadCheckpointBlobs None s' = Inr (bs, corrupt') \<and> b \<in> set bs
    \<and> ScopeID b = scope \<and> CkSeq b = n \<and> CkSnapshot b = elems snapshot \<and> CreatedAt b = t
    \<and> WorkspaceState_Digest lib (CkState b) = WorkspaceState_Digest lib ws
    \<and> set bs = insert b (set (filter (\<lambda>b. CheckpointID b \<noteq> i) before)) \<and> CheckpointID b = i"
proof -
  obtain j where j: "json_marshal (state_value ws) = Inr j"
    using assms(1) by (auto simp: PersistCheckpointBlob_def split: sum.splits)
  let ?row = "\<lparr>SnapID = i, SnapScope = scope, SnapSeq = sint n, SnapState = Some j, SnapBytes = elems snapshot, SnapCreated = t\<rparr>"
  let ?rows = "filter (\<lambda>r. SnapID r \<noteq> i) (Snapshots (Db s)) @ [?row]"
  have s': "Snapshots (Db s') = ?rows" using assms(1) j by (auto simp: PersistCheckpointBlob_def)
  from state_decodes[OF j] assms(2) obtain ws' where ws': "stateFromJSON (Some j) = Inr ws'"
    "WorkspaceState_Digest lib ws' = WorkspaceState_Digest lib ws" by blast
  let ?b = "\<lparr>CheckpointID = i, ScopeID = scope, CkSeq = n, CkState = ws', CkSnapshot = elems snapshot, CreatedAt = t\<rparr>"
  have b: "blob_of ?row = Some ?b" by (simp add: blob_of_def ws'(1))
  have set_load: "set (List.map_filter blob_of (sort_key SnapCreated rs)) = {b. \<exists>r\<in>set rs. blob_of r = Some b}" for rs
    by (force simp: List.map_filter_def)
  have id_of: "CheckpointID b = SnapID r" if "blob_of r = Some b" for r b
    using that by (auto simp: blob_of_def split: sum.splits)
  have before: "before = List.map_filter blob_of (sort_key SnapCreated (Snapshots (Db s)))"
    using assms(3) by (simp add: LoadCheckpointBlobs_def load_blobs)
  have "{b. \<exists>r\<in>set ?rows. blob_of r = Some b} = insert ?b (set (filter (\<lambda>b. CheckpointID b \<noteq> i) before))"
    unfolding before set_filter set_load using b id_of by fastforce
  then have "set (List.map_filter blob_of (sort_key SnapCreated ?rows)) = insert ?b (set (filter (\<lambda>b. CheckpointID b \<noteq> i) before))"
    unfolding set_load .
  moreover have "\<exists>c. LoadCheckpointBlobs None s' = Inr (List.map_filter blob_of (sort_key SnapCreated ?rows), c)"
    by (simp only: LoadCheckpointBlobs_def load_blobs option.case s' append_Nil) blast
  ultimately show ?thesis using ws'(2) by (intro exI[of _ ?b]) auto
qed

definition sample_state :: WorkspaceState where
  "sample_state = \<lparr>WsBackend = ''git'', WsRevision = [], WsData = None\<rparr>"

text \<open>A snapshot one byte over the default limit, with the largest sequence number.\<close>

theorem persisted_checkpoint_recovered_witness:
  "\<exists>s' bs c b. PersistCheckpointBlob None ''c1'' ''s1'' (- 1) sample_state (Some (replicate 1048577 CHR ''x'')) 5
      \<lparr>Db = empty_db, Bus = None, BlobLimit = 0\<rparr> = (Inr (), s')
    \<and> LoadCheckpointBlobs None s' = Inr (bs, c) \<and> b \<in> set bs \<and> CkSeq b = - 1
    \<and> int (length (CkSnapshot b)) > CheckpointBlobLimitOrDefault s'"
proof -
  let ?s = "\<lparr>Db = empty_db, Bus = None, BlobLimit = 0\<rparr>" and ?snap = "Some (replicate 1048577 CHR ''x'')"
  have "list_all valid_string [''backend'', ''data'', ''revision'', ''git'', []]"
    by (simp only: list.pred_inject simp_thms, intro conjI; rule valid_string_ascii; simp add: byte_def)
  then have st: "storable (state_value sample_state)" by (simp add: state_value_def sample_state_def of_gmap_def)
  obtain j where "json_marshal (state_value sample_state) = Inr j"
    by (simp add: state_value_def sample_state_def of_gmap_def sorted_state_fields)
  then obtain s' where s': "PersistCheckpointBlob None ''c1'' ''s1'' (- 1) sample_state ?snap 5 ?s = (Inr (), s')" "BlobLimit s' = 0"
    by (simp add: PersistCheckpointBlob_def)
  have "LoadCheckpointBlobs None ?s = Inr ([], [])" by (simp add: LoadCheckpointBlobs_def empty_db_def)
  from persisted_checkpoint_recovered[OF s'(1) st this] obtain b bs c where
    b: "LoadCheckpointBlobs None s' = Inr (bs, c)" "b \<in> set bs" "CkSeq b = - 1" "CkSnapshot b = elems ?snap" by blast
  have "length (elems ?snap) = 1048577" by (simp only: elems_simps length_replicate)
  with b(4) have "int (length (CkSnapshot b)) > CheckpointBlobLimitOrDefault s'"
    using s'(2) by (simp add: CheckpointBlobLimitOrDefault_def DefaultCheckpointBlobLimit_def)
  with s'(1) b show ?thesis by blast
qed

end
