(* ===== verification/Store_Steps.thy ===== *)
theory Store_Steps
  imports Frontier_Properties Store_Ledger
begin

text \<open>
  The store as a transition system: one step is one public operation that changes it, whatever
  the arguments, the clock and the outcome of the transaction.  The invariant of the database
  holds in every reachable store, and the trace tables only grow along every run.
\<close>

section \<open>Transition systems\<close>

locale invariant_system =
  fixes step :: "'s \<Rightarrow> 's \<Rightarrow> bool" and inv :: "'s \<Rightarrow> bool"
  assumes step_inv: "step s s' \<Longrightarrow> inv s \<Longrightarrow> inv s'"
begin

lemma steps_inv: "step\<^sup>*\<^sup>* s s' \<Longrightarrow> inv s \<Longrightarrow> inv s'"
  by (induction rule: rtranclp_induct) (auto intro: step_inv)

end

text \<open>A system whose states grow along every step, in some order.\<close>

locale growing_system = invariant_system step inv for step :: "'s \<Rightarrow> 's \<Rightarrow> bool" and inv :: "'s \<Rightarrow> bool" +
  fixes grows :: "'s \<Rightarrow> 's \<Rightarrow> bool"
  assumes grows_refl: "grows s s" and grows_trans: "grows s t \<Longrightarrow> grows t u \<Longrightarrow> grows s u"
    and step_grows: "step s s' \<Longrightarrow> grows s s'"
begin

lemma steps_grow: "step\<^sup>*\<^sup>* s s' \<Longrightarrow> grows s s'"
  by (induction rule: rtranclp_induct) (auto intro: grows_refl grows_trans step_grows)

end

section \<open>Steps of the store\<close>

text \<open>The owner of the witness path is the store's own: no caller appends to it.  The attached bus
  takes steps of its own.\<close>

inductive store_step :: "golib \<Rightarrow> store \<Rightarrow> store \<Rightarrow> bool" for lib where
  bus: "bus_ok b \<Longrightarrow> store_step lib s (WithBus b s)"
| limit: "store_step lib s (WithCheckpointBlobLimit n s)"
| append: "Append lib env auth batch s = (res, s') \<Longrightarrow> no_witness_owner batch \<Longrightarrow> store_step lib s s'"
| publish: "PublishFrontier lib env auth spec s = (out, s') \<Longrightarrow> frontier_publisher spec \<noteq> witnessTraceOwnerID
    \<Longrightarrow> store_step lib s s'"
| complete: "RecordCompletedMaterialization exec lib i dig receipt s = (ans, s') \<Longrightarrow> store_step lib s s'"
| forget: "DeleteMaterializationIntent exec i s = (ans, s') \<Longrightarrow> store_step lib s s'"
| persist: "PersistCheckpointBlob exec i scope n ws snapshot t s = (ans, s') \<Longrightarrow> store_step lib s s'"
| drop: "DeleteCheckpointBlob exec i s = (ans, s') \<Longrightarrow> store_step lib s s'"

inductive_cases store_stepE: "store_step lib s s'"

text \<open>A store is reachable when it comes from opening a new file.\<close>

definition new_store :: store where
  "new_store = \<lparr>Db = Content (createSchema \<lparr>Tables = [], Content = empty_db\<rparr>), Bus = None, BlobLimit = 0\<rparr>"

definition reachable :: "golib \<Rightarrow> store \<Rightarrow> bool" where
  "reachable lib s \<longleftrightarrow> (store_step lib)\<^sup>*\<^sup>* new_store s"

section \<open>What one operation does to the database\<close>

lemma Append_db:
  assumes "Append lib env auth batch s = (res, s')"
  shows "Db s' = Db s \<or> (\<exists>r new. appendInTx lib (append_operation_context auth OpAppend) batch (Db s) = Inr ((r, new), Db s'))"
proof (cases "appendInTx lib (append_operation_context auth OpAppend) batch (Db s)")
  case (Inl e)
  with assms show ?thesis by (auto simp: Append_def Let_def split: sum.splits option.splits)
next
  case (Inr x)
  obtain r new d where x: "x = ((r, new), d)" by (cases x) auto
  have "Db s' = Db s \<or> Db s' = d"
    using assms Inr x by (auto simp: Append_def Let_def publish_db split: sum.splits option.splits if_splits dest!: publish_db)
  with Inr x show ?thesis by blast
qed

lemma Append_bus:
  assumes "Append lib env auth batch s = (res, s')" "\<forall>b. Bus s = Some b \<longrightarrow> bus_ok b"
  shows "\<forall>b. Bus s' = Some b \<longrightarrow> bus_ok b"
proof -
  have p: "\<forall>b. Bus s'' = Some b \<longrightarrow> bus_ok b" if "publishAppendEvents batch r now (s\<lparr>Db := d\<rparr>) = Inr s''" for r now d s''
  proof (cases "Bus s")
    case None
    with that show ?thesis by (auto simp: publishAppendEvents_def)
  next
    case (Some b)
    then obtain b' where "foldR (\<lambda>b e. Publish e b) b (append_events batch r now) = Inr b'" "bus_ok b'"
      using publish_events_loop[of b "append_events batch r now" "[]"] assms(2) by blast
    with that Some show ?thesis by (auto simp: publishAppendEvents_def)
  qed
  have "Bus s' = Bus s \<or> (\<exists>r now d. publishAppendEvents batch r now (s\<lparr>Db := d\<rparr>) = Inr s')"
    using assms(1) by (auto simp: Append_def Let_def split: sum.splits option.splits if_splits)
  with p assms(2) show ?thesis by metis
qed

lemma appendInTx_inv:
  assumes "appendInTx lib ctx batch d = Inr ((r, new), d')" "db_ok d" "witnessed d" "root_unique lib" "no_witness_owner batch"
  shows "db_ok d' \<and> witnessed d'"
proof (cases "find_intent d (AppendIntentID batch)")
  case None
  with assms(1) obtain dig cs ws fs where w: "validateBatchShape batch = Inr ()" "prepareAppend lib d batch ctx = Inr (cs, ws, fs, r)"
    "write_append batch dig (cs, ws, fs, r) d = Inr d'"
    by (auto simp: appendInTx_def bindR_eq_Inr)
  from write_append_ok[OF w(2,1,3) assms(2,4,5)] write_append_witnessed[OF w(2,3) assms(3,4)] show ?thesis by blast
next
  case (Some row)
  with assms(1) have "d' = d" by (auto simp: appendInTx_def bindR_eq_Inr split: if_splits)
  with assms(2,3) show ?thesis by simp
qed

lemma index_frontier_db: "index_frontier f intent d = Inr (f', d') \<Longrightarrow> \<exists>fs. d' = d\<lparr>Frontiers := fs\<rparr>"
  by (auto simp: index_frontier_def bindR_eq_Inr insert_frontier_def split: sum.splits if_splits intro: exI[of _ "Frontiers d"])

lemma publishFrontierInTx_inv:
  assumes "publishFrontierInTx lib ctx spec d = Inr (f, d')" "db_ok d" "witnessed d" "root_unique lib"
    and "frontier_publisher spec \<noteq> witnessTraceOwnerID"
  shows "db_ok d' \<and> witnessed d'"
  using assms(1)
proof (cases rule: publishFrontierInTx_Inr)
  case (1 through view receipt isNew d1 i rest)
  have "no_witness_owner (frontier_batch ctx spec (ViewOrdinal view))" using assms(5) frontier_batch_fields(3) by blast
  from appendInTx_inv[OF 1(5) assms(2-4) this] index_frontier_db[OF 1(7)] show ?thesis by auto
qed

lemma PublishFrontier_db:
  assumes "PublishFrontier lib env auth spec s = (res, s')"
  shows "s' = s \<or> (\<exists>f d'. publishFrontierInTx lib (append_operation_context auth OpPublishCut) spec (Db s) = Inr (f, d') \<and> s' = s\<lparr>Db := d'\<rparr>)"
  using assms by (auto simp: PublishFrontier_def Let_def split: sum.splits option.splits)

lemma side_tables_db:
  "db_ok (d\<lparr>Ledger := l\<rparr>) = db_ok d" "witnessed (d\<lparr>Ledger := l\<rparr>) = witnessed d"
  "db_ok (d\<lparr>Snapshots := n\<rparr>) = db_ok d" "witnessed (d\<lparr>Snapshots := n\<rparr>) = witnessed d"
  by (simp_all add: db_ok_def owner_ok_def owner_entries_def nextOwnerOrdinalTx_def witnessed_def is_witness_id_def)

text \<open>The operations on the side tables leave the trace tables alone.\<close>

lemma side_operations:
  "RecordCompletedMaterialization exec lib i dig receipt s = (r, s') \<Longrightarrow> \<exists>l. s' = s\<lparr>Db := (Db s)\<lparr>Ledger := l\<rparr>\<rparr>"
  "DeleteMaterializationIntent exec i s = (r, s') \<Longrightarrow> \<exists>l. s' = s\<lparr>Db := (Db s)\<lparr>Ledger := l\<rparr>\<rparr>"
  "PersistCheckpointBlob exec i scope n ws snapshot t s = (r, s') \<Longrightarrow> \<exists>l. s' = s\<lparr>Db := (Db s)\<lparr>Snapshots := l\<rparr>\<rparr>"
  "DeleteCheckpointBlob exec i s = (r, s') \<Longrightarrow> \<exists>l. s' = s\<lparr>Db := (Db s)\<lparr>Snapshots := l\<rparr>\<rparr>"
proof -
  have l: "\<exists>l. s = s\<lparr>Db := (Db s)\<lparr>Ledger := l\<rparr>\<rparr>" for s :: store by (rule exI[of _ "Ledger (Db s)"]) simp
  have n: "\<exists>l. s = s\<lparr>Db := (Db s)\<lparr>Snapshots := l\<rparr>\<rparr>" for s :: store by (rule exI[of _ "Snapshots (Db s)"]) simp
  show "RecordCompletedMaterialization exec lib i dig receipt s = (r, s') \<Longrightarrow> \<exists>l. s' = s\<lparr>Db := (Db s)\<lparr>Ledger := l\<rparr>\<rparr>"
    by (auto simp: RecordCompletedMaterialization_def intro: l split: sum.splits option.splits if_splits)
  show "DeleteMaterializationIntent exec i s = (r, s') \<Longrightarrow> \<exists>l. s' = s\<lparr>Db := (Db s)\<lparr>Ledger := l\<rparr>\<rparr>"
    by (auto simp: DeleteMaterializationIntent_def intro: l split: option.splits)
  show "PersistCheckpointBlob exec i scope n ws snapshot t s = (r, s') \<Longrightarrow> \<exists>l. s' = s\<lparr>Db := (Db s)\<lparr>Snapshots := l\<rparr>\<rparr>"
    by (auto simp: PersistCheckpointBlob_def intro: n split: sum.splits option.splits)
  show "DeleteCheckpointBlob exec i s = (r, s') \<Longrightarrow> \<exists>l. s' = s\<lparr>Db := (Db s)\<lparr>Snapshots := l\<rparr>\<rparr>"
    by (auto simp: DeleteCheckpointBlob_def intro: n split: option.splits)
qed

section \<open>The invariant\<close>

definition store_inv :: "golib \<Rightarrow> store \<Rightarrow> bool" where
  "store_inv lib s \<longleftrightarrow> root_unique lib \<and> db_ok (Db s) \<and> witnessed (Db s) \<and> (\<forall>b. Bus s = Some b \<longrightarrow> bus_ok b)"

lemma store_step_inv:
  assumes "store_step lib s s'" "store_inv lib s"
  shows "store_inv lib s'"
proof -
  from assms(2) have inv: "root_unique lib" "db_ok (Db s)" "witnessed (Db s)" "\<forall>b. Bus s = Some b \<longrightarrow> bus_ok b"
    unfolding store_inv_def by blast+
  show ?thesis
    using assms(1)
  proof cases
    case (append env auth batch res)
    have "db_ok (Db s') \<and> witnessed (Db s')"
      using Append_db[OF append(1)]
    proof
      assume "Db s' = Db s"
      then show ?thesis using inv by (simp only: simp_thms)
    next
      assume "\<exists>r new. appendInTx lib (append_operation_context auth OpAppend) batch (Db s) = Inr ((r, new), Db s')"
      then show ?thesis using appendInTx_inv inv append(2) by blast
    qed
    with Append_bus[OF append(1) inv(4)] inv(1) show ?thesis unfolding store_inv_def by blast
  next
    case (publish env auth spec res)
    from PublishFrontier_db[OF publish(1)] show ?thesis
    proof
      assume "\<exists>f d'. publishFrontierInTx lib (append_operation_context auth OpPublishCut) spec (Db s) = Inr (f, d') \<and> s' = s\<lparr>Db := d'\<rparr>"
      then obtain f d' where "publishFrontierInTx lib (append_operation_context auth OpPublishCut) spec (Db s) = Inr (f, d')" "s' = s\<lparr>Db := d'\<rparr>"
        by blast
      with publishFrontierInTx_inv[OF this(1) inv(2,3,1) publish(2)] inv show ?thesis by (simp add: store_inv_def)
    qed (use assms(2) in blast)
  qed (use inv side_operations in \<open>fastforce simp: store_inv_def WithBus_def WithCheckpointBlobLimit_def side_tables_db\<close>)+
qed

lemma store_step_extends:
  assumes "store_step lib s s'"
  shows "extends (Db s) (Db s')"
  using assms
proof cases
  case (append env auth batch res)
  from Append_db[OF append(1)] show ?thesis using appendInTx_extends by fastforce
next
  case (publish env auth spec res)
  from PublishFrontier_db[OF publish(1)] show ?thesis using publishFrontierInTx_extends by fastforce
qed (use side_operations in \<open>fastforce simp: extends_def WithBus_def WithCheckpointBlobLimit_def\<close>)+

interpretation kernel: growing_system "store_step lib" "store_inv lib" "\<lambda>s s'. extends (Db s) (Db s')"
  by unfold_locales (auto intro: store_step_inv store_step_extends extends_trans)

lemma new_store_inv: "root_unique lib \<Longrightarrow> store_inv lib new_store"
  using empty_db_ok
  by (simp add: store_inv_def new_store_def createSchema_def empty_db_def witnessed_def db_ok_def owner_ok_def owner_entries_def
      nextOwnerOrdinalTx_def)

lemma reachable_inv: "reachable lib s \<Longrightarrow> root_unique lib \<Longrightarrow> store_inv lib s"
  unfolding reachable_def using kernel.steps_inv new_store_inv by blast

section \<open>Consequences\<close>

text \<open>Parents are retained before their children, so causality has no cycle.\<close>

lemma causes_acyclic:
  assumes "db_ok d"
  shows "acyclic (causes d)"
proof -
  let ?rs = "Records d"
  define idx where "idx i = length (takeWhile (\<lambda>r. RowID r \<noteq> i) ?rs)" for i
  have rows: "rows_ok {} ?rs" using assms by (simp add: db_ok_def)
  have "idx p < idx c" if pc: "(p, c) \<in> causes d" for p c
  proof -
    obtain r where r: "r \<in> set ?rs" "RowID r = c" "p \<in> set (elems (jsonToStrings (RowCausedBy r)))"
      using pc by (auto simp: causes_def)
    then obtain before after where sp: "?rs = before @ r # after" by (meson split_list)
    then have b: "row_ok (RowID ` set before) r" "c \<notin> RowID ` set before" using rows r(2) by (simp_all add: rows_ok_append)
    then have "p \<in> RowID ` set before" using r(3) by (auto simp: row_ok_def)
    then have "\<exists>x\<in>set before. RowID x = p" by auto
    from split_list_first_prop[OF this] obtain b1 q b2 where b12: "before = b1 @ q # b2" "RowID q = p" "\<forall>x\<in>set b1. RowID x \<noteq> p"
      by blast
    have "idx p = length b1" using b12 by (simp add: idx_def sp takeWhile_append2)
    moreover have "idx c = length before"
    proof -
      have "\<forall>x\<in>set before. RowID x \<noteq> c" using b(2) by (metis image_eqI)
      then have "takeWhile (\<lambda>r. RowID r \<noteq> c) ?rs = before" using r(2) by (simp add: sp takeWhile_append2)
      then show ?thesis by (simp add: idx_def)
    qed
    ultimately show ?thesis using b12 by simp
  qed
  then have "causes d \<subseteq> inv_image less_than idx" by (auto simp: inv_image_def)
  then show ?thesis by (meson wf_acyclic wf_inv_image wf_less_than wf_subset)
qed

lemma extends_owner_log: "extends d d' \<Longrightarrow> \<exists>ids. owner_log d' ow = owner_log d ow @ ids"
  by (auto simp: extends_def owner_log_def owner_entries_def)

text \<open>The prefix a frontier names.\<close>

lemma cut_entries_length:
  assumes "db_ok d" "cut_entry d f"
  shows "0 \<le> ThroughOwnerOrdinal f" "nat (ThroughOwnerOrdinal f + 1) \<le> length (owner_entries d (TargetTraceOwnerID f))"
    "PathRecord (last (cut_entries d f)) = ThroughFactID f" "cut_entries d f \<noteq> []"
proof -
  let ?es = "owner_entries d (TargetTraceOwnerID f)" and ?n = "ThroughOwnerOrdinal f"
  obtain p where p: "p \<in> set (PathEntries d)" "PathRecord p = ThroughFactID f" "PathRef p = TargetTraceOwnerID f" "PathOrdinal p = ?n"
    using assms(2) by (auto simp: cut_entry_def)
  have es: "map PathOrdinal ?es = run_from 0 (length ?es)" "nextOwnerOrdinalTx d (TargetTraceOwnerID f) = int (length ?es)"
    using assms(1) by (simp_all add: db_ok_def owner_ok_def)
  note entry_ordinal[OF assms(1) p(1)]
  then have n: "0 \<le> ?n" "?n < int (length ?es)" using es(2) p(3,4) by simp_all
  then show "0 \<le> ?n" "nat (?n + 1) \<le> length ?es" by linarith+
  then show ne: "cut_entries d f \<noteq> []" using n by (auto simp: cut_entries_def)
  have k: "nat ?n < length ?es" "nat (?n + 1) = Suc (nat ?n)" using n by linarith+
  have "last (cut_entries d f) = ?es ! nat ?n"
    using k by (simp add: cut_entries_def take_Suc_conv_app_nth)
  moreover have "PathOrdinal (?es ! nat ?n) = ?n"
    using arg_cong[OF es(1), of "\<lambda>xs. xs ! nat ?n"] k(1) n(1) by (simp add: run_from_def)
  moreover have "?es ! nat ?n \<in> set ?es" using k(1) by simp
  then have "?es ! nat ?n \<in> set (PathEntries d)" "PathRef (?es ! nat ?n) = TargetTraceOwnerID f" by (auto simp: owner_entries_def)
  ultimately have "last (cut_entries d f) = p" using entries_keyed[OF assms(1) _ p(1)] p(3,4) by metis
  then show "PathRecord (last (cut_entries d f)) = ThroughFactID f" by (simp add: p(2))
qed

lemma cut_entries_stable:
  assumes "extends d d'" "db_ok d" "cut_entry d f"
  shows "cut_entries d' f = cut_entries d f" "cut_entry d' f"
proof -
  obtain ps where "owner_entries d' (TargetTraceOwnerID f) = owner_entries d (TargetTraceOwnerID f) @ ps"
    "set (PathEntries d) \<subseteq> set (PathEntries d')" using extends_entries[OF assms(1)] by blast
  then show "cut_entries d' f = cut_entries d f" "cut_entry d' f"
    using cut_entries_length(2)[OF assms(2,3)] assms(3) by (auto simp: cut_entries_def cut_entry_def)
qed

lemma cut_slice_ids:
  "slice_fact_ids (slice_of d fr vis m True (entry_facts d m (cut_entries d f)) support)
    = map PathRecord (filter (\<lambda>p. modeMatches (entry_fact d p) m) (cut_entries d f))"
proof -
  have one: "\<forall>(pe, r)\<in>set (entry_facts d m (cut_entries d f)). peRef pe = TargetTraceOwnerID f"
    using set_take_subset[of _ "owner_entries d (TargetTraceOwnerID f)"]
    by (fastforce simp: entry_facts_def cut_entries_def owner_entries_def entry_of_row_def dest: in_set_takeD)
  show ?thesis unfolding slice_of_ids slice_ids_one_path[OF one] by (simp add: entry_facts_def comp_def entry_of_row_def)
qed

lemma loaded_facts:
  "spFacts (loaded_parts d vis inc l) = fold (\<lambda>(pe, r). AList.update (peRecord pe) (visibleFact r vis)) l []"
proof -
  have "spFacts (fold (add_fact d vis inc sel) l sp) = fold (\<lambda>(pe, r). AList.update (peRecord pe) (visibleFact r vis)) l (spFacts sp)" for sel sp
    by (induction l arbitrary: sp) (auto simp: add_fact_def)
  then show ?thesis by (simp add: loaded_parts_def no_parts_def)
qed

end
