(* ===== verification/Frontier_Scenario.thy ===== *)
theory Frontier_Scenario
  imports Append_Progress Store_Steps
begin

text \<open>
  A second scenario, from the store the first one leaves: an owner publishes a frontier through
  its only fact.  The publication succeeds, writes one record and one row of the index, and is
  fresh, so the laws of frontiers apply to it.
\<close>

section \<open>The publication\<close>

definition cut_spec :: "string \<Rightarrow> FrontierSpec" where
  "cut_spec i = \<lparr>SpecFrontierID = ''f1'', SpecTargetOwnerID = ''alice'', SpecThroughFactID = i, SpecPublisherOwnerID = [],
    SpecAppendIntentID = [], SpecCausedBy = None\<rparr>"

definition cut_auth :: AppendContext where
  "cut_auth = TrustedAppendContext\<lparr>AppendWitnessRefs := None\<rparr>"

abbreviation cut_ctx :: OperationContext where
  "cut_ctx \<equiv> append_operation_context cut_auth OpPublishCut"

abbreviation cut_batch :: "string \<Rightarrow> AppendBatch" where
  "cut_batch i \<equiv> frontier_batch cut_ctx (cut_spec i) 0"

definition cut_group :: "string \<Rightarrow> AppendGroup" where
  "cut_group i = \<lparr>TraceOwnerID = ''alice'',
    GroupContext = Some \<lparr>ContextID = ''ctx:frontier:f1:frontier'', ActiveBindingRefs = None, CapabilityWitnessRefs = None,
      SemanticEnvironmentRefs = Some [''shepherd2-slice-a''], VisibilityPolicyRefs = None,
      SubstrateRef = ''sqlite.local.v1'', Containment = ContainContained\<rparr>,
    CausalParents = Some [i], FactDrafts = Some [frontier_draft (cut_spec i) 0]\<rparr>"

lemma cut_ctx_fields: "ActorRef cut_ctx = ''runtime:internal''" "SchemaEnvironmentRef cut_ctx = ''shepherd2-slice-a''"
  "PresentedAuthorityRefs cut_ctx = None"
  by (simp_all add: append_operation_context_def TrustedAppendContext_def cut_auth_def)

lemma cut_names: "frontier_intent (cut_spec i) = ''frontier:f1''" "frontier_publisher (cut_spec i) = ''alice''"
  "SpecFrontierID (cut_spec i) = ''f1''" "SpecTargetOwnerID (cut_spec i) = ''alice''" "SpecThroughFactID (cut_spec i) = i"
  by (simp_all add: cut_spec_def frontier_intent_def frontier_publisher_def)

lemma cut_batch_eq: "cut_batch i = \<lparr>AppendIntentID = ''frontier:f1'', Groups = Some [cut_group i]\<rparr>"
  by (simp add: frontier_batch_def cut_names cut_ctx_fields cut_group_def) (simp add: cut_spec_def)

lemma cut_strings: "list_all valid_string [''frontier:f1'', ''ctx:frontier:f1:frontier'', ''frontier_published'',
    ''shepherd2.frontier.owner_cutoff.v1'', ''frontier_id'', ''f1'', ''target_trace_owner_id'', ''through_fact_id'',
    ''through_owner_ordinal'', ''publisher_trace_owner_id'']"
  by (simp only: list.pred_inject simp_thms, intro conjI; rule valid_string_ascii; simp add: byte_def)

lemmas cut_valid_strings = demo_valid_strings cut_strings[unfolded list.pred_inject simp_thms]

lemma plain_marshal:
  "plain v \<Longrightarrow> \<exists>j. json_marshal v = Inr j"
  "list_all plain vs \<Longrightarrow> \<exists>js. marshal_items vs = Inr js"
  "list_all (\<lambda>(k, v). valid_string k \<and> plain v) kvs \<Longrightarrow> \<exists>js. marshal_fields kvs = Inr js"
proof (induction v and vs and kvs rule: json_marshal_marshal_items_marshal_fields.induct)
  case (9 kvs)
  then have "list_all (\<lambda>(k, v). valid_string k \<and> plain v) (sorted_fields kvs)" by (simp add: sorted_fields_def list_all_iff)
  with 9 show ?case by fastforce
qed fastforce+

lemma cut_payload_plain: "valid_string i \<Longrightarrow> plain (VMap (elems (frontier_payload (cut_spec i) 0)))"
  using cut_valid_strings by (simp add: frontier_payload_def cut_names)

lemma cut_valid:
  assumes "valid_string i"
  shows "ensureAppendAuthorized cut_ctx = Inr ()" "validateBatchShape (cut_batch i) = Inr ()"
proof -
  show "ensureAppendAuthorized cut_ctx = Inr ()"
    by (simp add: ensureAppendAuthorized_def append_operation_context_def TrustedAppendContext_def cut_auth_def)
  obtain j where "json_marshal (of_gmap (frontier_payload (cut_spec i) 0)) = Inr j"
    using plain_marshal(1)[OF cut_payload_plain[OF assms]] by (auto simp: frontier_payload_def of_gmap_def)
  then show "validateBatchShape (cut_batch i) = Inr ()"
    unfolding cut_batch_eq
    by (simp add: validateBatchShape_def validate_draft_def resolveSchemaRef_def cut_group_def frontier_draft_def json_text_def)
qed

lemma cut_digest:
  assumes "valid_string i"
  shows "\<exists>dig. batchDigest lib (cut_batch i) cut_ctx = Inr dig"
proof -
  have "\<exists>p. batch_document (cut_batch i) cut_ctx = Inr p \<and> plain p"
    using cut_valid_strings assms cut_payload_plain[OF assms] unfolding cut_batch_eq
    by (simp add: batch_document_def group_document_def draft_document_def resolveSchemaRef_def cut_group_def frontier_draft_def
        cut_ctx_fields contextDraftJSON_def ContainContained_def Capture_def NonNilStrings_def
        nullableString_def of_gmap_def of_strings_def) (simp add: frontier_payload_def)
  then obtain p where p: "batch_document (cut_batch i) cut_ctx = Inr p" "plain p" by blast
  then show ?thesis using plain_bytes[of p lib True]
    by (auto simp: batchDigest_def canonical_json_ascii_bytes_def)
qed

section \<open>Its ids\<close>

text \<open>The payload of the first context under another intent: a new context id, as long as the first
  bytes of the two intents differ.\<close>

lemma second_context:
  assumes ids: "demo_ids demo_lib c wp i" and n: "byte x mod 16 \<noteq> byte (CHR ''i'') mod 16"
    and p: "contextPayload dr ctx = contextPayload defaultContextDraft demo_ctx"
  shows "\<exists>c2. resolve_draft demo_lib (demo_db demo_lib dig c wp i) (x # xs) 0 ctx dr = Inr (demo_context c2) \<and> c2 \<noteq> c"
proof -
  let ?p = "contextPayload defaultContextDraft demo_ctx"
  have r: "resolve_draft demo_lib (Db demo_store) ''intent-1'' 0 demo_ctx defaultContextDraft = Inr (demo_context c)"
    using ids by (simp add: demo_ids_def resolveGroupContextTx_def demo_group_def)
  then obtain t where t: "canonical_json_ascii_bytes demo_lib (context_document ?p) = Inr t"
    by (auto simp: resolve_draft_def contextIDFor_def bindR_eq_Inr Let_def)
  let ?id = "\<lambda>intent. ''context:'' @ take 32 (hex (context_preimage intent 0 t))"
  have c: "c = ?id ''intent-1''"
    using r t by (simp add: resolve_draft_def contextIDFor_def readContextTx_def find_context_def demo_defs demo_context_def
        contextPayload_def Let_def demo_lib_def)
  have second: "take 32 (hex (x # xs)) ! 1 = hex_digit (byte x mod 16)" for x xs by simp
  have ne: "?id (x # xs) \<noteq> c"
  proof
    assume "?id (x # xs) = c"
    then have "take 32 (hex (context_preimage (x # xs) 0 t)) = take 32 (hex (context_preimage ''intent-1'' 0 t))"
      unfolding c by (simp only: append_same_eq same_append_eq)
    then have "hex_digit (byte x mod 16) = hex_digit (byte (CHR ''i'') mod 16)"
      unfolding context_preimage_def append_Cons by (metis second)
    then show False using n by (simp add: hex_digit_inject)
  qed
  have "resolve_draft demo_lib (demo_db demo_lib dig c wp i) (x # xs) 0 ctx dr = Inr (demo_context (?id (x # xs)))"
    using t ne by (simp add: p resolve_draft_def contextIDFor_def Let_def readContextTx_def
        find_context_def demo_db_def context_row_of_def demo_context_def demo_lib_def)
  with ne show ?thesis by blast
qed

lemma cut_context:
  assumes "demo_ids demo_lib c wp i"
  shows "\<exists>c2. resolveGroupContextTx demo_lib (demo_db demo_lib dig c wp i) ''frontier:f1'' 0 (cut_group i) cut_ctx = Inr (demo_context c2)
    \<and> c2 \<noteq> c"
proof -
  have p: "contextPayload (the (GroupContext (cut_group i))) cut_ctx = contextPayload defaultContextDraft demo_ctx"
    by (simp add: contextPayload_def cut_group_def cut_ctx_fields demo_ctx_fields defaultContextDraft_def deduplicate_def dedup_loop.simps)
  have "byte (CHR ''f'') mod 16 \<noteq> byte (CHR ''i'') mod 16" by (simp add: byte_def)
  from second_context[OF assms this p, of dig] show ?thesis by (simp add: resolveGroupContextTx_def cut_group_def)
qed

lemma cut_witness:
  assumes "demo_ids lib c wp i"
  shows "ordinaryWitnessPlan lib (demo_context c2) cut_ctx = Inr wp"
proof -
  have "ordinary_body (demo_context c2) cut_ctx = ordinary_body (demo_context c) demo_ctx"
    by (simp add: ordinary_body_def cut_ctx_fields demo_ctx_fields demo_context_def)
  then show ?thesis using assms by (simp add: demo_ids_def ordinaryWitnessPlan_def)
qed

lemma cut_record:
  assumes "demo_ids lib c wp i" "lib_ok lib" "inj (sha256 lib)"
  shows "\<exists>i2. RecordDigest lib ''shepherd2.frontier.owner_cutoff.v1'' Capture (frontier_payload (cut_spec i) 0) [i] (planID wp) = Inr i2
    \<and> i2 \<noteq> RootWitnessRecordIDMust lib \<and> i2 \<noteq> planID wp \<and> i2 \<noteq> i"
proof -
  note ids = assms(1)[unfolded demo_ids_def]
  have w: "valid_string (planID wp)" "has_prefix (planID wp) ''sha256:''"
    using ids ordinaryWitnessPlan_Inr(6) digest_valid RecordDigest_prefix by blast+
  have i: "valid_string i" using ids digest_valid by blast
  have "\<exists>i2. RecordDigest lib ''shepherd2.frontier.owner_cutoff.v1'' Capture (frontier_payload (cut_spec i) 0) [i] (planID wp) = Inr i2"
    using cut_payload_plain[OF i] i w cut_valid_strings by (intro RecordDigest_plain) (simp_all add: RootWitnessSchemaRef_def)
  then obtain i2 where i2: "RecordDigest lib ''shepherd2.frontier.owner_cutoff.v1'' Capture (frontier_payload (cut_spec i) 0) [i] (planID wp) = Inr i2"
    by blast
  have ok: "gval_ok (VMap (elems (frontier_payload (cut_spec i) 0)))" by (rule plain_ok[OF cut_payload_plain[OF i]])
  have sch: "\<not> is_witness_schema ''shepherd2.frontier.owner_cutoff.v1''"
    by (simp add: is_witness_schema_def RootWitnessSchemaRef_def WitnessSchemaRef_def)
  have "plan_ok lib (rootWitnessPlan lib)" "plan_ok lib wp" using ids by (auto simp: plan_ok_def)
  then have "planID (rootWitnessPlan lib) \<noteq> i2" "planID wp \<noteq> i2" using witness_ids_apart[OF assms(2,3) i2 ok sch] by blast+
  moreover have "i2 \<noteq> i"
  proof
    assume e: "i2 = i"
    have inj: "inj_on (sha256 lib) A" for A using assms(3) by (rule inj_on_subset) simp
    have "RecordDigest lib ''note.v1'' ''capture'' (Some [(''done'', VBool True)]) [] (planID wp) = Inr i2" using ids e by blast
    from RecordDigest_inject[OF assms(2) ok _ i2 this inj] show False by simp
  qed
  ultimately show ?thesis using i2 by (auto simp: rootWitnessPlan_def)
qed

section \<open>Its transaction\<close>

definition cut_record_of :: "string \<Rightarrow> witnessPlan \<Rightarrow> string \<Rightarrow> string \<Rightarrow> Record" where
  "cut_record_of c2 wp i i2 = draft_record (cut_group i) (demo_context c2) wp (frontier_draft (cut_spec i) 0)
    ''shepherd2.frontier.owner_cutoff.v1'' [i] i2 1"

definition cut_receipt :: "string \<Rightarrow> string \<Rightarrow> string \<Rightarrow> AppendReceipt" where
  "cut_receipt c2 i i2 = \<lparr>ReceiptIntentID = ''frontier:f1'', FactIDs = [i2], CommitReceipts = [commit_receipt 1],
    OwnerRanges = [(''alice'', 1, 1)], CausalEdges = [(i, i2)], ContextReceipts = [c2]\<rparr>"

lemma demo_db_tables:
  "RowID ` set (Records (demo_db lib dig c wp i)) = {RootWitnessRecordIDMust lib, planID wp, i}"
  "RecordEdges (demo_db lib dig c wp i) = []" "Frontiers (demo_db lib dig c wp i) = []"
  "IntentID ` set (AppendIntents (demo_db lib dig c wp i)) = {''intent-1''}"
  "nextOwnerOrdinalTx (demo_db lib dig c wp i) ''alice'' = 1"
  by (simp_all add: demo_db_def demo_store_def empty_db_def record_row_of_def demo_record_def draft_record_def witness_fact_def
      rootWitnessPlan_def nextOwnerOrdinalTx_def witnessTraceOwnerID_def)

lemma demo_db_inv:
  assumes "demo_ids lib c wp i" "lib_ok lib" "inj (sha256 lib)" "batchDigest lib demo_batch demo_ctx = Inr dig"
  shows "db_ok (demo_db lib dig c wp i) \<and> witnessed (demo_db lib dig c wp i)"
proof (rule appendInTx_inv[OF demo_in_tx[OF assms(1,4)] demo_db_ok _ root_unique_inj[OF assms(3,2)] demo_owner])
  show "witnessed (Db demo_store)" by (simp add: witnessed_def demo_store_def empty_db_def)
qed

lemma demo_db_retains:
  assumes "demo_ids lib c wp i" "db_ok (demo_db lib dig c wp i)"
  shows "retained_plan (demo_db lib dig c wp i) (rootWitnessPlan lib)" "retained_plan (demo_db lib dig c wp i) wp"
proof -
  let ?d = "demo_db lib dig c wp i"
  note ids = assms(1)[unfolded demo_ids_def]
  have w: "RowID (record_row_of (witness_fact p k) n) = planID p" for p k n by (simp add: record_row_of_def witness_fact_def)
  have f: "find_record ?d (RootWitnessRecordIDMust lib) = Some (record_row_of (witness_fact (rootWitnessPlan lib) 0) ''intent-1'')"
    "find_record ?d (planID wp) = Some (record_row_of (witness_fact wp 1) ''intent-1'')"
    using ids by (auto simp: find_record_def demo_db_def w rootWitnessPlan_def)
  have "retained_plan ?d p" if "find_record ?d (planID p) = Some (record_row_of (witness_fact p k) n)" for p k n
    using readFactTx_total[OF assms(2) that] that
    by (auto simp: retained_plan_def factExistsTx_def witnessFactMatchesPlan_def record_row_of_def witness_fact_def)
  then show "retained_plan ?d (rootWitnessPlan lib)" "retained_plan ?d wp"
    using f by (auto simp: rootWitnessPlan_def)
qed

text \<open>What the publication stages.\<close>

lemma cut_prepare:
  assumes ids: "demo_ids demo_lib c wp i" 
    and c2: "resolveGroupContextTx demo_lib (demo_db demo_lib dig c wp i) ''frontier:f1'' 0 (cut_group i) cut_ctx = Inr (demo_context c2)"
      "c2 \<noteq> c"
    and i2: "RecordDigest demo_lib ''shepherd2.frontier.owner_cutoff.v1'' Capture (frontier_payload (cut_spec i) 0) [i] (planID wp) = Inr i2"
  shows "prepareAppend demo_lib (demo_db demo_lib dig c wp i) (cut_batch i) cut_ctx
    = Inr ([demo_context c2], [rootWitnessPlan demo_lib, wp], [cut_record_of c2 wp i i2], cut_receipt c2 i i2)"
proof -
  let ?d = "demo_db demo_lib dig c wp i"
  have b: "Groups (cut_batch i) = Some [cut_group i]" "AppendIntentID (cut_batch i) = ''frontier:f1''"
    "FactDrafts (cut_group i) = Some [frontier_draft (cut_spec i) 0]" "groupOwner (cut_group i) = ''alice''"
    unfolding cut_batch_eq by (simp_all add: cut_group_def groupOwner_def)
  have n: "NextCommitSeq ?d = Some 1" by (simp add: demo_db_def)
  have x: "ContextID (demo_context c2) = c2" "\<not> contextExistsTx ?d c2"
    using c2(2) by (auto simp: contextExistsTx_def find_context_def demo_db_def context_row_of_def demo_context_def demo_store_def)
  have w: "planID wp \<noteq> RootWitnessRecordIDMust demo_lib" using ids by (simp add: demo_ids_def)
  have dr: "CausedByFactIDs (frontier_draft (cut_spec i) 0) = None" "CausedByLocalRefs (frontier_draft (cut_spec i) 0) = None"
    "DraftSchemaRef (frontier_draft (cut_spec i) 0) = ''shepherd2.frontier.owner_cutoff.v1''"
    "DraftMode (frontier_draft (cut_spec i) 0) = Capture"
    "DraftPayload (frontier_draft (cut_spec i) 0) = frontier_payload (cut_spec i) 0" "CausalParents (cut_group i) = Some [i]"
    by (simp_all add: frontier_draft_def cut_group_def)
  have cs: "resolvedCauses (cut_group i) (frontier_draft (cut_spec i) 0) Map.empty = Inr [i]"
    by (simp add: resolvedCauses_def dr add_parent_def)
  have "i \<in> RowID ` set (Records ?d)" by (simp add: demo_db_tables)
  then have v: "validateCausalParentsTx ?d {} [i] = Inr ()" using factExistsTx_iff by (simp add: validateCausalParentsTx_def)
  note p = prepare_single[of "cut_batch i" "cut_group i" "frontier_draft (cut_spec i) 0" ?d 1 demo_lib cut_ctx "demo_context c2" wp "[i]" i2,
      unfolded b x dr, OF refl refl n c2(1) x(2) cut_witness[OF ids] w cs v _ i2]
  show ?thesis by (subst p) (simp_all add: demo_db_tables cut_record_of_def cut_receipt_def)
qed

text \<open>Writing a second record on the path of the first: it needs new ids only.\<close>

lemma second_write:
  assumes ids: "demo_ids lib c wp i" "db_ok (demo_db lib dig c wp i)" and c2: "c2 \<noteq> c"
    and i2: "i2 \<noteq> RootWitnessRecordIDMust lib" "i2 \<noteq> planID wp" "i2 \<noteq> i"
    and r: "RecordID (Envelope r) = i2" "Digest (Envelope r) = i2" "set (elems (CausedByIDs (Envelope r))) \<subseteq> {i}"
      "View r = Some \<lparr>ViewOwner = ''alice'', ViewOrdinal = 1, ViewContextRef = vc, ViewKindLabel = vk\<rparr>"
    and b: "AppendIntentID batch \<noteq> ''intent-1''" "CommitReceipts rc = [commit_receipt 1]" "OwnerRanges rc = [(''alice'', 1, 1)]"
  shows "\<exists>d'. write_append batch dg ([demo_context c2], [rootWitnessPlan lib, wp], [r], rc) (demo_db lib dig c wp i) = Inr d'
    \<and> Frontiers d' = [] \<and> i \<in> RowID ` set (Records d') \<and> i2 \<in> RowID ` set (Records d')
    \<and> AppendIntentID batch \<in> IntentID ` set (AppendIntents d')"
proof -
  let ?d = "demo_db lib dig c wp i"
  have fi: "find_intent ?d (AppendIntentID batch) = None" using b(1) by (auto simp: find_intent_def demo_db_def)
  have fc: "find_context ?d (ContextID (demo_context c2)) = None"
    using c2 by (auto simp: find_context_def demo_db_def context_row_of_def demo_context_def demo_store_def)
  have "commit_receipt 1 \<noteq> commit_receipt 0" by (simp add: commit_receipt_def itoa_def)
  moreover have "commit_receipt 1 \<noteq> ''witness:'' @ x" for x by (simp add: commit_receipt_def)
  moreover have "PathEntries ?d = [demo_entry witnessTraceOwnerID 0 (RootWitnessRecordIDMust lib) [] ''witness_root''
         (''witness:'' @ RootWitnessRecordIDMust lib),
       demo_entry witnessTraceOwnerID 1 (planID wp) [] ''witness'' (''witness:'' @ planID wp),
       demo_entry ''alice'' 0 i c ''note.v1'' (commit_receipt 0)]" by (simp add: demo_db_def)
  ultimately have p: "(''alice'', 1) \<notin> (\<lambda>p. (PathRef p, PathOrdinal p)) ` set (PathEntries ?d)"
    "commit_receipt 1 \<notin> PathCommit ` set (PathEntries ?d)"
    by (simp_all add: demo_entry_def witnessTraceOwnerID_def)
  have "writable (AppendIntentID batch) r (commit_receipt 1) (?d\<lparr>AppendIntents := AppendIntents ?d
      @ [\<lparr>IntentID = AppendIntentID batch, IntentDigest = dg, IntentReceipt = receiptToJSON rc\<rparr>]\<rparr>)"
    using i2 p subsetD[OF r(3)] by (auto simp: writable_def r(1,2,4) fact_slot_def demo_db_tables)
  with write_single[of ?d batch "demo_context c2" "[rootWitnessPlan lib, wp]" r "commit_receipt 1" dg rc "''alice''" 1]
  obtain d' where "write_append batch dg ([demo_context c2], [rootWitnessPlan lib, wp], [r], rc) ?d = Inr d'"
    "Frontiers d' = []" "Records d' = Records ?d @ [record_row_of r (AppendIntentID batch)]"
    "AppendIntentID batch \<in> IntentID ` set (AppendIntents d')"
    using fi fc demo_db_retains[OF ids] b(2,3) by (auto simp: demo_db_tables)
  moreover from this(3) have "RowID ` set (Records d') = RowID ` set (Records ?d) \<union> {i2}" by (simp add: r(1) record_row_of_def)
  ultimately show ?thesis by (auto simp: demo_db_tables)
qed

lemma cut_write:
  assumes ids: "demo_ids lib c wp i" "db_ok (demo_db lib dig c wp i)" and c2: "c2 \<noteq> c"
    and i2: "i2 \<noteq> RootWitnessRecordIDMust lib" "i2 \<noteq> planID wp" "i2 \<noteq> i"
  shows "\<exists>d'. write_append (cut_batch i) dg ([demo_context c2], [rootWitnessPlan lib, wp], [cut_record_of c2 wp i i2], cut_receipt c2 i i2)
      (demo_db lib dig c wp i) = Inr d' \<and> Frontiers d' = [] \<and> i \<in> RowID ` set (Records d') \<and> i2 \<in> RowID ` set (Records d')
    \<and> ''frontier:f1'' \<in> IntentID ` set (AppendIntents d')"
proof -
  have b: "AppendIntentID (cut_batch i) = ''frontier:f1''" by (simp add: cut_batch_eq)
  from second_write[OF ids c2 i2, of "cut_record_of c2 wp i i2" "c2" "''frontier_published''" "cut_batch i" "cut_receipt c2 i i2" dg]
  show ?thesis
    unfolding b by (simp add: cut_receipt_def cut_record_of_def draft_record_def groupOwner_def cut_group_def frontier_draft_def
        demo_context_def)
qed

definition cut_of :: "string \<Rightarrow> string \<Rightarrow> Frontier" where
  "cut_of i i2 = \<lparr>FrontierID = ''f1'', TargetTraceOwnerID = ''alice'', ThroughFactID = i, ThroughOwnerOrdinal = 0,
    PublisherOwnerID = ''alice'', CreatedByFactID = i2\<rparr>"

lemma cut_publish:
  assumes ids: "demo_ids demo_lib c wp i" "batchDigest demo_lib demo_batch demo_ctx = Inr dig"
  shows "\<exists>i2 d'. publishFrontierInTx demo_lib cut_ctx (cut_spec i) (demo_db demo_lib dig c wp i) = Inr (cut_of i i2, d')
    \<and> fresh_cut (demo_db demo_lib dig c wp i) (cut_spec i) (cut_of i i2)"
proof -
  let ?d = "demo_db demo_lib dig c wp i"
  note lib = demo_lib_ok
  have ok: "db_ok ?d" using demo_db_inv[OF ids(1) lib(1,2) ids(2)] by blast
  have vi: "valid_string i" using ids(1) digest_valid unfolding demo_ids_def by blast
  obtain c2 where c2: "resolveGroupContextTx demo_lib ?d ''frontier:f1'' 0 (cut_group i) cut_ctx = Inr (demo_context c2)" "c2 \<noteq> c"
    using cut_context[OF ids(1)] by blast
  obtain i2 where i2: "RecordDigest demo_lib ''shepherd2.frontier.owner_cutoff.v1'' Capture (frontier_payload (cut_spec i) 0) [i] (planID wp) = Inr i2"
    "i2 \<noteq> RootWitnessRecordIDMust demo_lib" "i2 \<noteq> planID wp" "i2 \<noteq> i"
    using cut_record[OF ids(1) lib(1,2)] by blast
  obtain dg where dg: "batchDigest demo_lib (cut_batch i) cut_ctx = Inr dg" using cut_digest[OF vi] by blast
  obtain d' where w: "write_append (cut_batch i) dg ([demo_context c2], [rootWitnessPlan demo_lib, wp], [cut_record_of c2 wp i i2], cut_receipt c2 i i2)
      ?d = Inr d'" "Frontiers d' = []" "i \<in> RowID ` set (Records d')" "i2 \<in> RowID ` set (Records d')"
    "''frontier:f1'' \<in> IntentID ` set (AppendIntents d')"
    using cut_write[OF ids(1) ok c2(2) i2(2-4)] by blast
  have fi: "find_intent ?d (AppendIntentID (cut_batch i)) = None" "find_intent ?d ''frontier:f1'' = None"
    by (simp_all add: cut_batch_eq find_intent_def demo_db_def)
  have a: "appendInTx demo_lib cut_ctx (cut_batch i) ?d = Inr ((cut_receipt c2 i i2, True), d')"
    using fi(1) by (simp add: appendInTx_def cut_valid[OF vi] dg cut_prepare[OF ids(1) c2 i2(1)] w(1))
  let ?p = "demo_entry ''alice'' 0 i c ''note.v1'' (commit_receipt 0)"
  have le: "latest_entry ?d i ''alice'' = Some ?p"
    by (simp add: latest_entry_def demo_db_def demo_entry_def witnessTraceOwnerID_def)
  have "?p \<in> set (PathEntries ?d)" by (simp add: demo_db_def)
  from join_total[OF ok this] obtain r where r: "scanRecord (join_entry ?d ?p) = Inr r" by blast
  then have v: "View r = Some \<lparr>ViewOwner = ''alice'', ViewOrdinal = 0, ViewContextRef = c, ViewKindLabel = ''note.v1''\<rparr>"
    by (auto simp: scanRecord_def join_entry_def bindR_eq_Inr demo_entry_def split: option.splits)
  have "readLatestFactOnPathTx ?d i ''alice'' = Inr r" using le r by (simp add: readLatestFactOnPathTx_def)
  moreover have "\<exists>d''. index_frontier (cut_of i i2) ''frontier:f1'' d' = Inr (cut_of i i2, d'')"
    using w(2-5) by (simp add: index_frontier_def readOwnerCutoffTx_def find_frontier_def insert_frontier_def frontier_row_of_def cut_of_def)
  ultimately have "\<exists>d''. publishFrontierInTx demo_lib cut_ctx (cut_spec i) ?d = Inr (cut_of i i2, d'')"
    using a v by (simp add: publishFrontierInTx_def cut_names cut_receipt_def) (simp add: cut_of_def)
  moreover have "fresh_cut ?d (cut_spec i) (cut_of i i2)"
    using i2(2-4) fi(2) demo_db_tables(1)[of demo_lib dig c wp i]
    by (auto simp: fresh_cut_def cut_names cut_of_def find_frontier_def demo_db_tables witnessTraceOwnerID_def)
  ultimately show ?thesis by blast
qed

text \<open>The first store is reachable, and stays inside the bounds of SQLite.\<close>

lemma demo_reachable:
  assumes "demo_ids demo_lib c wp i" "batchDigest demo_lib demo_batch demo_ctx = Inr dig"
  shows "reachable demo_lib (demo_store\<lparr>Db := demo_db demo_lib dig c wp i\<rparr>)" "int64_room (demo_db demo_lib dig c wp i) 1"
proof -
  have n: "new_store = demo_store" by (simp add: new_store_def demo_store_def createSchema_def empty_db_def)
  have "Append demo_lib demo_env TrustedAppendContext demo_batch demo_store
      = (Inr (demo_receipt c i), demo_store\<lparr>Db := demo_db demo_lib dig c wp i\<rparr>)"
    using demo_in_tx[OF assms] by (simp add: Append_def demo_valid demo_env_def publishAppendEvents_def Let_def) (simp add: demo_store_def)
  from store_step.append[OF this demo_owner] show "reachable demo_lib (demo_store\<lparr>Db := demo_db demo_lib dig c wp i\<rparr>)"
    by (simp add: reachable_def n)
  show "int64_room (demo_db demo_lib dig c wp i) 1"
    by (simp add: int64_room_def demo_db_def nextOwnerOrdinalTx_def demo_store_def empty_db_def)
qed

end
