(* ===== verification/Store_Properties.thy ===== *)
theory Store_Properties
  imports Frontier_Scenario
begin

text \<open>The properties of whole runs of the store, and of frontiers in them.\<close>

section \<open>Scenarios as runs\<close>

lemma demo_run:
  obtains dig c wp i where "demo_ids demo_lib c wp i" "batchDigest demo_lib demo_batch demo_ctx = Inr dig"
    "reachable demo_lib (demo_store\<lparr>Db := demo_db demo_lib dig c wp i\<rparr>)"
    "store_inv demo_lib (demo_store\<lparr>Db := demo_db demo_lib dig c wp i\<rparr>)"
proof -
  obtain dig c wp i where "demo_ids demo_lib c wp i" "batchDigest demo_lib demo_batch demo_ctx = Inr dig"
    using demo_append[OF demo_lib_ok(1,2)] by metis
  with that reachable_inv[OF _ demo_lib_ok(3)] demo_reachable(1) show thesis by blast
qed

text \<open>The publication of the second scenario, as a step.\<close>

lemma cut_run:
  assumes "demo_ids demo_lib c wp i" "batchDigest demo_lib demo_batch demo_ctx = Inr dig"
  obtains i2 s' where "PublishFrontier demo_lib demo_env cut_auth (cut_spec i) (demo_store\<lparr>Db := demo_db demo_lib dig c wp i\<rparr>)
      = (Inr (cut_of i i2), s')"
    "fresh_cut (demo_db demo_lib dig c wp i) (cut_spec i) (cut_of i i2)" "reachable demo_lib s'"
proof -
  obtain i2 d' where p: "publishFrontierInTx demo_lib cut_ctx (cut_spec i) (demo_db demo_lib dig c wp i) = Inr (cut_of i i2, d')"
    "fresh_cut (demo_db demo_lib dig c wp i) (cut_spec i) (cut_of i i2)"
    using cut_publish[OF assms] by blast
  let ?s = "demo_store\<lparr>Db := demo_db demo_lib dig c wp i\<rparr>"
  have a: "ensureAppendAuthorized cut_ctx = Inr ()"
    by (simp add: ensureAppendAuthorized_def append_operation_context_def TrustedAppendContext_def cut_auth_def)
  have s: "PublishFrontier demo_lib demo_env cut_auth (cut_spec i) ?s = (Inr (cut_of i i2), ?s\<lparr>Db := d'\<rparr>)"
    using p(1) by (simp add: PublishFrontier_def a Let_def demo_env_def)
  have "frontier_publisher (cut_spec i) \<noteq> witnessTraceOwnerID" by (simp add: cut_names witnessTraceOwnerID_def)
  from store_step.publish[OF s this] demo_reachable(1)[OF assms] have "reachable demo_lib (?s\<lparr>Db := d'\<rparr>)"
    unfolding reachable_def by (rule rtranclp.rtrancl_into_rtrancl[rotated])
  with that s p(2) show thesis by blast
qed

section \<open>Runs\<close>

text \<open>C1: Whatever the public operations of the store did since its file was created, every owner's path is
  numbered 0, 1, 2 and so on without a gap and the counter of the owner is the length of the path; every
  record of the table can be read; the parents of a record are records of the table; and the
  causal relation has no cycle.\<close>

theorem reachable_stores_well_formed:
  assumes "reachable lib s" "root_unique lib"
  shows "map PathOrdinal (owner_entries (Db s) ow) = map int [0..<length (owner_log (Db s) ow)]
    \<and> nextOwnerOrdinalTx (Db s) ow = int (length (owner_log (Db s) ow))
    \<and> (\<forall>i\<in>RowID ` set (Records (Db s)). \<exists>r. readFact (Db s) i = Inr r \<and> RecordID (Envelope r) = i)
    \<and> fst ` causes (Db s) \<subseteq> RowID ` set (Records (Db s)) \<and> acyclic (causes (Db s))"
proof -
  have inv: "db_ok (Db s)" using reachable_inv[OF assms(1,2)] by (simp add: store_inv_def)
  then have o: "map PathOrdinal (owner_entries (Db s) ow) = run_from 0 (length (owner_entries (Db s) ow))"
    "nextOwnerOrdinalTx (Db s) ow = int (length (owner_entries (Db s) ow))" by (simp_all add: db_ok_def owner_ok_def)
  have "\<exists>r. readFact (Db s) i = Inr r \<and> RecordID (Envelope r) = i" if i: "i \<in> RowID ` set (Records (Db s))" for i
  proof -
    obtain row where "find_record (Db s) i = Some row" using i recs.look_None[of "Db s" i] by (cases "find_record (Db s) i") auto
    from readFactTx_total[OF inv this] show ?thesis by (auto simp: readFact_def)
  qed
  moreover have "fst ` causes (Db s) \<subseteq> RowID ` set (Records (Db s))" using causes_retained[OF inv] by fastforce
  ultimately show ?thesis using o causes_acyclic[OF inv] by (simp add: run_from_def owner_log_def)
qed

theorem reachable_stores_well_formed_witness:
  "\<exists>(s :: store) i. owner_log (Db s) ''alice'' = [i] \<and> (\<exists>r. readFact (Db s) i = Inr r) \<and> nextOwnerOrdinalTx (Db s) ''alice'' = 1
    \<and> acyclic (causes (Db s))"
proof -
  obtain dig c wp i where d: "reachable demo_lib (demo_store\<lparr>Db := demo_db demo_lib dig c wp i\<rparr>)" by (rule demo_run)
  have l: "owner_log (demo_db demo_lib dig c wp i) ''alice'' = [i]"
    by (simp add: owner_log_def owner_entries_def demo_db_def demo_entry_def witnessTraceOwnerID_def)
  have "i \<in> RowID ` set (Records (demo_db demo_lib dig c wp i))" by (simp add: demo_db_tables)
  then obtain r where "readFact (demo_db demo_lib dig c wp i) i = Inr r"
    "nextOwnerOrdinalTx (demo_db demo_lib dig c wp i) ''alice'' = 1" "acyclic (causes (demo_db demo_lib dig c wp i))"
    using reachable_stores_well_formed[OF d demo_lib_ok(3), of "''alice''"] l by auto
  with l show ?thesis by (intro exI[of _ "demo_store\<lparr>Db := demo_db demo_lib dig c wp i\<rparr>"] exI[of _ i]) simp
qed

text \<open>C8: The trace is append-only along every run: records, path entries and frontiers are never changed,
  reordered or removed, so the log of an owner at a later point is an extension of its log now, and
  a record that can be read now reads with the same envelope and the same body then.\<close>

theorem run_only_appends:
  assumes "(store_step lib)\<^sup>*\<^sup>* s s'"
  shows "(\<exists>rs. Records (Db s') = Records (Db s) @ rs) \<and> (\<exists>ps. PathEntries (Db s') = PathEntries (Db s) @ ps)
    \<and> (\<exists>fs. Frontiers (Db s') = Frontiers (Db s) @ fs)
    \<and> (\<exists>ids. owner_log (Db s') ow = owner_log (Db s) ow @ ids)
    \<and> (\<forall>r r'. readFact (Db s) i = Inr r \<and> readFact (Db s') i = Inr r' \<longrightarrow> Envelope r' = Envelope r \<and> Body r' = Body r)"
proof -
  have e: "extends (Db s) (Db s')" by (rule kernel.steps_grow[OF assms])
  have "Envelope r' = Envelope r \<and> Body r' = Body r" if r: "readFact (Db s) i = Inr r" "readFact (Db s') i = Inr r'" for r r'
  proof -
    from r(1) obtain row b v where f: "find_record (Db s) i = Some row" "bodyFromJSON (RowBody row) = Inr b"
      "r = \<lparr>Envelope = \<lparr>RecordID = i, Digest = RowDigest row, SchemaRef = RowSchema row, Mode = RowMode row,
           WitnessRef = RowWitness row, CausedByIDs = jsonToStrings (RowCausedBy row)\<rparr>, Body = b, View = v\<rparr>"
      unfolding readFact_def by (rule readFactTx_Inr) blast
    from r(2) extends_find(1)[OF e f(1)] f(2) obtain v' where
      "r' = \<lparr>Envelope = \<lparr>RecordID = i, Digest = RowDigest row, SchemaRef = RowSchema row, Mode = RowMode row,
           WitnessRef = RowWitness row, CausedByIDs = jsonToStrings (RowCausedBy row)\<rparr>, Body = b, View = v'\<rparr>"
      unfolding readFact_def by (elim readFactTx_Inr) simp
    with f(3) show ?thesis by simp
  qed
  with e extends_owner_log[OF e, of ow] show ?thesis unfolding extends_def by blast
qed

theorem run_only_appends_witness:
  "\<exists>s s' r. s \<noteq> s' \<and> (store_step demo_lib)\<^sup>*\<^sup>* s s' \<and> owner_log (Db s) ''alice'' = [] \<and> (\<exists>i. owner_log (Db s') ''alice'' = [i])
    \<and> Records (Db s') = Records (Db s) @ r"
proof -
  obtain dig c wp i where d: "reachable demo_lib (demo_store\<lparr>Db := demo_db demo_lib dig c wp i\<rparr>)" by (rule demo_run)
  have l: "owner_log (demo_db demo_lib dig c wp i) ''alice'' = [i]" "owner_log (Db new_store) ''alice'' = []"
    by (simp_all add: owner_log_def owner_entries_def demo_db_def demo_entry_def witnessTraceOwnerID_def new_store_def
        createSchema_def empty_db_def)
  note run = d[unfolded reachable_def]
  from run_only_appends[OF run, THEN conjunct1] obtain r where "Records (demo_db demo_lib dig c wp i) = Records (Db new_store) @ r" by auto
  moreover have "new_store \<noteq> demo_store\<lparr>Db := demo_db demo_lib dig c wp i\<rparr>"
  proof
    assume "new_store = demo_store\<lparr>Db := demo_db demo_lib dig c wp i\<rparr>"
    from arg_cong[OF this, of Db] l show False by simp
  qed
  ultimately show ?thesis using run l
    by (intro exI[of _ new_store] exI[of _ "demo_store\<lparr>Db := demo_db demo_lib dig c wp i\<rparr>"] exI[of _ r]) auto
qed

section \<open>Frontiers\<close>

text \<open>What a publication leaves: the index row reads as the published frontier, whose through fact is an
  entry of the target's path.\<close>

lemma published_cut:
  assumes "reachable lib s" "lib_ok lib" "inj (sha256 lib)" "int64_room (Db s) 1"
    and "PublishFrontier lib env auth spec s = (Inr f, s')" "fresh_cut (Db s) spec f"
  shows "db_ok (Db s)" "cut_entry (Db s) f" "db_ok (Db s')" "witnessed (Db s')" "cut_entry (Db s') f"
    "cut_entries (Db s') f = cut_entries (Db s) f" "readOwnerCutoff (Db s') (SpecFrontierID spec) = Inr f"
    "TargetTraceOwnerID f = SpecTargetOwnerID spec" "ThroughFactID f = SpecThroughFactID spec"
proof -
  have inv: "db_ok (Db s)" "witnessed (Db s)"
    using reachable_inv[OF assms(1) root_unique_inj[OF assms(3,2)]] by (simp_all add: store_inv_def)
  obtain d' where p: "publishFrontierInTx lib (append_operation_context auth OpPublishCut) spec (Db s) = Inr (f, d')" "s' = s\<lparr>Db := d'\<rparr>"
    using assms(5) by (auto simp: PublishFrontier_def Let_def split: sum.splits option.splits)
  from publish_new[OF p(1) inv assms(4,2,3,6)] have n: "readOwnerCutoff (Db s') (SpecFrontierID spec) = Inr f" "cut_entry (Db s) f"
    "db_ok (Db s')" "witnessed (Db s')" "TargetTraceOwnerID f = SpecTargetOwnerID spec" "ThroughFactID f = SpecThroughFactID spec"
    by (simp_all add: p(2))
  have e: "extends (Db s) (Db s')" using publishFrontierInTx_extends[OF p(1)] by (simp add: p(2))
  from inv(1) n cut_entries_stable[OF e inv(1) n(2)] show "db_ok (Db s)" "cut_entry (Db s) f" "db_ok (Db s')" "witnessed (Db s')"
    "cut_entry (Db s') f" "cut_entries (Db s') f = cut_entries (Db s) f" "readOwnerCutoff (Db s') (SpecFrontierID spec) = Inr f"
    "TargetTraceOwnerID f = SpecTargetOwnerID spec" "ThroughFactID f = SpecThroughFactID spec"
    by simp_all
qed

lemma trusted_reader: "ensureReadAuthorized (read_operation_context TrustedReadContext) = Inr ()" "ensureModeFilter ModeBoth = Inr ()"
  by (simp_all add: ensureReadAuthorized_def read_operation_context_def TrustedReadContext_def ensureModeFilter_def)

text \<open>C11: A frontier published under a new id and a new intent resolves, in the store the publication leaves,
  to the prefix of the target's log that ends in the through fact: the slice carries the published
  frontier, lists exactly the facts of the target up to the through fact in the order of the
  owner's path, and ends there.\<close>

theorem frontier_resolves_prefix:
  assumes "reachable lib s" "lib_ok lib" "inj (sha256 lib)" "int64_room (Db s) 1"
    and "PublishFrontier lib env auth spec s = (Inr f, s')" "fresh_cut (Db s) spec f"
    and "ensureReadAuthorized (read_operation_context rauth) = Inr ()"
  shows "\<exists>sl. ResolveFrontier None rauth (SpecFrontierID spec) ModeBoth s' = Inr sl \<and> SliceFrontier sl = Some f
    \<and> slice_fact_ids sl = take (nat (ThroughOwnerOrdinal f) + 1) (owner_log (Db s) (SpecTargetOwnerID spec))
    \<and> slice_fact_ids sl \<noteq> [] \<and> last (slice_fact_ids sl) = SpecThroughFactID spec"
proof -
  note n = published_cut[OF assms(1-6)]
  note len = cut_entries_length[OF n(1,2)]
  from resolve_eq[OF n(3,4,7,5) assms(7) trusted_reader(2)] obtain support where
    r: "ResolveFrontier None rauth (SpecFrontierID spec) ModeBoth s' = Inr (slice_of (Db s') (Some f)
      (VisibilityProfile (read_operation_context rauth)) ModeBoth True (entry_facts (Db s') ModeBoth (cut_entries (Db s') f)) support)" by blast
  have ids: "slice_fact_ids (slice_of (Db s') (Some f) v ModeBoth True (entry_facts (Db s') ModeBoth (cut_entries (Db s') f)) support)
      = map PathRecord (cut_entries (Db s) f)" for v
    using cut_slice_ids[of "Db s'" "Some f" v ModeBoth f support] by (simp add: n(6) modeMatches_def)
  have "nat (ThroughOwnerOrdinal f + 1) = nat (ThroughOwnerOrdinal f) + 1" using len(1) by linarith
  then have log: "map PathRecord (cut_entries (Db s) f) = take (nat (ThroughOwnerOrdinal f) + 1) (owner_log (Db s) (SpecTargetOwnerID spec))"
    by (simp add: cut_entries_def owner_log_def take_map n(8))
  have ends: "map PathRecord (cut_entries (Db s) f) \<noteq> []" "last (map PathRecord (cut_entries (Db s) f)) = SpecThroughFactID spec"
    using len(3,4) n(9) by (simp_all add: last_map)
  show ?thesis
    by (intro exI conjI, rule r) (simp_all only: ids log[symmetric] slice_of_fields ends not_False_eq_True)
qed

theorem frontier_resolves_prefix_witness:
  "\<exists>s sl i. ResolveFrontier None TrustedReadContext ''f1'' ModeBoth s = Inr sl \<and> slice_fact_ids sl = [i]
    \<and> (\<exists>f. SliceFrontier sl = Some f \<and> FrontierID f = ''f1'' \<and> TargetTraceOwnerID f = ''alice'' \<and> ThroughFactID f = i)"
proof -
  obtain dig c wp i where d: "demo_ids demo_lib c wp i" "batchDigest demo_lib demo_batch demo_ctx = Inr dig"
    "reachable demo_lib (demo_store\<lparr>Db := demo_db demo_lib dig c wp i\<rparr>)" by (rule demo_run)
  obtain i2 s' where p: "PublishFrontier demo_lib demo_env cut_auth (cut_spec i) (demo_store\<lparr>Db := demo_db demo_lib dig c wp i\<rparr>)
      = (Inr (cut_of i i2), s')" "fresh_cut (demo_db demo_lib dig c wp i) (cut_spec i) (cut_of i i2)"
    using cut_run[OF d(1,2)] by metis
  have l: "owner_log (demo_db demo_lib dig c wp i) ''alice'' = [i]"
    by (simp add: owner_log_def owner_entries_def demo_db_def demo_entry_def witnessTraceOwnerID_def)
  from trusted_reader(1) frontier_resolves_prefix[OF d(3) demo_lib_ok(1,2) _ p(1)] p(2) demo_reachable(2)[OF d(1,2)] obtain sl where
    "ResolveFrontier None TrustedReadContext (SpecFrontierID (cut_spec i)) ModeBoth s' = Inr sl" "SliceFrontier sl = Some (cut_of i i2)"
    "slice_fact_ids sl = take (nat (ThroughOwnerOrdinal (cut_of i i2)) + 1) (owner_log (demo_db demo_lib dig c wp i) ''alice'')"
    by (fastforce simp: cut_names)
  then show ?thesis by (intro exI[of _ s'] exI[of _ sl] exI[of _ i]) (simp add: cut_names cut_of_def l)
qed

text \<open>C12: A frontier is immutable: once it resolves, it resolves in every later store, to the same frontier,
  the same facts in the same order with the same contents, whatever was written in between.\<close>

theorem frontier_resolution_stable:
  assumes "reachable lib s" "root_unique lib" "(store_step lib)\<^sup>*\<^sup>* s s'"
    and "ResolveFrontier q auth k m s = Inr sl"
  shows "\<exists>sl'. ResolveFrontier None auth k m s' = Inr sl' \<and> SliceFrontier sl' = SliceFrontier sl
    \<and> slice_fact_ids sl' = slice_fact_ids sl \<and> FactsByID sl' = FactsByID sl"
proof -
  have inv: "db_ok (Db s)" "witnessed (Db s)" using reachable_inv[OF assms(1,2)] by (simp_all add: store_inv_def)
  have "reachable lib s'" using assms(1,3) unfolding reachable_def by (rule rtranclp_trans)
  from reachable_inv[OF this assms(2)] have inv': "db_ok (Db s')" "witnessed (Db s')" by (simp_all add: store_inv_def)
  have e: "extends (Db s) (Db s')" by (rule kernel.steps_grow[OF assms(3)])
  from resolve_inv[OF assms(4) inv] obtain f support where f: "readOwnerCutoff (Db s) k = Inr f" "cut_entry (Db s) f"
    "ensureReadAuthorized (read_operation_context auth) = Inr ()" "ensureModeFilter m = Inr ()"
    "sl = slice_of (Db s) (Some f) (VisibilityProfile (read_operation_context auth)) m True
       (entry_facts (Db s) m (cut_entries (Db s) f)) support" by blast
  note st = cut_entries_stable[OF e inv(1) f(2)]
  have facts: "entry_facts (Db s') m (cut_entries (Db s') f) = entry_facts (Db s) m (cut_entries (Db s) f)"
    unfolding st(1) by (rule extends_entry_facts[OF e inv(1) cut_entries_sub])
  obtain support' where r: "ResolveFrontier None auth k m s' = Inr (slice_of (Db s') (Some f)
      (VisibilityProfile (read_operation_context auth)) m True (entry_facts (Db s) m (cut_entries (Db s) f)) support')"
    using resolve_eq[OF inv' readOwnerCutoff_stable[OF f(1) e inv'(1)] st(2) f(3,4)] facts by auto
  show ?thesis
    by (intro exI conjI, rule r) (simp_all add: f(5) slice_of_ids loaded_facts)
qed

theorem frontier_resolution_stable_witness:
  "\<exists>s s' sl sl'. s \<noteq> s' \<and> ResolveFrontier None TrustedReadContext ''f1'' ModeBoth s = Inr sl
    \<and> ResolveFrontier None TrustedReadContext ''f1'' ModeBoth s' = Inr sl' \<and> FactsByID sl' = FactsByID sl
    \<and> slice_fact_ids sl' = slice_fact_ids sl \<and> slice_fact_ids sl \<noteq> []"
proof -
  obtain dig c wp i where d: "demo_ids demo_lib c wp i" "batchDigest demo_lib demo_batch demo_ctx = Inr dig"
    "reachable demo_lib (demo_store\<lparr>Db := demo_db demo_lib dig c wp i\<rparr>)"
    "store_inv demo_lib (demo_store\<lparr>Db := demo_db demo_lib dig c wp i\<rparr>)" by (rule demo_run)
  obtain i2 s where p: "PublishFrontier demo_lib demo_env cut_auth (cut_spec i) (demo_store\<lparr>Db := demo_db demo_lib dig c wp i\<rparr>)
      = (Inr (cut_of i i2), s)" "fresh_cut (demo_db demo_lib dig c wp i) (cut_spec i) (cut_of i i2)" "reachable demo_lib s"
    by (rule cut_run[OF d(1,2)])
  have "int64_room (Db (demo_store\<lparr>Db := demo_db demo_lib dig c wp i\<rparr>)) 1" using demo_reachable(2)[OF d(1,2)] by simp
  from published_cut[OF d(3) demo_lib_ok(1,2) this p(1)] p(2) have n: "db_ok (Db s)" "witnessed (Db s)"
    "readOwnerCutoff (Db s) ''f1'' = Inr (cut_of i i2)" "cut_entry (Db s) (cut_of i i2)" by (simp_all add: cut_names)
  from resolve_eq[OF n trusted_reader] obtain sl where r: "ResolveFrontier None TrustedReadContext ''f1'' ModeBoth s = Inr sl"
    "slice_fact_ids sl \<noteq> []"
    using cut_slice_ids[of "Db s" _ _ ModeBoth "cut_of i i2"] cut_entries_length(4)[OF n(1,4)] by (fastforce simp: modeMatches_def)
  let ?s' = "WithCheckpointBlobLimit (if BlobLimit s = 1 then 2 else 1) s"
  have "(store_step demo_lib)\<^sup>*\<^sup>* s ?s'" using store_step.limit by blast
  from frontier_resolution_stable[OF p(3) demo_lib_ok(3) this r(1)] obtain sl' where
    "ResolveFrontier None TrustedReadContext ''f1'' ModeBoth ?s' = Inr sl'" "FactsByID sl' = FactsByID sl"
    "slice_fact_ids sl' = slice_fact_ids sl" by blast
  moreover have "s \<noteq> ?s'"
  proof
    assume "s = ?s'"
    from arg_cong[OF this, of BlobLimit] show False by (simp add: WithCheckpointBlobLimit_def split: if_splits)
  qed
  ultimately show ?thesis using r by blast
qed

end
