(* ===== verification/Execution_Laws.thy ===== *)
theory Execution_Laws
  imports Trace_History Store_Properties
begin

text \<open>
  The reference reading of an owner's path (which fact decides which field of an execution, and
  which relation of a child counts), that the folds of the code compute it, and what a slice
  of a store shows a projection.
\<close>

section \<open>Last fact of a kind\<close>

definition last_where :: "('a \<Rightarrow> bool) \<Rightarrow> 'a list \<Rightarrow> 'a option" where
  "last_where P xs = (let ys = filter P xs in if ys = [] then None else Some (last ys))"

lemma last_where_Nil [simp]: "last_where P [] = None"
  by (simp add: last_where_def)

lemma last_where_snoc [simp]: "last_where P (xs @ [x]) = (if P x then Some x else last_where P xs)"
  by (simp add: last_where_def)

abbreviation schema_of :: "Record \<Rightarrow> string" where
  "schema_of r \<equiv> SchemaRef (Envelope r)"

definition is_created :: "Record \<Rightarrow> bool" where
  "is_created r \<longleftrightarrow> schema_of r = SchemaExecutionCreated"

definition is_started :: "Record \<Rightarrow> bool" where
  "is_started r \<longleftrightarrow> schema_of r = SchemaExecutionStarted"

definition is_terminal :: "Record \<Rightarrow> bool" where
  "is_terminal r \<longleftrightarrow> schema_of r = SchemaExecutionCompleted \<or> schema_of r = SchemaExecutionFailed"

lemmas lifecycle_defs = is_created_def is_started_def is_terminal_def

lemma schemas_distinct [simp]:
  "SchemaExecutionCreated \<noteq> SchemaExecutionStarted" "SchemaExecutionCreated \<noteq> SchemaExecutionCompleted"
  "SchemaExecutionCreated \<noteq> SchemaExecutionFailed" "SchemaExecutionStarted \<noteq> SchemaExecutionCompleted"
  "SchemaExecutionStarted \<noteq> SchemaExecutionFailed" "SchemaExecutionCompleted \<noteq> SchemaExecutionFailed"
  "SchemaExecutionStarted \<noteq> SchemaExecutionCreated" "SchemaExecutionCompleted \<noteq> SchemaExecutionCreated"
  "SchemaExecutionFailed \<noteq> SchemaExecutionCreated" "SchemaExecutionCompleted \<noteq> SchemaExecutionStarted"
  "SchemaExecutionFailed \<noteq> SchemaExecutionStarted" "SchemaExecutionFailed \<noteq> SchemaExecutionCompleted"
  by (simp_all add: SchemaExecutionCreated_def SchemaExecutionStarted_def SchemaExecutionCompleted_def SchemaExecutionFailed_def)

text \<open>The execution the facts of its path describe: every field is decided by the last fact of the
  kinds that speak of it.\<close>

definition status_after :: "Record option \<Rightarrow> string" where
  "status_after r =
    (case r of
       None \<Rightarrow> ExecutionPending
     | Some r \<Rightarrow> if is_created r then ExecutionPending else if is_started r then ExecutionRunning
         else if schema_of r = SchemaExecutionCompleted then ExecutionSucceeded else ExecutionFailed)"

definition execution_of :: "string \<Rightarrow> Frontier \<Rightarrow> Record list \<Rightarrow> Execution" where
  "execution_of owner cutoff facts =
    (let created = last_where is_created facts; terminal = last_where is_terminal facts in
     \<lparr>ExecutionID = owner,
      TaskRef = (case created of None \<Rightarrow> [] | Some r \<Rightarrow> payloadString (Body r) ''task_ref''),
      ParentExecutionID = (case created of None \<Rightarrow> [] | Some r \<Rightarrow> payloadString (Body r) ''parent_execution_id''),
      Status = status_after (last_where (\<lambda>r. is_created r \<or> is_started r \<or> is_terminal r) facts),
      Inputs = (case created of None \<Rightarrow> Some [] | Some r \<Rightarrow> payloadMap (Body r) ''inputs''),
      Outputs = (case terminal of None \<Rightarrow> Some []
        | Some r \<Rightarrow> if schema_of r = SchemaExecutionCompleted then payloadMap (Body r) ''outputs'' else Some []),
      ErrorText = (case terminal of None \<Rightarrow> []
        | Some r \<Rightarrow> if schema_of r = SchemaExecutionCompleted then [] else payloadString (Body r) ''error''),
      StartedFactID = (case last_where is_started facts of None \<Rightarrow> [] | Some r \<Rightarrow> RecordID (Envelope r)),
      TerminalFactID = (case terminal of None \<Rightarrow> [] | Some r \<Rightarrow> RecordID (Envelope r)),
      Cutoff = cutoff\<rparr>)"

lemma execution_of_snoc: "execution_of owner cutoff (facts @ [r]) = fold_execution r (execution_of owner cutoff facts)"
  by (simp add: execution_of_def fold_execution_def lifecycle_defs status_after_def Let_def)

lemma fold_execution_list: "fold fold_execution facts (new_execution owner) = execution_of owner zero_frontier facts"
proof (induction facts rule: rev_induct)
  case Nil
  show ?case by (simp add: execution_of_def new_execution_def status_after_def)
qed (simp add: execution_of_snoc)

lemma execution_of_cutoff: "(execution_of owner c facts)\<lparr>Cutoff := c'\<rparr> = execution_of owner c' facts"
  by (simp add: execution_of_def Let_def)

section \<open>The loops\<close>

definition slice_records :: "string \<Rightarrow> Slice \<Rightarrow> string \<Rightarrow> kerror + Record list" where
  "slice_records who sl owner = mapR (slice_record who sl) (owner_path sl owner)"

lemma project_facts_fold: "foldR (project_fact sl owner) exec ids = bindR (mapR (slice_record ''ProjectExecution'' sl) ids)
    (\<lambda>rs. Inr (fold fold_execution (filter (\<lambda>r. \<not> other_execution (Body r) owner) rs) exec))"
  by (induction ids arbitrary: exec) (auto simp: project_fact_def bindR_def split: sum.splits)

lemma ProjectExecution_eq: "ProjectExecution sl owner cutoff =
    bindR (EnsureProjectionCompatible sl ExecutionProjection) (\<lambda>_.
    bindR (slice_records ''ProjectExecution'' sl owner) (\<lambda>rs.
    Inr (execution_of owner (case cutoff of Some f \<Rightarrow> f | None \<Rightarrow> executionCutoffFrom sl owner)
      (filter (\<lambda>r. \<not> other_execution (Body r) owner) rs))))"
  unfolding ProjectExecution_def project_facts_fold slice_records_def fold_execution_list
  by (auto simp: bindR_def execution_of_cutoff split: sum.splits)

text \<open>Relations: the latest one of each id, in the order in which the ids appear first.\<close>

lemma latest_relation_fold:
  "fold latest_relation rs (Map.empty, []) =
    (\<lambda>i. last_where (\<lambda>r. RelationID r = i) rs, dedup_loop {} (map RelationID rs))"
proof (induction rs rule: rev_induct)
  case (snoc r rs)
  have dd: "dedup_loop seen (xs @ [x]) = dedup_loop seen xs @ (if x \<in> seen \<union> set xs then [] else [x])" for seen xs and x :: string
    by (induction seen xs rule: dedup_loop.induct) auto
  have "last_where (\<lambda>x. RelationID x = RelationID r) rs = None \<longleftrightarrow> RelationID r \<notin> RelationID ` set rs"
    by (auto simp: last_where_def filter_empty_conv) (metis imageI)
  then show ?case using snoc by (auto simp: latest_relation_def dd fun_eq_iff)
qed (simp add: fun_eq_iff)

lemma activeRelations_eq: "activeRelations rs =
    filter is_active (map (\<lambda>i. the (last_where (\<lambda>r. RelationID r = i) rs)) (dedup_loop {} (map RelationID rs)))"
  by (simp add: activeRelations_def latest_relation_fold)

section \<open>What a slice of the store shows\<close>

lemma last_where_map: "last_where P (map f xs) = map_option f (last_where (P \<circ> f) xs)"
  by (simp add: last_where_def filter_map last_map)

lemma last_where_Some: "last_where P xs = Some x \<Longrightarrow> P x \<and> x \<in> set xs"
proof -
  assume "last_where P xs = Some x"
  then have "filter P xs \<noteq> []" "last (filter P xs) = x" by (auto simp: last_where_def Let_def split: if_splits)
  then have "x \<in> set (filter P xs)" by (metis last_in_set)
  then show ?thesis by simp
qed

lemma last_where_None: "last_where P xs = None \<longleftrightarrow> (\<forall>x\<in>set xs. \<not> P x)"
  by (auto simp: last_where_def filter_empty_conv)

lemma loaded_lookup: "map_of (spFacts (loaded_parts d vis inc l)) i =
    map_option (\<lambda>(pe, r). visibleFact r vis) (last_where (\<lambda>(pe, r). peRecord pe = i) l)"
proof -
  have "map_of (fold (\<lambda>(pe, r). AList.update (peRecord pe) (visibleFact r vis)) l []) i =
      map_option (\<lambda>(pe, r). visibleFact r vis) (last_where (\<lambda>(pe, r). peRecord pe = i) l)"
    by (induction l rule: rev_induct) (auto simp: update_conv')
  then show ?thesis by (simp add: loaded_facts)
qed

lemma owner_path_slice: "owner_path (slice_of d fr vis f inc l support) ow = path_ids l ow"
proof -
  have "map_of (spPaths (loaded_parts d vis inc l)) ow = (if path_ids l ow = [] then None else Some (path_ids l ow))"
    using loaded_parts_ok[of d vis inc l] unfolding parts_ok_def by blast
  then show ?thesis by (simp add: owner_path_def)
qed

text \<open>The record of an entry as a slice shows it: the one its map of facts holds, which is the one loaded
  last under the id.\<close>

definition shown_fact :: "db \<Rightarrow> path_row list \<Rightarrow> path_row \<Rightarrow> Record" where
  "shown_fact d ps p = entry_fact d (the (last_where (\<lambda>q. PathRecord q = PathRecord p) ps))"

lemma entry_facts_both: "entry_facts d ModeBoth ps = map (\<lambda>p. (entry_of_row p, entry_fact d p)) ps"
  by (simp add: entry_facts_def modeMatches_def)

lemma shown_lookup:
  assumes "p \<in> set ps"
  shows "map_of (FactsByID (slice_of d fr vis ModeBoth inc (entry_facts d ModeBoth ps) support)) (PathRecord p)
    = Some (visibleFact (shown_fact d ps p) vis)"
proof -
  obtain q where "last_where (\<lambda>q. PathRecord q = PathRecord p) ps = Some q"
    using assms last_where_None[of "\<lambda>q. PathRecord q = PathRecord p" ps] by fastforce
  then show ?thesis
    by (simp add: loaded_lookup entry_facts_both last_where_map comp_def entry_of_row_def shown_fact_def)
qed

lemma shown_records:
  assumes "set qs \<subseteq> set ps" "vis \<noteq> VisibilityShapeOnly"
  shows "mapR (slice_record who (slice_of d fr vis ModeBoth inc (entry_facts d ModeBoth ps) support)) (map PathRecord qs)
    = Inr (map (shown_fact d ps) qs)"
  using assms(1)
proof (induction qs)
  case (Cons q qs)
  then have "map_of (FactsByID (slice_of d fr vis ModeBoth inc (entry_facts d ModeBoth ps) support)) (PathRecord q)
      = Some (Full (shown_fact d ps q))"
    using shown_lookup[of q ps] assms(2) by (simp add: visibleFact_def)
  with Cons show ?case by (simp add: slice_record_def del: slice_of_fields)
qed simp

lemma one_path:
  assumes "\<forall>p\<in>set ps. PathRef p = ow"
  shows "path_ids (entry_facts d ModeBoth ps) ow = map PathRecord ps"
  using assms by (simp add: entry_facts_both path_ids_def filter_map comp_def entry_of_row_def)

text \<open>Entries of one record differ in their view only.\<close>

lemma entry_fact_row:
  assumes "db_ok d" "p \<in> set (PathEntries d)"
  obtains row b where "find_record d (PathRecord p) = Some row" "bodyFromJSON (RowBody row) = Inr b"
    "entry_fact d p = \<lparr>Envelope = \<lparr>RecordID = PathRecord p, Digest = RowDigest row, SchemaRef = RowSchema row, Mode = RowMode row,
       WitnessRef = RowWitness row, CausedByIDs = jsonToStrings (RowCausedBy row)\<rparr>, Body = b,
       View = Some \<lparr>ViewOwner = PathRef p, ViewOrdinal = PathOrdinal p, ViewContextRef = PathContext p, ViewKindLabel = PathKind p\<rparr>\<rparr>"
proof -
  obtain r where r: "scanRecord (join_entry d p) = Inr r" using join_total[OF assms] by blast
  then obtain row where row: "find_record d (PathRecord p) = Some row" by (auto simp: scanRecord_def join_entry_def split: option.splits)
  then have "RowID row = PathRecord p" using recs.look_Some by blast
  with that row r show thesis by (auto simp: scanRecord_def join_entry_def entry_fact_def bindR_eq_Inr)
qed

definition same_content :: "Record \<Rightarrow> Record \<Rightarrow> bool" where
  "same_content r r' \<longleftrightarrow> Envelope r = Envelope r' \<and> Body r = Body r'"

lemma shown_content:
  assumes "db_ok d" "set ps \<subseteq> set (PathEntries d)" "p \<in> set ps"
  shows "same_content (shown_fact d ps p) (entry_fact d p)"
proof -
  obtain q where q: "last_where (\<lambda>q. PathRecord q = PathRecord p) ps = Some q"
    using assms(3) last_where_None[of "\<lambda>q. PathRecord q = PathRecord p" ps] by fastforce
  from last_where_Some[OF q] assms(2,3) have m: "PathRecord q = PathRecord p" "q \<in> set (PathEntries d)" "p \<in> set (PathEntries d)" by auto
  show ?thesis
    by (rule entry_fact_row[OF assms(1) m(2)], rule entry_fact_row[OF assms(1) m(3)])
      (simp add: shown_fact_def q same_content_def m(1))
qed

lemma execution_of_content:
  assumes "list_all2 same_content rs rs'"
  shows "execution_of ow c rs = execution_of ow c rs'"
proof -
  have "fold fold_execution rs e = fold fold_execution rs' e" for e
    using assms by (induction arbitrary: e rule: list_all2_induct) (simp_all add: same_content_def fold_execution_def)
  then have "execution_of ow zero_frontier rs = execution_of ow zero_frontier rs'" by (simp add: fold_execution_list[symmetric])
  then show ?thesis using execution_of_cutoff by metis
qed

section \<open>Projections of the store\<close>

text \<open>The facts of an owner's path that belong to the execution of that name.\<close>

definition own_facts :: "db \<Rightarrow> path_row list \<Rightarrow> string \<Rightarrow> Record list" where
  "own_facts d ps ow = filter (\<lambda>r. \<not> other_execution (Body r) ow) (map (entry_fact d) ps)"

lemma filter_content:
  assumes "\<And>p. p \<in> set ps \<Longrightarrow> same_content (f p) (g p)"
  shows "list_all2 same_content (filter (\<lambda>r. \<not> other_execution (Body r) ow) (map f ps))
    (filter (\<lambda>r. \<not> other_execution (Body r) ow) (map g ps))"
  using assms
proof (induction ps)
  case (Cons p ps)
  then have "same_content (f p) (g p)" by simp
  moreover from this have "Body (f p) = Body (g p)" by (simp add: same_content_def)
  ultimately show ?case using Cons by simp
qed simp

lemma slice_of_compatible:
  assumes "vis \<noteq> VisibilityShapeOnly"
  shows "EnsureProjectionCompatible (slice_of d fr vis ModeBoth inc l support) ExecutionProjection = Inr ()"
  using assms by (simp add: EnsureProjectionCompatible_def ExecutionProjection_def ProjectionRequiresBoth_def ProjectionAcceptsAny_def
      ModeBoth_def slice_of_def Let_def)

lemma project_slice:
  assumes "db_ok d" "set ps \<subseteq> set (PathEntries d)" "\<forall>p\<in>set ps. PathRef p = ow" "vis \<noteq> VisibilityShapeOnly"
    and sl: "sl = slice_of d fr vis ModeBoth inc (entry_facts d ModeBoth ps) support"
  shows "ProjectExecution sl ow cutoff
    = Inr (execution_of ow (case cutoff of Some f \<Rightarrow> f | None \<Rightarrow> executionCutoffFrom sl ow) (own_facts d ps ow))"
proof -
  have c: "EnsureProjectionCompatible sl ExecutionProjection = Inr ()" unfolding sl by (rule slice_of_compatible[OF assms(4)])
  have "slice_records who sl ow = Inr (map (shown_fact d ps) ps)" for who
    unfolding slice_records_def sl owner_path_slice one_path[OF assms(3)] by (rule shown_records[OF _ assms(4)]) simp
  moreover have "execution_of ow cc (filter (\<lambda>r. \<not> other_execution (Body r) ow) (map (shown_fact d ps) ps)) = execution_of ow cc (own_facts d ps ow)" for cc
    unfolding own_facts_def by (intro execution_of_content filter_content shown_content[OF assms(1,2)])
  ultimately show ?thesis by (simp add: ProjectExecution_eq c)
qed

text \<open>A slice of another owner's path shows nothing on this one.\<close>

lemma project_foreign:
  assumes "\<forall>p\<in>set ps. PathRef p \<noteq> ow" "vis \<noteq> VisibilityShapeOnly"
  shows "ProjectExecution (slice_of d fr vis ModeBoth inc (entry_facts d ModeBoth ps) support) ow (Some f) = Inr (execution_of ow f [])"
proof -
  have "path_ids (entry_facts d ModeBoth ps) ow = []"
    using assms(1) by (auto simp: entry_facts_both path_ids_def entry_of_row_def filter_empty_conv)
  then show ?thesis
    by (simp add: ProjectExecution_eq slice_records_def owner_path_slice slice_of_compatible[OF assms(2)])
qed

lemma shown_last: "ps \<noteq> [] \<Longrightarrow> shown_fact d ps (last ps) = entry_fact d (last ps)"
  by (cases ps rule: rev_cases) (simp_all add: shown_fact_def)

lemma synthesized_cutoff:
  assumes "db_ok d" "set ps \<subseteq> set (PathEntries d)" "\<forall>p\<in>set ps. PathRef p = ow" "vis \<noteq> VisibilityShapeOnly" "ps \<noteq> []"
  shows "executionCutoffFrom (slice_of d None vis ModeBoth inc (entry_facts d ModeBoth ps) support) ow
    = zero_frontier\<lparr>TargetTraceOwnerID := ow, ThroughFactID := PathRecord (last ps), ThroughOwnerOrdinal := PathOrdinal (last ps)\<rparr>"
proof -
  have l: "last ps \<in> set ps" using assms(5) by simp
  then have "last ps \<in> set (PathEntries d)" using assms(2) by blast
  from entry_fact_row[OF assms(1) this] obtain v where v: "View (entry_fact d (last ps)) = Some v" "ViewOrdinal v = PathOrdinal (last ps)"
    by (metis Record.select_convs(3) RecordView.select_convs(2))
  have "map_of (spFacts (loaded_parts d vis inc (entry_facts d ModeBoth ps))) (PathRecord (last ps)) = Some (Full (entry_fact d (last ps)))"
    using shown_lookup[OF l, of d None vis inc support] shown_last[OF assms(5)] assms(4) by (simp add: visibleFact_def)
  then show ?thesis
    using assms(5) v by (simp add: executionCutoffFrom_def owner_path_slice one_path[OF assms(3)] Let_def last_map)
qed

end
