(* ===== verification/Execution_Store.thy ===== *)
theory Execution_Store
  imports Execution_Laws
begin

text \<open>
  Executions in the store: what reading an owner's prefix and projecting it gives, and what the
  append of one more life-cycle fact changes in it.
\<close>

section \<open>Reading and projecting\<close>

definition payload_reader :: "ReadContext \<Rightarrow> bool" where
  "payload_reader auth \<longleftrightarrow> ensureReadAuthorized (read_operation_context auth) = Inr () \<and> ReadVisibility auth \<noteq> VisibilityShapeOnly"

lemma trusted_payloads: "payload_reader TrustedReadContext"
  using trusted_reader(1) by (simp add: payload_reader_def TrustedReadContext_def VisibilityPayload_def VisibilityShapeOnly_def)

abbreviation owner_prefix :: "db \<Rightarrow> string \<Rightarrow> int \<Rightarrow> path_row list" where
  "owner_prefix d ow t \<equiv> take (nat (t + 1)) (owner_entries d ow)"

lemma owner_prefix_sub: "set (owner_prefix d ow t) \<subseteq> set (PathEntries d)" "\<forall>p\<in>set (owner_prefix d ow t). PathRef p = ow"
  using set_take_subset[of "nat (t + 1)" "owner_entries d ow"] by (auto simp: owner_entries_def)

lemma reader_visibility: "payload_reader auth \<Longrightarrow> VisibilityProfile (read_operation_context auth) \<noteq> VisibilityShapeOnly"
  by (simp add: payload_reader_def read_operation_context_def)

lemma read_prefix_eq:
  assumes "db_ok (Db s)" "witnessed (Db s)" "ow \<noteq> []" "payload_reader auth"
  shows "\<exists>support. ReadOwnerPrefix None auth ow t ModeBoth s = Inr (slice_of (Db s) None
    (VisibilityProfile (read_operation_context auth)) ModeBoth True (entry_facts (Db s) ModeBoth (owner_prefix (Db s) ow t)) support)"
proof -
  obtain support where "buildSlice (Db s) (map entry_of_row (owner_prefix (Db s) ow t)) None
      (VisibilityProfile (read_operation_context auth)) ModeBoth True
    = Inr (slice_of (Db s) None (VisibilityProfile (read_operation_context auth)) ModeBoth True
      (entry_facts (Db s) ModeBoth (owner_prefix (Db s) ow t)) support)"
    using buildSlice_total[OF assms(1,2) owner_prefix_sub(1)] by blast
  then show ?thesis
    using assms(4) trusted_reader(2)
    by (intro exI[of _ support]) (simp add: ReadOwnerPrefix_def payload_reader_def prefix_rows_owner[OF assms(1,3)])
qed

text \<open>The cutoff of a projection of a prefix: its last entry.\<close>

definition prefix_cutoff :: "db \<Rightarrow> string \<Rightarrow> int \<Rightarrow> Frontier" where
  "prefix_cutoff d ow t =
    (let ps = owner_prefix d ow t in
     if ps = [] then zero_frontier\<lparr>TargetTraceOwnerID := ow, ThroughOwnerOrdinal := -1\<rparr>
     else zero_frontier\<lparr>TargetTraceOwnerID := ow, ThroughFactID := PathRecord (last ps), ThroughOwnerOrdinal := PathOrdinal (last ps)\<rparr>)"

lemma project_prefix:
  assumes "db_ok (Db s)" "witnessed (Db s)" "ow \<noteq> []" "payload_reader auth" "ReadOwnerPrefix None auth ow t ModeBoth s = Inr sl"
  shows "ProjectExecution sl ow None = Inr (execution_of ow (prefix_cutoff (Db s) ow t) (own_facts (Db s) (owner_prefix (Db s) ow t) ow))"
proof -
  let ?d = "Db s" and ?vis = "VisibilityProfile (read_operation_context auth)" and ?ps = "owner_prefix (Db s) ow t"
  note vis = reader_visibility[OF assms(4)]
  obtain support where sl: "sl = slice_of ?d None ?vis ModeBoth True (entry_facts ?d ModeBoth ?ps) support"
    using read_prefix_eq[OF assms(1-4), of t] assms(5) by auto
  have "executionCutoffFrom sl ow = prefix_cutoff ?d ow t"
  proof (cases "?ps = []")
    case True
    then have "path_ids (entry_facts ?d ModeBoth []) ow = []" by (simp add: entry_facts_def path_ids_def)
    then show ?thesis unfolding sl executionCutoffFrom_def prefix_cutoff_def True by (simp add: owner_path_slice)
  next
    case False
    from synthesized_cutoff[OF assms(1) owner_prefix_sub vis False] show ?thesis
      unfolding sl prefix_cutoff_def Let_def using False by (simp only: if_False)
  qed
  then show ?thesis using project_slice[OF assms(1) owner_prefix_sub vis sl, of None] by simp
qed

section \<open>Appending one fact\<close>

lemma appended_single:
  assumes a: "Append lib env auth batch s = (Inr r, s')" "find_intent (Db s) (AppendIntentID batch) = None"
    and inv: "db_ok (Db s)" "witnessed (Db s)" and lib: "lib_ok lib" "inj (sha256 lib)"
    and b: "batch_drafts batch = [(g, draft)]" "drafts_ok batch" "TraceOwnerID g = ow" "ow \<noteq> witnessTraceOwnerID" "no_witness_owner batch"
    and fresh: "set (FactIDs r) \<inter> row_ids (Db s) = {}"
  obtains i p where "FactIDs r = [i]" "owner_entries (Db s') ow = owner_entries (Db s) ow @ [p]" "PathRecord p = i"
    "db_ok (Db s')" "witnessed (Db s')" "extends (Db s) (Db s')" "draft_row lib (Db s') (g, draft) i"
    "validateBatchShape batch = Inr ()"
proof -
  note u = root_unique_inj[OF lib(2,1)]
  obtain dig cs ws fs where w: "validateBatchShape batch = Inr ()"
    "batchDigest lib batch (append_operation_context auth OpAppend) = Inr dig"
    "prepareAppend lib (Db s) batch (append_operation_context auth OpAppend) = Inr (cs, ws, fs, r)"
    "write_append batch dig (cs, ws, fs, r) (Db s) = Inr (Db s')"
    by (rule Append_new_facts[OF a]) blast
  from write_append_ok[OF w(3,1,4) inv(1) u b(5)] write_append_witnessed[OF w(3,4) inv(2) u]
  have d': "db_ok (Db s')" "witnessed (Db s')" "length (FactIDs r) = 1"
    "owner_log (Db s') ow = owner_log (Db s) ow @ batch_log batch (FactIDs r) ow"
    using b(4) by (auto simp: b(1))
  then obtain i where i: "FactIDs r = [i]" by (auto simp: length_Suc_conv)
  have e: "extends (Db s) (Db s')" by (rule write_append_extends[OF w(4,3)])
  obtain ps where ps: "owner_entries (Db s') ow = owner_entries (Db s) ow @ ps" using extends_entries[OF e] by blast
  have "map PathRecord ps = [i]" using d'(4) ps by (simp add: owner_log_def batch_log_def b(1,3) i)
  then obtain p where p: "ps = [p]" "PathRecord p = i" by auto
  have "appendInTx lib (append_operation_context auth OpAppend) batch (Db s) = Inr ((r, True), Db s')"
    using a(2) w by (simp add: appendInTx_def)
  from appended_drafts[OF this a(2) lib b(2)] fresh have "draft_row lib (Db s') (g, draft) i" by (simp add: b(1) i)
  with that i ps p d' e w(1) show thesis by simp
qed

lemma marshal_member:
  assumes "json_marshal (VMap kvs) = Inr j" "(k, v) \<in> set kvs"
  shows "\<exists>j. json_marshal v = Inr j"
proof -
  have "marshal_fields l = Inr js \<Longrightarrow> (k, v) \<in> set l \<Longrightarrow> \<exists>j. json_marshal v = Inr j" for l js
    by (induction l arbitrary: js) (auto simp: bindR_eq_Inr)
  moreover have "(k, v) \<in> set (sorted_fields kvs)" using assms(2) by (simp add: sorted_fields_def)
  ultimately show ?thesis using assms(1) by (auto simp: bindR_eq_Inr)
qed

text \<open>The body of an appended fact, read back.\<close>

lemma appended_body:
  assumes "db_ok d" "p \<in> set (PathEntries d)" "draft_row lib d (g, draft) (PathRecord p)"
    and "json_marshal (of_gmap (DraftPayload draft)) = Inr j" "DraftPayload draft = Some kvs" "distinct (map fst kvs)"
    and "list_all (\<lambda>(k, v). valid_string k) kvs"
  shows "schema_of (entry_fact d p) = DraftSchemaRef draft" "RecordID (Envelope (entry_fact d p)) = PathRecord p"
    "get_key (Body (entry_fact d p)) k = (case map_of kvs k of None \<Rightarrow> None
         | Some v \<Rightarrow> (case json_marshal v of Inl e \<Rightarrow> None | Inr j \<Rightarrow> Some (json_decode j)))"
proof -
  obtain row where row: "find_record d (PathRecord p) = Some row" "RowSchema row = DraftSchemaRef draft"
    "RowBody row = bodyToJSON (DraftPayload draft)" using assms(3) by (auto simp: draft_row_def)
  obtain b where b: "bodyFromJSON (bodyToJSON (Some kvs)) = Inr (Some b)"
    "\<And>k. map_of b k = (case map_of kvs k of None \<Rightarrow> None
         | Some v \<Rightarrow> (case json_marshal v of Inl e \<Rightarrow> None | Inr j \<Rightarrow> Some (json_decode j)))"
    using stored_payload[of kvs j] assms(4-7) by (auto simp: of_gmap_def)
  have "schema_of (entry_fact d p) = DraftSchemaRef draft \<and> RecordID (Envelope (entry_fact d p)) = PathRecord p
      \<and> Body (entry_fact d p) = Some b"
    by (rule entry_fact_row[OF assms(1,2)]) (use row b(1) assms(5) in auto)
  then show "schema_of (entry_fact d p) = DraftSchemaRef draft" "RecordID (Envelope (entry_fact d p)) = PathRecord p"
    "get_key (Body (entry_fact d p)) k = (case map_of kvs k of None \<Rightarrow> None
         | Some v \<Rightarrow> (case json_marshal v of Inl e \<Rightarrow> None | Inr j \<Rightarrow> Some (json_decode j)))"
    by (simp_all add: get_key_def b(2))
qed

end
