(* ===== verification/Execution_Scenario.thy ===== *)
theory Execution_Scenario
  imports Execution_Store
begin

text \<open>
  Appends of one more fact on the path of \<open>alice\<close>, from the store the first scenario leaves: the
  locale gives their run for every plain draft under a fresh intent, and is interpreted at the completion
  of the execution \<open>alice\<close> and at the record that \<open>alice\<close> spawned a child.
\<close>

section \<open>A second append\<close>

definition second_group :: "RecordDraft \<Rightarrow> AppendGroup" where
  "second_group draft = \<lparr>TraceOwnerID = ''alice'', GroupContext = None, CausalParents = None, FactDrafts = Some [draft]\<rparr>"

definition second_batch :: "string \<Rightarrow> RecordDraft \<Rightarrow> AppendBatch" where
  "second_batch intent draft = \<lparr>AppendIntentID = intent, Groups = Some [second_group draft]\<rparr>"

lemma second_owner: "no_witness_owner (second_batch intent draft)"
  by (simp add: no_witness_owner_def second_batch_def second_group_def witnessTraceOwnerID_def)

locale second_append =
  fixes draft :: RecordDraft and intent :: string
  assumes strings: "list_all valid_string [intent, DraftSchemaRef draft, DraftMode draft, DraftKindLabel draft]"
    and payload: "plain (VMap (elems (DraftPayload draft)))" "DraftPayload draft \<noteq> None"
    and schema: "DraftSchemaRef draft \<noteq> []" "\<not> is_witness_schema (DraftSchemaRef draft)" "DraftSchemaRef draft \<noteq> ''note.v1''"
    and mode: "DraftMode draft = Capture \<or> DraftMode draft = Declaration"
    and fields: "CausedByFactIDs draft = None" "CausedByLocalRefs draft = None" "AppendLocalID draft = []" "DraftKindLabel draft \<noteq> []"
    and new_intent: "intent \<noteq> []" "byte (hd intent) mod 16 \<noteq> byte (CHR ''i'') mod 16"
begin

abbreviation batch :: AppendBatch where
  "batch \<equiv> second_batch intent draft"

lemma valid: "validateBatchShape batch = Inr ()"
proof -
  obtain kvs where kvs: "DraftPayload draft = Some kvs" using payload(2) by blast
  obtain j where "json_marshal (of_gmap (DraftPayload draft)) = Inr j"
    using plain_marshal(1)[OF payload(1)] by (auto simp: of_gmap_def kvs)
  then show ?thesis
    using schema(1) new_intent(1) mode
    by (auto simp: validateBatchShape_def validate_draft_def resolveSchemaRef_def second_batch_def second_group_def json_text_def fields)
qed

lemma digest: "\<exists>dig. batchDigest lib batch demo_ctx = Inr dig"
proof -
  have "\<exists>p. batch_document batch demo_ctx = Inr p \<and> plain p"
    using demo_valid_strings strings payload schema(1)
    by (auto simp: batch_document_def group_document_def draft_document_def resolveSchemaRef_def second_batch_def second_group_def
        demo_ctx_fields contextDraftJSON_def defaultContextDraft_def ContainContained_def NonNilStrings_def fields
        nullableString_def of_gmap_def of_strings_def)
  then obtain p where p: "batch_document batch demo_ctx = Inr p" "plain p" by blast
  then show ?thesis using plain_bytes[of p lib True]
    by (auto simp: batchDigest_def canonical_json_ascii_bytes_def)
qed

lemma ctx_fresh:
  assumes "demo_ids demo_lib c wp i"
  shows "\<exists>c2. resolveGroupContextTx demo_lib (demo_db demo_lib dig c wp i) intent 0 (second_group draft) demo_ctx = Inr (demo_context c2)
    \<and> c2 \<noteq> c"
proof -
  obtain x xs where x: "intent = x # xs" using new_intent(1) by (cases intent) auto
  with new_intent(2) have "byte x mod 16 \<noteq> byte (CHR ''i'') mod 16" by simp
  from second_context[OF assms this refl, of dig] show ?thesis by (simp add: resolveGroupContextTx_def second_group_def x)
qed

lemma plan_same:
  assumes "demo_ids lib c wp i"
  shows "ordinaryWitnessPlan lib (demo_context c2) demo_ctx = Inr wp"
proof -
  have "ordinary_body (demo_context c2) demo_ctx = ordinary_body (demo_context c) demo_ctx"
    by (simp add: ordinary_body_def demo_context_def)
  then show ?thesis using assms by (simp add: demo_ids_def ordinaryWitnessPlan_def)
qed

lemma record_fresh:
  assumes "demo_ids lib c wp i" "lib_ok lib" "inj (sha256 lib)"
  shows "\<exists>i2. RecordDigest lib (DraftSchemaRef draft) (DraftMode draft) (DraftPayload draft) [] (planID wp) = Inr i2
    \<and> i2 \<noteq> RootWitnessRecordIDMust lib \<and> i2 \<noteq> planID wp \<and> i2 \<noteq> i"
proof -
  note ids = assms(1)[unfolded demo_ids_def]
  have w: "valid_string (planID wp)" "has_prefix (planID wp) ''sha256:''"
    using ids ordinaryWitnessPlan_Inr(6) digest_valid RecordDigest_prefix by blast+
  obtain i2 where i2: "RecordDigest lib (DraftSchemaRef draft) (DraftMode draft) (DraftPayload draft) [] (planID wp) = Inr i2"
    using RecordDigest_plain[OF payload(1), of "[]" "DraftSchemaRef draft" "planID wp" "DraftMode draft" lib]
      w strings schema mode by (auto simp: is_witness_schema_def)
  have ok: "gval_ok (VMap (elems (DraftPayload draft)))" by (rule plain_ok[OF payload(1)])
  have "plan_ok lib (rootWitnessPlan lib)" "plan_ok lib wp" using ids by (auto simp: plan_ok_def)
  then have "planID (rootWitnessPlan lib) \<noteq> i2" "planID wp \<noteq> i2" using witness_ids_apart[OF assms(2,3) i2 ok schema(2)] by blast+
  moreover have "i2 \<noteq> i"
  proof
    assume e: "i2 = i"
    have inj: "inj_on (sha256 lib) A" for A using assms(3) by (rule inj_on_subset) simp
    have "RecordDigest lib ''note.v1'' ''capture'' (Some [(''done'', VBool True)]) [] (planID wp) = Inr i2" using ids e by blast
    from RecordDigest_inject[OF assms(2) ok _ i2 this inj] schema(3) show False by simp
  qed
  ultimately show ?thesis using i2 by (auto simp: rootWitnessPlan_def)
qed

lemma run:
  assumes ids: "demo_ids demo_lib c wp i" "batchDigest demo_lib demo_batch demo_ctx = Inr dig"
  obtains r s' where "Append demo_lib demo_env TrustedAppendContext batch (demo_store\<lparr>Db := demo_db demo_lib dig c wp i\<rparr>) = (Inr r, s')"
    "find_intent (demo_db demo_lib dig c wp i) intent = None" "set (FactIDs r) \<inter> row_ids (demo_db demo_lib dig c wp i) = {}"
    "store_step demo_lib (demo_store\<lparr>Db := demo_db demo_lib dig c wp i\<rparr>) s'"
proof -
  let ?d = "demo_db demo_lib dig c wp i" and ?g = "second_group draft"
  note lib = demo_lib_ok
  have ok: "db_ok ?d" using demo_db_inv[OF ids(1) lib(1,2) ids(2)] by blast
  obtain c2 where c2: "resolveGroupContextTx demo_lib ?d intent 0 ?g demo_ctx = Inr (demo_context c2)" "c2 \<noteq> c"
    using ctx_fresh[OF ids(1)] by blast
  obtain i2 where i2: "RecordDigest demo_lib (DraftSchemaRef draft) (DraftMode draft) (DraftPayload draft) [] (planID wp) = Inr i2"
    "i2 \<noteq> RootWitnessRecordIDMust demo_lib" "i2 \<noteq> planID wp" "i2 \<noteq> i"
    using record_fresh[OF ids(1) lib(1,2)] by blast
  let ?r = "draft_record ?g (demo_context c2) wp draft (DraftSchemaRef draft) [] i2 1"
  let ?rc = "\<lparr>ReceiptIntentID = intent, FactIDs = [i2], CommitReceipts = [commit_receipt 1],
    OwnerRanges = [(''alice'', 1, 1)], CausalEdges = [], ContextReceipts = [c2]\<rparr>"
  have b: "Groups batch = Some [?g]" "AppendIntentID batch = intent" "FactDrafts ?g = Some [draft]" "groupOwner ?g = ''alice''"
    by (simp_all add: second_batch_def second_group_def groupOwner_def)
  have n: "NextCommitSeq ?d = Some 1" by (simp add: demo_db_def)
  have x: "ContextID (demo_context c2) = c2" "\<not> contextExistsTx ?d c2"
    using c2(2) by (auto simp: contextExistsTx_def find_context_def demo_db_def context_row_of_def demo_context_def demo_store_def)
  have w: "planID wp \<noteq> RootWitnessRecordIDMust demo_lib" using ids by (simp add: demo_ids_def)
  have cs: "resolvedCauses ?g draft Map.empty = Inr []" by (simp add: resolvedCauses_def fields second_group_def)
  have v: "validateCausalParentsTx ?d {} [] = Inr ()" by (simp add: validateCausalParentsTx_def)
  note p = prepare_single[of batch ?g draft ?d 1 demo_lib demo_ctx "demo_context c2" wp "[]" i2,
      unfolded b x, OF refl refl n c2(1) x(2) plan_same[OF ids(1)] w cs v schema(1) i2(1)]
  have prep: "prepareAppend demo_lib ?d batch demo_ctx = Inr ([demo_context c2], [rootWitnessPlan demo_lib, wp], [?r], ?rc)"
    by (subst p) (simp_all add: demo_db_tables)
  obtain dg where dg: "batchDigest demo_lib batch demo_ctx = Inr dg" using digest by blast
  have r: "RecordID (Envelope ?r) = i2" "Digest (Envelope ?r) = i2" "set (elems (CausedByIDs (Envelope ?r))) \<subseteq> {i}"
    "View ?r = Some \<lparr>ViewOwner = ''alice'', ViewOrdinal = 1, ViewContextRef = c2, ViewKindLabel = DraftKindLabel draft\<rparr>"
    by (simp_all add: draft_record_def groupOwner_def second_group_def fields x(1))
  have new: "intent \<noteq> ''intent-1''" using new_intent by auto
  have ne: "AppendIntentID batch \<noteq> ''intent-1''" "CommitReceipts ?rc = [commit_receipt 1]" "OwnerRanges ?rc = [(''alice'', 1, 1)]"
    by (simp_all add: b new)
  from second_write[OF ids(1) ok c2(2) i2(2-4) r ne] obtain d' where
    d': "write_append batch dg ([demo_context c2], [rootWitnessPlan demo_lib, wp], [?r], ?rc) ?d = Inr d'" by blast
  have fi: "find_intent ?d intent = None" using new by (simp add: find_intent_def demo_db_def)
  then have "appendInTx demo_lib demo_ctx batch ?d = Inr ((?rc, True), d')"
    using d' by (simp add: appendInTx_def valid dg prep b(2))
  then have a: "Append demo_lib demo_env TrustedAppendContext batch (demo_store\<lparr>Db := ?d\<rparr>) = (Inr ?rc, demo_store\<lparr>Db := d'\<rparr>)"
    by (simp add: Append_def demo_valid valid demo_env_def publishAppendEvents_def Let_def) (simp add: demo_store_def)
  moreover have "set (FactIDs ?rc) \<inter> row_ids ?d = {}" using i2(2-4) by (simp add: demo_db_tables)
  ultimately show thesis using that fi store_step.append[OF a second_owner] by blast
qed

end

section \<open>Completing the execution, and spawning a child\<close>

definition done_outputs :: gmap where
  "done_outputs = Some [(''n'', VInt 5)]"

abbreviation done_batch :: AppendBatch where
  "done_batch \<equiv> CompleteExecutionBatch ''done-1'' ''alice'' done_outputs None"

abbreviation done_draft :: RecordDraft where
  "done_draft \<equiv> ExecutionCompletedDraft ''alice'' done_outputs"

abbreviation spawn_batch :: AppendBatch where
  "spawn_batch \<equiv> CreateExecutionRelationBatch ''spawn-1'' ''rel:1'' RelationSpawned ''alice'' ''bob'' [] None"

abbreviation spawn_draft :: RecordDraft where
  "spawn_draft \<equiv> executionRelationCreatedDraft ''rel:1'' RelationSpawned ''alice'' ''bob'' []"

lemma done_strings: "list_all valid_string [''done-1'', ''alice'', ''execution_id'', ''outputs'', ''n'', ''execution_completed'',
    ''shepherd2.execution.completed.v1'', ''spawn-1'', ''relation_created'', ''shepherd2.execution_relation.created.v1'', ''relation_id'',
    ''relation_kind'', ''parent_execution_id'', ''child_execution_id'', ''child_frontier_id'', ''rel:1'', ''spawned'', ''bob'']"
  by (simp only: list.pred_inject simp_thms, intro conjI; rule valid_string_ascii; simp add: byte_def)

lemmas done_valid_strings = demo_valid_strings done_strings[unfolded list.pred_inject simp_thms]

lemma done_batch_eq: "done_batch = second_batch ''done-1'' done_draft"
  by (simp add: CompleteExecutionBatch_def second_batch_def second_group_def)

lemma spawn_batch_eq: "spawn_batch = second_batch ''spawn-1'' spawn_draft"
  by (simp add: CreateExecutionRelationBatch_def second_batch_def second_group_def)

lemmas second_defs = ExecutionCompletedDraft_def SchemaExecutionCompleted_def executionRelationCreatedDraft_def SchemaExecutionRelation_def
  RelationSpawned_def done_outputs_def of_gmap_def NonNilMap_def nullableString_def is_witness_schema_def RootWitnessSchemaRef_def
  WitnessSchemaRef_def Capture_def

interpretation completing: second_append done_draft "''done-1''"
  by unfold_locales (use done_valid_strings in \<open>simp_all add: second_defs byte_def\<close>)

interpretation spawning: second_append spawn_draft "''spawn-1''"
  by unfold_locales (use done_valid_strings in \<open>simp_all add: second_defs byte_def\<close>)

text \<open>The first scenario's fact on the path of \<open>alice\<close>.\<close>

lemma demo_fact:
  assumes "demo_ids lib c wp i" "db_ok (demo_db lib dig c wp i)"
  obtains p where "owner_entries (demo_db lib dig c wp i) ''alice'' = [p]" "PathRecord p = i" "PathOrdinal p = 0"
    "schema_of (entry_fact (demo_db lib dig c wp i) p) = ''note.v1''"
proof -
  let ?d = "demo_db lib dig c wp i" and ?p = "demo_entry ''alice'' 0 i c ''note.v1'' (commit_receipt 0)"
  have es: "owner_entries ?d ''alice'' = [?p]" by (simp add: owner_entries_def demo_db_def demo_entry_def witnessTraceOwnerID_def)
  have "find_record ?d i = Some (record_row_of (demo_record c wp i) ''intent-1'')"
    using assms(1) by (auto simp: find_record_def demo_db_def record_row_of_def witness_fact_def rootWitnessPlan_def demo_record_def
        draft_record_def demo_ids_def)
  moreover have "?p \<in> set (PathEntries ?d)" by (simp add: demo_db_def)
  ultimately have "schema_of (entry_fact ?d ?p) = ''note.v1''"
    using entry_fact_row[OF assms(2), of ?p] by (force simp: demo_entry_def record_row_of_def demo_record_def draft_record_def)
  with that[OF es] show thesis by (simp add: demo_entry_def)
qed

end
