(* ===== verification/Execution_Properties.thy ===== *)
theory Execution_Properties
  imports Execution_Scenario
begin

text \<open>The properties of execution projections and of effective history.\<close>

section \<open>Projections and the log\<close>

text \<open>C13: Projecting an execution from a read of its owner's path never fails on a store that keeps its
  invariant, for any reader that sees payloads, and gives the reference reading of the owner's log:
  each field is decided by the last fact of the kind that speaks of it (the last creation for the
  task, the parent and the inputs, the last start, the last completion or failure for the outputs and
  the error, the last life-cycle fact for the status), among the facts of the prefix that do not
  name another execution.  The cutoff is the last entry of the prefix.\<close>

theorem projection_reads_the_log:
  assumes "db_ok (Db s)" "witnessed (Db s)" "ow \<noteq> []" "payload_reader auth"
  shows "\<exists>sl. ReadOwnerPrefix None auth ow t ModeBoth s = Inr sl
    \<and> ProjectExecution sl ow None = Inr (execution_of ow (prefix_cutoff (Db s) ow t)
        (filter (\<lambda>r. \<not> other_execution (Body r) ow) (map (entry_fact (Db s)) (take (nat (t + 1)) (owner_entries (Db s) ow)))))"
proof -
  obtain sl where "ReadOwnerPrefix None auth ow t ModeBoth s = Inr sl" using read_prefix_eq[OF assms] by blast
  with project_prefix[OF assms this] show ?thesis by (auto simp: own_facts_def)
qed

theorem projection_reads_the_log_witness:
  "\<exists>s sl e. ReadOwnerPrefix None TrustedReadContext ''alice'' 0 ModeBoth s = Inr sl \<and> ProjectExecution sl ''alice'' None = Inr e
    \<and> Status e = ExecutionPending \<and> ThroughOwnerOrdinal (Cutoff e) = 0"
proof -
  obtain dig c wp i where d: "demo_ids demo_lib c wp i" "store_inv demo_lib (demo_store\<lparr>Db := demo_db demo_lib dig c wp i\<rparr>)"
    by (rule demo_run)
  let ?s = "demo_store\<lparr>Db := demo_db demo_lib dig c wp i\<rparr>"
  have inv: "db_ok (Db ?s)" "witnessed (Db ?s)" using d(2) by (simp_all add: store_inv_def)
  note pr = trusted_payloads
  obtain p where es: "owner_entries (Db ?s) ''alice'' = [p]" "PathOrdinal p = 0" "schema_of (entry_fact (Db ?s) p) = ''note.v1''"
    using demo_fact[OF d(1)] inv(1) by auto
  have "status_after (last_where (\<lambda>r. is_created r \<or> is_started r \<or> is_terminal r)
      (filter (\<lambda>r. \<not> other_execution (Body r) ''alice'') (map (entry_fact (Db ?s)) [p]))) = ExecutionPending"
    using es(3) by (simp add: last_where_def status_after_def lifecycle_defs SchemaExecutionCreated_def SchemaExecutionStarted_def
        SchemaExecutionCompleted_def SchemaExecutionFailed_def)
  moreover have "ThroughOwnerOrdinal (prefix_cutoff (Db ?s) ''alice'' 0) = 0"
    unfolding prefix_cutoff_def es(1) by (simp add: es(2))
  ultimately show ?thesis
    using projection_reads_the_log[OF inv _ pr, of "''alice''" 0] es(1) by (fastforce simp: execution_of_def Let_def)
qed

text \<open>C26: The active relations are those whose latest fact, of all the facts with their relation id, is a
  spawn or an adoption, in the order in which the ids first appear: abandoning drops a child,
  adopting over a spawn replaces it, and no other relation is lost or moved.\<close>

theorem active_relations_latest:
  "activeRelations rs = filter (\<lambda>r. RelationKind r = RelationSpawned \<or> RelationKind r = RelationAdopted)
    (map (\<lambda>i. last (filter (\<lambda>r. RelationID r = i) rs)) (dedup_loop {} (map RelationID rs)))"
proof -
  have "map (\<lambda>i. the (last_where (\<lambda>r. RelationID r = i) rs)) (dedup_loop {} (map RelationID rs))
      = map (\<lambda>i. last (filter (\<lambda>r. RelationID r = i) rs)) (dedup_loop {} (map RelationID rs))"
    by (rule map_cong) (auto simp: dedup_loop_set last_where_def filter_empty_conv Let_def)
  then show ?thesis unfolding activeRelations_eq is_active_def[abs_def] by (simp only:)
qed

section \<open>Completing an execution\<close>

text \<open>C14: Appending the completion of an execution changes its projection in these fields and in no other:
  the status is succeeded, the error is gone, the terminal fact is the new record, and the outputs are
  the given ones as JSON reads them back.\<close>

theorem completion_projects_success:
  assumes "reachable lib s" "lib_ok lib" "inj (sha256 lib)"
    and "Append lib env auth (CompleteExecutionBatch intent ex outputs caused) s = (Inr r, s')" "find_intent (Db s) intent = None"
    and "set (FactIDs r) \<inter> row_ids (Db s) = {}" "ex \<noteq> witnessTraceOwnerID" "gval_ok (of_gmap (NonNilMap outputs))"
    and "payload_reader rauth" "int (length (owner_log (Db s) ex)) \<le> t"
    and "ReadOwnerPrefix None rauth ex t ModeBoth s = Inr sl" "ReadOwnerPrefix None rauth ex t ModeBoth s' = Inr sl'"
  shows "\<exists>e e' i j. ProjectExecution sl ex None = Inr e \<and> ProjectExecution sl' ex None = Inr e' \<and> FactIDs r = [i]
    \<and> json_marshal (of_gmap (NonNilMap outputs)) = Inr j \<and> of_gmap (Outputs e') = json_decode j
    \<and> ThroughFactID (Cutoff e') = i
    \<and> e' = e\<lparr>Outputs := Outputs e', ErrorText := [], TerminalFactID := i, Status := ExecutionSucceeded, Cutoff := Cutoff e'\<rparr>"
proof -
  let ?d = "Db s" and ?d' = "Db s'" and ?b = "CompleteExecutionBatch intent ex outputs caused"
  let ?draft = "ExecutionCompletedDraft ex outputs"
  let ?g = "\<lparr>TraceOwnerID = ex, GroupContext = None, CausalParents = caused, FactDrafts = Some [?draft]\<rparr>"
  have inv: "db_ok ?d" "witnessed ?d" using reachable_inv[OF assms(1) root_unique_inj[OF assms(3,2)]] by (simp_all add: store_inv_def)
  have b: "AppendIntentID ?b = intent" "batch_drafts ?b = [(?g, ?draft)]" "TraceOwnerID ?g = ex" "no_witness_owner ?b" "drafts_ok ?b"
    using assms(7,8) by (simp_all add: CompleteExecutionBatch_def batch_drafts_def no_witness_owner_def drafts_ok_def
        ExecutionCompletedDraft_def is_witness_schema_def SchemaExecutionCompleted_def RootWitnessSchemaRef_def WitnessSchemaRef_def)
  have dr: "DraftSchemaRef ?draft = SchemaExecutionCompleted"
    "DraftPayload ?draft = Some [(''execution_id'', VString ex), (''outputs'', of_gmap (NonNilMap outputs))]"
    by (simp_all add: ExecutionCompletedDraft_def)
  have fi: "find_intent ?d (AppendIntentID ?b) = None" unfolding b(1) by (rule assms(5))
  obtain i p where a: "FactIDs r = [i]" "owner_entries ?d' ex = owner_entries ?d ex @ [p]" "PathRecord p = i" "db_ok ?d'" "witnessed ?d'"
    "extends ?d ?d'" "draft_row lib ?d' (?g, ?draft) i" "validateBatchShape ?b = Inr ()"
    by (rule appended_single[OF assms(4) fi inv assms(2,3) b(2,5,3) assms(7) b(4) assms(6)])
  have v: "\<exists>j. json_marshal (of_gmap (DraftPayload ?draft)) = Inr j" "ex \<noteq> []"
    using validated_drafts[OF a(8), of ?g ?draft] by (simp_all add: b(2))
  then obtain j0 where j0: "json_marshal (of_gmap (DraftPayload ?draft)) = Inr j0" by blast
  have "of_gmap (DraftPayload ?draft) = VMap [(''execution_id'', VString ex), (''outputs'', of_gmap (NonNilMap outputs))]"
    by (simp add: dr(2) of_gmap_def)
  from marshal_member[OF j0[unfolded this], of "''outputs''"] obtain j where j: "json_marshal (of_gmap (NonNilMap outputs)) = Inr j" by auto
  have pe: "p \<in> set (PathEntries ?d')" using a(2) by (metis in_set_conv_decomp mem_Collect_eq owner_entries_def set_filter)
  obtain cs w where "RecordDigest lib (DraftSchemaRef ?draft) (DraftMode ?draft) (DraftPayload ?draft) cs w = Inr i"
    using a(7) by (auto simp: draft_row_def)
  from payload_strings_valid[OF this[unfolded dr(2)], of "''execution_id''" ex] have vex: "valid_string ex" by simp
  have keys: "list_all (\<lambda>(k, v). valid_string k) [(''execution_id'', VString ex), (''outputs'', of_gmap (NonNilMap outputs))]"
    using done_valid_strings by simp
  note body = appended_body[OF a(4) pe a(7)[folded a(3)] j0 dr(2) _ keys]
  let ?r = "entry_fact ?d' p"
  have r: "schema_of ?r = SchemaExecutionCompleted" "RecordID (Envelope ?r) = i" "get_key (Body ?r) ''execution_id'' = Some (VString ex)"
    "get_key (Body ?r) ''outputs'' = Some (json_decode j)"
    using body(1,2) body(3)[of "''execution_id''"] body(3)[of "''outputs''"] a(3) j by (simp_all add: dr(1) to_valid_id[OF vex])
  have own: "\<not> other_execution (Body ?r) ex" by (simp add: other_execution_def r(3))
  have t: "nat (t + 1) \<ge> length (owner_entries ?d ex) + 1" using assms(10) by (simp add: owner_log_def)
  have ps: "owner_prefix ?d ex t = owner_entries ?d ex" "owner_prefix ?d' ex t = owner_entries ?d ex @ [p]"
    using t by (simp_all add: a(2))
  have sub: "set (owner_entries ?d ex) \<subseteq> set (PathEntries ?d)" by (auto simp: owner_entries_def)
  then have m: "map (entry_fact ?d') (owner_entries ?d ex) = map (entry_fact ?d) (owner_entries ?d ex)"
    using extends_entry_fact[OF a(6) inv(1)] by (auto intro: map_cong)
  have facts: "own_facts ?d' (owner_prefix ?d' ex t) ex = own_facts ?d (owner_prefix ?d ex t) ex @ [?r]"
    unfolding own_facts_def ps map_append filter_append m using own by simp
  let ?e = "execution_of ex (prefix_cutoff ?d ex t) (own_facts ?d (owner_prefix ?d ex t) ex)"
  let ?e' = "(fold_execution ?r ?e)\<lparr>Cutoff := prefix_cutoff ?d' ex t\<rparr>"
  have pe: "ProjectExecution sl ex None = Inr ?e" by (rule project_prefix[OF inv v(2) assms(9,11)])
  have pe': "ProjectExecution sl' ex None = Inr ?e'"
    using project_prefix[OF a(4,5) v(2) assms(9,12)] unfolding facts execution_of_snoc[symmetric] execution_of_cutoff .
  have fold: "fold_execution ?r ?e = ?e\<lparr>Outputs := payloadMap (Body ?r) ''outputs'', ErrorText := [], TerminalFactID := i, Status := ExecutionSucceeded\<rparr>"
    by (simp add: fold_execution_def r)
  have "ThroughFactID (prefix_cutoff ?d' ex t) = i" unfolding prefix_cutoff_def ps by (simp add: a(3))
  moreover obtain kvs where "json_decode j = VMap kvs" using j by (auto simp: of_gmap_def NonNilMap_def bindR_eq_Inr)
  ultimately show ?thesis
    using a(1) j pe pe' r(4) unfolding fold
    by (intro exI[of _ ?e] exI[of _ "?e\<lparr>Outputs := payloadMap (Body ?r) ''outputs'', ErrorText := [], TerminalFactID := i,
        Status := ExecutionSucceeded, Cutoff := prefix_cutoff ?d' ex t\<rparr>"] exI[of _ i] exI[of _ j])
      (simp add: payloadMap_def of_gmap_def)
qed

theorem completion_projects_success_witness:
  "\<exists>s r s' sl' e. Append demo_lib demo_env TrustedAppendContext done_batch s = (Inr r, s')
    \<and> ReadOwnerPrefix None TrustedReadContext ''alice'' 7 ModeBoth s' = Inr sl' \<and> ProjectExecution sl' ''alice'' None = Inr e
    \<and> Status e = ExecutionSucceeded \<and> FactIDs r = [TerminalFactID e] \<and> of_gmap (Outputs e) = VMap [(''n'', VNumber ''5'')]"
proof -
  obtain dig c wp i where d: "demo_ids demo_lib c wp i" "batchDigest demo_lib demo_batch demo_ctx = Inr dig"
    "reachable demo_lib (demo_store\<lparr>Db := demo_db demo_lib dig c wp i\<rparr>)" by (rule demo_run)
  let ?s = "demo_store\<lparr>Db := demo_db demo_lib dig c wp i\<rparr>"
  obtain r s' where a: "Append demo_lib demo_env TrustedAppendContext done_batch ?s = (Inr r, s')"
    "find_intent (Db ?s) ''done-1'' = None" "set (FactIDs r) \<inter> row_ids (Db ?s) = {}"
    "store_step demo_lib ?s s'"
    using completing.run[OF d(1,2)] unfolding done_batch_eq by auto
  have "reachable demo_lib s'" using d(3) a(4) unfolding reachable_def by (rule rtranclp.rtrancl_into_rtrancl)
  from reachable_inv[OF this demo_lib_ok(3)] reachable_inv[OF d(3) demo_lib_ok(3)]
  have inv: "db_ok (Db ?s)" "witnessed (Db ?s)" "db_ok (Db s')" "witnessed (Db s')" by (simp_all add: store_inv_def)
  note pr = trusted_payloads
  have ow: "''alice'' \<noteq> []" "''alice'' \<noteq> witnessTraceOwnerID" by (simp_all add: witnessTraceOwnerID_def)
  obtain sl sl' where rd: "ReadOwnerPrefix None TrustedReadContext ''alice'' 7 ModeBoth ?s = Inr sl"
    "ReadOwnerPrefix None TrustedReadContext ''alice'' 7 ModeBoth s' = Inr sl'"
    using read_prefix_eq[OF inv(1,2) ow(1) pr] read_prefix_eq[OF inv(3,4) ow(1) pr] by blast
  have g: "gval_ok (of_gmap (NonNilMap done_outputs))" by (simp add: done_outputs_def NonNilMap_def of_gmap_def)
  have l: "int (length (owner_log (Db ?s) ''alice'')) \<le> 7"
    by (simp add: owner_log_def owner_entries_def demo_db_def demo_entry_def witnessTraceOwnerID_def)
  have five: "dec_of_nat 5 = ''5''" by code_simp
  have o: "json_marshal (of_gmap (NonNilMap done_outputs)) = Inr j \<Longrightarrow> json_decode j = VMap [(''n'', VNumber ''5'')]" for j
    using done_valid_strings by (auto simp: done_outputs_def NonNilMap_def of_gmap_def sorted_fields_def bindR_eq_Inr itoa_def to_valid_id five)
  from completion_projects_success[OF d(3) demo_lib_ok(1,2) a(1-3) ow(2) g pr l rd] obtain e e' i j where
    "ProjectExecution sl' ''alice'' None = Inr e'" "FactIDs r = [i]" "json_marshal (of_gmap (NonNilMap done_outputs)) = Inr j"
    "of_gmap (Outputs e') = json_decode j"
    "e' = e\<lparr>Outputs := Outputs e', ErrorText := [], TerminalFactID := i, Status := ExecutionSucceeded, Cutoff := Cutoff e'\<rparr>"
    by blast
  moreover from this(5) have "Status e' = ExecutionSucceeded" "TerminalFactID e' = i"
    by (metis Execution.select_convs(4) Execution.surjective Execution.update_convs(4,10), metis Execution.select_convs(9) Execution.surjective Execution.update_convs(4,9,10))
  ultimately show ?thesis using a(1) rd(2) o by metis
qed

section \<open>Frontiers of executions\<close>

text \<open>C25: The terminal-frontier law: publishing an execution frontier either fails and leaves the store as it
  was, or the through fact was a retained completion or failure, on the target's own path at the
  ordinal the frontier names.\<close>

theorem terminal_frontier_law:
  "case PublishExecutionFrontier lib env auth fid target through publisher intent causedBy s of
     (Inl e, s') \<Rightarrow> s' = s
   | (Inr f, s') \<Rightarrow>
       (\<exists>r. readFact (Db s) through = Inr r
         \<and> SchemaRef (Envelope r) \<in> {SchemaExecutionCompleted, SchemaExecutionFailed})
       \<and> FrontierID f = fid \<and> TargetTraceOwnerID f = target \<and> ThroughFactID f = through
       \<and> (through, target, ThroughOwnerOrdinal f) \<in> (\<lambda>p. (PathRecord p, PathRef p, PathOrdinal p)) ` set (PathEntries (Db s))"
proof -
  let ?spec = "\<lparr>SpecFrontierID = fid, SpecTargetOwnerID = target, SpecThroughFactID = through,
    SpecPublisherOwnerID = publisher, SpecAppendIntentID = intent, SpecCausedBy = causedBy\<rparr>"
  obtain res s' where p: "PublishExecutionFrontier lib env auth fid target through publisher intent causedBy s = (res, s')"
    by (cases "PublishExecutionFrontier lib env auth fid target through publisher intent causedBy s")
  show ?thesis
  proof (cases res)
    case (Inl e)
    have "PublishFrontier lib env auth ?spec s = (Inl e, s'') \<Longrightarrow> s'' = s" for s''
      by (auto simp: PublishFrontier_def Let_def split: sum.splits option.splits)
    then show ?thesis using p Inl by (auto simp: PublishExecutionFrontier_def split: sum.splits VisibleRecord.splits if_splits)
  next
    case (Inr f)
    from p Inr obtain r where r: "readFact (Db s) through = Inr r"
      "SchemaRef (Envelope r) \<in> {SchemaExecutionCompleted, SchemaExecutionFailed}" "PublishFrontier lib env auth ?spec s = (Inr f, s')"
      by (auto simp: PublishExecutionFrontier_def ReadFact_def bindR_eq_Inr split: sum.splits VisibleRecord.splits if_splits)
    obtain d' where "publishFrontierInTx lib (append_operation_context auth OpPublishCut) ?spec (Db s) = Inr (f, d')"
      using r(3) by (auto simp: PublishFrontier_def Let_def split: sum.splits option.splits)
    then have "FrontierID f = fid \<and> TargetTraceOwnerID f = target \<and> ThroughFactID f = through
       \<and> (through, target, ThroughOwnerOrdinal f) \<in> (\<lambda>p. (PathRecord p, PathRef p, PathOrdinal p)) ` set (PathEntries (Db s))"
    proof (cases rule: publishFrontierInTx_Inr)
      case (1 t view receipt isNew d1 i rest)
      have "same_cutoff f \<lparr>FrontierID = fid, TargetTraceOwnerID = target, ThroughFactID = through,
          ThroughOwnerOrdinal = ViewOrdinal view, PublisherOwnerID = frontier_publisher ?spec, CreatedByFactID = i\<rparr>"
        using 1(7) by (auto simp: index_frontier_def same_cutoff_def bindR_eq_Inr split: sum.splits if_splits)
      moreover obtain q where "q \<in> set (PathEntries (Db s))" "PathRecord q = through" "PathRef q = target" "PathOrdinal q = ViewOrdinal view"
        using readLatestFactOnPath_entry[OF 1(2,3)] by auto
      ultimately show ?thesis by (auto simp: same_cutoff_def image_iff)
    qed
    with r(1,2) show ?thesis by (simp add: p Inr)
  qed
qed

text \<open>C40: Projecting from the store does not check that the cutoff it is handed is the one it resolves: a
  cutoff with the id of a published frontier but another target resolves, shows nothing on that
  target's path, and comes back as a pending execution of the target, with the given cutoff.\<close>

theorem foreign_cutoff_projects_pending:
  assumes "reachable lib s" "root_unique lib" "payload_reader auth"
    and "ResolveFrontier None auth (FrontierID c) ModeBoth s = Inr sl" "SliceFrontier sl = Some f"
    and "TargetTraceOwnerID c \<noteq> TargetTraceOwnerID f"
  shows "ProjectExecutionFromStore None auth c s = Inr ((new_execution (TargetTraceOwnerID c))\<lparr>Cutoff := c\<rparr>)"
proof -
  have inv: "db_ok (Db s)" "witnessed (Db s)"
    using reachable_inv[OF assms(1,2)] by (simp_all add: store_inv_def)
  from resolve_inv[OF assms(4) inv] obtain f' support where sl: "sl = slice_of (Db s) (Some f')
      (VisibilityProfile (read_operation_context auth)) ModeBoth True (entry_facts (Db s) ModeBoth (cut_entries (Db s) f')) support" by blast
  have f': "f' = f" using assms(5) by (simp add: sl)
  have "\<forall>p\<in>set (cut_entries (Db s) f'). PathRef p \<noteq> TargetTraceOwnerID c"
    using assms(6) by (auto simp: cut_entries_def owner_entries_def f' dest!: in_set_takeD)
  from project_foreign[OF this reader_visibility[OF assms(3)]]
  have "ProjectExecution sl (TargetTraceOwnerID c) (Some c) = Inr (execution_of (TargetTraceOwnerID c) c [])" by (simp add: sl)
  then show ?thesis using assms(4) by (simp add: ProjectExecutionFromStore_def execution_of_def status_after_def new_execution_def)
qed

theorem foreign_cutoff_projects_pending_witness:
  "\<exists>s c e. ProjectExecutionFromStore None TrustedReadContext c s = Inr e \<and> FrontierID c = ''f1'' \<and> ExecutionID e = ''bob''
    \<and> Status e = ExecutionPending \<and> Cutoff e = c"
proof -
  obtain dig c wp i where d: "demo_ids demo_lib c wp i" "batchDigest demo_lib demo_batch demo_ctx = Inr dig"
    "reachable demo_lib (demo_store\<lparr>Db := demo_db demo_lib dig c wp i\<rparr>)" by (rule demo_run)
  obtain i2 s where p: "PublishFrontier demo_lib demo_env cut_auth (cut_spec i) (demo_store\<lparr>Db := demo_db demo_lib dig c wp i\<rparr>)
      = (Inr (cut_of i i2), s)" "fresh_cut (demo_db demo_lib dig c wp i) (cut_spec i) (cut_of i i2)" "reachable demo_lib s"
    by (rule cut_run[OF d(1,2)])
  have "int64_room (Db (demo_store\<lparr>Db := demo_db demo_lib dig c wp i\<rparr>)) 1" using demo_reachable(2)[OF d(1,2)] by simp
  from published_cut[OF d(3) demo_lib_ok(1,2) this p(1)] p(2) have n: "db_ok (Db s)" "witnessed (Db s)"
    "readOwnerCutoff (Db s) ''f1'' = Inr (cut_of i i2)" "cut_entry (Db s) (cut_of i i2)" by (simp_all add: cut_names)
  from resolve_eq[OF n trusted_reader] obtain sl where r: "ResolveFrontier None TrustedReadContext ''f1'' ModeBoth s = Inr sl"
    "SliceFrontier sl = Some (cut_of i i2)" by auto
  let ?c = "(cut_of i i2)\<lparr>TargetTraceOwnerID := ''bob''\<rparr>"
  note pr = trusted_payloads
  have "FrontierID ?c = ''f1''" "TargetTraceOwnerID ?c \<noteq> TargetTraceOwnerID (cut_of i i2)" by (simp_all add: cut_of_def)
  with foreign_cutoff_projects_pending[OF p(3) demo_lib_ok(3) pr, of ?c sl "cut_of i i2"] r
  have "ProjectExecutionFromStore None TrustedReadContext ?c s = Inr ((new_execution ''bob'')\<lparr>Cutoff := ?c\<rparr>)" by simp
  then show ?thesis by (intro exI[of _ s] exI[of _ ?c]) (simp add: cut_of_def new_execution_def)
qed

end
