(* ===== verification/History_Properties.thy ===== *)
theory History_Properties
  imports Execution_Properties
begin

text \<open>The properties of effective history.\<close>

section \<open>The vocabularies\<close>

definition status_vocabulary :: "string set" where
  "status_vocabulary = {ExecutionPending, ExecutionRunning, ExecutionSucceeded, ExecutionFailed}"

definition relation_vocabulary :: "string set" where
  "relation_vocabulary = {RelationSpawned, RelationAdopted, RelationAbandoned}"

lemma execution_of_typed: "Status (execution_of ow c rs) \<in> status_vocabulary" "ExecutionID (execution_of ow c rs) = ow"
  "Cutoff (execution_of ow c rs) = c"
  by (auto simp: execution_of_def Let_def status_after_def status_vocabulary_def split: option.splits)

lemma projected_typed:
  assumes "ProjectExecution sl ow cutoff = Inr e"
  shows "Status e \<in> status_vocabulary" "ExecutionID e = ow"
    "Cutoff e = (case cutoff of Some f \<Rightarrow> f | None \<Rightarrow> executionCutoffFrom sl ow)"
proof -
  obtain c rs where "e = execution_of ow c rs" "c = (case cutoff of Some f \<Rightarrow> f | None \<Rightarrow> executionCutoffFrom sl ow)"
    using assms by (auto simp: ProjectExecution_eq bindR_eq_Inr)
  then show "Status e \<in> status_vocabulary" "ExecutionID e = ow"
    "Cutoff e = (case cutoff of Some f \<Rightarrow> f | None \<Rightarrow> executionCutoffFrom sl ow)"
    using execution_of_typed by simp_all
qed

lemma relations_typed:
  assumes "ProjectExecutionRelations sl ow = Inr rs" "r \<in> set rs"
  shows "RelationKind r \<in> relation_vocabulary" "RelParentExecutionID r = ow"
proof -
  have "foldR (project_relation sl ow) [] (owner_path sl ow) = Inr rs" using assms(1) by (auto simp: ProjectExecutionRelations_def bindR_eq_Inr)
  then have "\<forall>r\<in>set rs. RelationKind r \<in> relation_vocabulary \<and> RelParentExecutionID r = ow"
    by (rule foldR_invariant[where P = "\<lambda>rs. \<forall>r\<in>set rs. RelationKind r \<in> relation_vocabulary \<and> RelParentExecutionID r = ow"])
      (auto simp: project_relation_def relationFromPayload_def Let_def bindR_eq_Inr relation_vocabulary_def split: if_splits)
  with assms(2) show "RelationKind r \<in> relation_vocabulary" "RelParentExecutionID r = ow" by blast+
qed

lemma slices_named: "slices_by_frontier sls i = Some sl \<Longrightarrow> \<exists>f. SliceFrontier sl = Some f \<and> FrontierID f = i"
  unfolding slices_by_frontier_def by (induction sls rule: rev_induct) (auto split: option.splits if_splits)

text \<open>A child of a history: an active relation with a frontier, projected from the slice of that frontier.\<close>

definition child_ok :: "Slice list \<Rightarrow> ExecutionRelation list \<Rightarrow> EffectiveChild \<Rightarrow> bool" where
  "child_ok sls rels ch \<longleftrightarrow> ChildRelation ch \<in> set (activeRelations rels) \<and> ChildFrontierID (ChildRelation ch) \<noteq> []
    \<and> Status (ChildExecution ch) \<in> status_vocabulary \<and> ExecutionID (ChildExecution ch) = ChildExecutionID (ChildRelation ch)
    \<and> FrontierID (Cutoff (ChildExecution ch)) = ChildFrontierID (ChildRelation ch)
    \<and> TargetTraceOwnerID (Cutoff (ChildExecution ch)) = ChildExecutionID (ChildRelation ch)"

lemma project_child_ok:
  assumes "project_child (slices_by_frontier sls) chs r = Inr chs'" "r \<in> set (activeRelations rels)" "\<forall>ch\<in>set chs. child_ok sls rels ch"
  shows "\<forall>ch\<in>set chs'. child_ok sls rels ch"
proof (cases "chs' = chs")
  case False
  with assms(1) obtain sl f e where r: "ChildFrontierID r \<noteq> []" "slices_by_frontier sls (ChildFrontierID r) = Some sl"
    "SliceFrontier sl = Some f" "TargetTraceOwnerID f = ChildExecutionID r" "ProjectExecution sl (ChildExecutionID r) None = Inr e"
    "chs' = chs @ [\<lparr>ChildRelation = r, ChildExecution = e\<rparr>]"
    by (auto simp: project_child_def bindR_eq_Inr split: if_splits option.splits)
  have "FrontierID f = ChildFrontierID r" using slices_named[OF r(2)] r(3) by simp
  then have "child_ok sls rels \<lparr>ChildRelation = r, ChildExecution = e\<rparr>"
    using projected_typed[OF r(5)] r(1,3,4) assms(2) by (simp add: child_ok_def executionCutoffFrom_def)
  with assms(3) r(6) show ?thesis by auto
qed (use assms(3) in simp)

section \<open>Properties\<close>

text \<open>C24: Whatever slices it is given, an effective history is well typed: its root is the wanted execution,
  every status is one of the four of the vocabulary, every relation is a spawn, an adoption or an
  abandonment recorded by the root, and every child is an active relation of the root with a child
  frontier, projected at that very frontier, whose target is the related child.\<close>

theorem effective_history_typed:
  assumes "ProjectEffectiveHistory rootSlice ow childSlices = Inr h"
  shows "ExecutionID (HistoryRoot h) = ow \<and> Status (HistoryRoot h) \<in> status_vocabulary
    \<and> (\<forall>r\<in>set (HistoryRelations h). RelationKind r \<in> relation_vocabulary \<and> RelParentExecutionID r = ow)
    \<and> (\<forall>ch\<in>set (HistoryChildren h). child_ok childSlices (HistoryRelations h) ch)"
proof -
  obtain root rels chs pub where h: "ProjectExecution rootSlice ow None = Inr root" "ProjectExecutionRelations rootSlice ow = Inr rels"
    "foldR (project_child (slices_by_frontier childSlices)) [] (activeRelations rels) = Inr chs"
    "h = \<lparr>HistoryRoot = root, HistoryRelations = rels, HistoryChildren = chs, HistoryPublished = pub\<rparr>"
    using assms by (auto simp: ProjectEffectiveHistory_def bindR_eq_Inr)
  have "\<forall>ch\<in>set chs. child_ok childSlices rels ch"
    by (rule foldR_invariant[OF h(3), where P = "\<lambda>chs. \<forall>ch\<in>set chs. child_ok childSlices rels ch"]) (auto dest: project_child_ok)
  with projected_typed[OF h(1)] relations_typed[OF h(2)] show ?thesis by (simp add: h(4))
qed

text \<open>A root that spawned a child which it published a frontier of.\<close>

definition sample_fact :: "string \<Rightarrow> string \<Rightarrow> gmap \<Rightarrow> Record" where
  "sample_fact i schema payload = \<lparr>Envelope = \<lparr>RecordID = i, Digest = i, SchemaRef = schema, Mode = Capture, WitnessRef = [],
    CausedByIDs = None\<rparr>, Body = payload, View = None\<rparr>"

definition sample_slice :: "Frontier option \<Rightarrow> string \<Rightarrow> Record list \<Rightarrow> Slice" where
  "sample_slice fr ow rs = \<lparr>SliceFrontier = fr, SliceVisibility = VisibilityPayload, SliceModeFilter = ModeBoth,
    FactsByID = map (\<lambda>r. (RecordID (Envelope r), Full r)) rs, ContextsByID = [],
    OwnerPaths = [(ow, map (\<lambda>r. RecordID (Envelope r)) rs)], OwnerPathOrder = [ow], SliceCausalEdges = [],
    ExternalAnchors = [], ContextAnchors = [], WitnessesByID = [], WitnessAnchors = []\<rparr>"

definition sample_root :: Slice where
  "sample_root = sample_slice None ''p'' [sample_fact ''r1'' SchemaExecutionRelation
    (DraftPayload (executionRelationCreatedDraft ''rel:1'' RelationSpawned ''p'' ''c'' ''f''))]"

definition sample_child :: Slice where
  "sample_child = sample_slice (Some (zero_frontier\<lparr>FrontierID := ''f'', TargetTraceOwnerID := ''c''\<rparr>)) ''c''
    [sample_fact ''e1'' SchemaExecutionCompleted (DraftPayload (ExecutionCompletedDraft ''c'' None))]"

theorem effective_history_typed_witness:
  "\<exists>h ch. ProjectEffectiveHistory sample_root ''p'' [sample_child] = Inr h \<and> HistoryChildren h = [ch]
    \<and> child_ok [sample_child] (HistoryRelations h) ch \<and> Status (ChildExecution ch) = ExecutionSucceeded"
proof -
  note vis = VisibilityPayload_def VisibilityShapeOnly_def ModeBoth_def
  note schemas = SchemaExecutionRelation_def SchemaExecutionCreated_def SchemaExecutionStarted_def SchemaExecutionCompleted_def
    SchemaExecutionFailed_def SchemaRuntimePublishedFact_def
  have compat: "EnsureProjectionCompatible (sample_slice fr ow rs) ExecutionProjection = Inr ()"
    "EnsureProjectionCompatible (sample_slice fr ow rs) ExecutionRelationProjection = Inr ()" for fr ow rs
    by (simp_all add: EnsureProjectionCompatible_def sample_slice_def ExecutionProjection_def ExecutionRelationProjection_def
        ProjectionRequiresBoth_def ProjectionAcceptsAny_def vis)
  let ?rel = "\<lparr>RelationID = ''rel:1'', RelationKind = RelationSpawned, RelParentExecutionID = ''p'', ChildExecutionID = ''c'',
    ChildFrontierID = ''f'', CreatedFactID = ''r1''\<rparr>"
  have rels: "ProjectExecutionRelations sample_root ''p'' = Inr [?rel]"
    by (simp add: ProjectExecutionRelations_def sample_root_def compat)
      (simp add: sample_slice_def sample_fact_def owner_path_def project_relation_def slice_record_def executionRelationCreatedDraft_def
        relationFromPayload_def payloadString_def get_key_def nullableString_def Let_def)
  have root: "\<exists>e. ProjectExecution sample_root ''p'' None = Inr e"
    by (simp add: ProjectExecution_def sample_root_def compat)
      (simp add: sample_slice_def sample_fact_def owner_path_def project_fact_def slice_record_def)
  have child: "\<exists>e. ProjectExecution sample_child ''c'' None = Inr e \<and> Status e = ExecutionSucceeded"
    by (simp add: ProjectExecution_def sample_child_def compat)
      (simp add: sample_slice_def sample_fact_def owner_path_def project_fact_def slice_record_def ExecutionCompletedDraft_def
        other_execution_def get_key_def fold_execution_def)
  have pub: "projectPublishedFacts sample_root ''p'' = Inr []"
    by (simp add: projectPublishedFacts_def sample_root_def sample_slice_def sample_fact_def owner_path_def project_published_def
        slice_record_def schemas)
  have act: "activeRelations [?rel] = [?rel]" by (simp add: activeRelations_def latest_relation_def is_active_def)
  have sl: "slices_by_frontier [sample_child] ''f'' = Some sample_child"
    "SliceFrontier sample_child = Some (zero_frontier\<lparr>FrontierID := ''f'', TargetTraceOwnerID := ''c''\<rparr>)"
    by (simp_all add: slices_by_frontier_def sample_child_def sample_slice_def)
  obtain r e where "ProjectExecution sample_root ''p'' None = Inr r" "ProjectExecution sample_child ''c'' None = Inr e" "Status e = ExecutionSucceeded"
    using root child by blast
  then have "\<exists>h ch. ProjectEffectiveHistory sample_root ''p'' [sample_child] = Inr h \<and> HistoryChildren h = [ch]
      \<and> Status (ChildExecution ch) = ExecutionSucceeded"
    by (simp add: ProjectEffectiveHistory_def rels act project_child_def sl pub)
  then show ?thesis using effective_history_typed by fastforce
qed

end
