(* ===== verification/History_Store.thy ===== *)
theory History_Store
  imports History_Properties
begin

text \<open>
  Effective histories of a store: every indexed frontier names an entry of its target's path, so
  resolving one fails only as reading its index does; the reference reading of a run tree from
  the logs; that the projection from the store computes it, now and in every later store; and that a
  recorded relation is read back.
\<close>

section \<open>Every indexed frontier can be cut\<close>

definition cuts_ok :: "db \<Rightarrow> bool" where
  "cuts_ok d \<longleftrightarrow> (\<forall>row\<in>set (Frontiers d). cut_entry d (frontier_of_row row))"

lemma cuts_ok_extends:
  assumes "cuts_ok d" "extends d d'" "Frontiers d' = Frontiers d"
  shows "cuts_ok d'"
  using assms by (fastforce simp: cuts_ok_def cut_entry_def extends_def)

lemma index_frontier_cuts:
  assumes "index_frontier f intent d = Inr (f', d')" "cuts_ok d" "cut_entry d f"
  shows "cuts_ok d'"
proof -
  have "PathEntries d' = PathEntries d" "set (Frontiers d') \<subseteq> insert (frontier_row_of f intent) (set (Frontiers d))"
    using assms(1) by (auto simp: index_frontier_def bindR_eq_Inr insert_frontier_def split: sum.splits if_splits)
  moreover have "cut_entry d (frontier_of_row (frontier_row_of f intent))"
    using assms(3) by (simp add: cut_entry_def frontier_of_row_def frontier_row_of_def)
  moreover have "cut_entry d' c = cut_entry d c" for c using calculation(1) by (simp add: cut_entry_def)
  ultimately show ?thesis using assms(2) unfolding cuts_ok_def by blast
qed

lemma publish_cuts:
  assumes "publishFrontierInTx lib ctx spec d = Inr (f, d')" "cuts_ok d"
  shows "cuts_ok d'"
  using assms(1)
proof (cases rule: publishFrontierInTx_Inr)
  case (1 through view receipt isNew d1 i rest)
  let ?f = "\<lparr>FrontierID = SpecFrontierID spec, TargetTraceOwnerID = SpecTargetOwnerID spec, ThroughFactID = SpecThroughFactID spec,
    ThroughOwnerOrdinal = ViewOrdinal view, PublisherOwnerID = frontier_publisher spec, CreatedByFactID = i\<rparr>"
  have e: "extends d d1" by (rule appendInTx_extends[OF 1(5)])
  have "cut_entry d ?f" using readLatestFactOnPath_entry[OF 1(2,3)] by (auto simp: cut_entry_def)
  then have "cut_entry d1 ?f" using e by (auto simp: cut_entry_def extends_def)
  with index_frontier_cuts[OF 1(7)] cuts_ok_extends[OF assms(2) e appendInTx_frontiers[OF 1(5)]] show ?thesis by blast
qed

lemma store_step_cuts:
  assumes "store_step lib s s'" "cuts_ok (Db s)"
  shows "cuts_ok (Db s')"
  using assms(1)
proof cases
  case (append env auth batch res)
  from Append_db[OF append(1)] assms(2) show ?thesis
    using cuts_ok_extends[OF assms(2) store_step_extends[OF assms(1)]] appendInTx_frontiers by fastforce
next
  case (publish env auth spec res)
  from PublishFrontier_db[OF publish(1)] assms(2) publish_cuts show ?thesis by fastforce
qed (use assms(2) side_operations in \<open>fastforce simp: cuts_ok_def cut_entry_def WithBus_def WithCheckpointBlobLimit_def\<close>)+

interpretation cuts: invariant_system "store_step lib" "\<lambda>s. cuts_ok (Db s)"
  by unfold_locales (rule store_step_cuts)

lemma reachable_cuts: "reachable lib s \<Longrightarrow> cuts_ok (Db s)"
  unfolding reachable_def by (erule cuts.steps_inv) (simp add: cuts_ok_def new_store_def createSchema_def empty_db_def)

lemma cutoff_entry:
  assumes "cuts_ok d" "readOwnerCutoff d k = Inr f"
  shows "cut_entry d f"
proof -
  obtain row where "find_frontier d k = Some row" "f = frontier_of_row row"
    using assms(2) by (auto simp: readOwnerCutoff_def readOwnerCutoffTx_def bindR_eq_Inr split: option.splits if_splits)
  then have "row \<in> set (Frontiers d)" "f = frontier_of_row row" by (auto simp: find_frontier_def find_Some_iff)
  with assms(1) show ?thesis by (simp add: cuts_ok_def)
qed

section \<open>The reference reading\<close>

text \<open>The relations an owner's facts record: every relation fact must be readable; those of another parent
  do not count.\<close>

definition relations_of :: "string \<Rightarrow> Record list \<Rightarrow> kerror + ExecutionRelation list" where
  "relations_of ow rs =
    bindR (mapR ExecutionRelationFromFact (filter (\<lambda>r. schema_of r = SchemaExecutionRelation) rs)) (\<lambda>rels.
    Inr (filter (\<lambda>rel. RelParentExecutionID rel = ow) rels))"

definition published_of :: "Record list \<Rightarrow> PublishedFact list" where
  "published_of rs =
    map (\<lambda>r. \<lparr>PubFactID = RecordID (Envelope r), PubKind = payloadString (Body r) ''kind'', PubData = payloadMap (Body r) ''data''\<rparr>)
      (filter (\<lambda>r. schema_of r = SchemaRuntimePublishedFact) rs)"

text \<open>The execution a frontier cuts from its target's log.\<close>

definition cut_facts :: "db \<Rightarrow> Frontier \<Rightarrow> Record list" where
  "cut_facts d f = map (entry_fact d) (cut_entries d f)"

definition cut_execution :: "db \<Rightarrow> Frontier \<Rightarrow> Execution" where
  "cut_execution d f = execution_of (TargetTraceOwnerID f) f
    (filter (\<lambda>r. \<not> other_execution (Body r) (TargetTraceOwnerID f)) (cut_facts d f))"

definition child_of :: "db \<Rightarrow> ExecutionRelation \<times> Frontier \<Rightarrow> kerror + EffectiveChild" where
  "child_of d = (\<lambda>(rel, f).
    if TargetTraceOwnerID f \<noteq> ChildExecutionID rel
    then Inl (Plain ''effective history: frontier targets another execution than the relation's child''
      [ChildFrontierID rel, TargetTraceOwnerID f, ChildExecutionID rel])
    else Inr \<lparr>ChildRelation = rel, ChildExecution = cut_execution d f\<rparr>)"

text \<open>The run tree below a frontier: its execution, what it recorded of its children, the active ones at
  their frontiers, and what it published.\<close>

definition history_of :: "db \<Rightarrow> Frontier \<Rightarrow> kerror + EffectiveHistory" where
  "history_of d f =
    (let rs = cut_facts d f in
     bindR (relations_of (TargetTraceOwnerID f) rs) (\<lambda>rels.
     let wanted = filter (\<lambda>rel. ChildFrontierID rel \<noteq> []) (activeRelations rels) in
     bindR (mapR (\<lambda>rel. readOwnerCutoff d (ChildFrontierID rel)) wanted) (\<lambda>fs.
     bindR (mapR (child_of d) (zip wanted fs)) (\<lambda>children.
     Inr \<lparr>HistoryRoot = cut_execution d f, HistoryRelations = rels, HistoryChildren = children,
       HistoryPublished = published_of rs\<rparr>))))"

section \<open>The loops compute it\<close>

lemma project_relations_loop:
  assumes "mapR (slice_record ''ProjectExecutionRelations'' sl) ids = Inr rs"
  shows "foldR (project_relation sl ow) acc ids = bindR (relations_of ow rs) (\<lambda>rels. Inr (acc @ rels))"
  using assms
proof (induction ids arbitrary: acc rs)
  case Nil
  then show ?case by (simp add: relations_of_def)
next
  case (Cons i ids)
  then obtain r rs' where r: "slice_record ''ProjectExecutionRelations'' sl i = Inr r"
    "mapR (slice_record ''ProjectExecutionRelations'' sl) ids = Inr rs'" "rs = r # rs'" by (auto simp: bindR_eq_Inr)
  note ih = Cons.IH[OF r(2)]
  have step: "project_relation sl ow acc i = (if schema_of r \<noteq> SchemaExecutionRelation then Inr acc
      else bindR (ExecutionRelationFromFact r) (\<lambda>rel. if RelParentExecutionID rel \<noteq> ow then Inr acc else Inr (acc @ [rel])))"
    by (simp add: project_relation_def r(1) ExecutionRelationFromFact_def)
  show ?case
    by (cases "ExecutionRelationFromFact r"; cases "mapR ExecutionRelationFromFact (filter (\<lambda>r. schema_of r = SchemaExecutionRelation) rs')")
      (simp_all add: step r(3) ih relations_of_def)
qed

lemma published_loop:
  assumes "mapR (slice_record ''projectPublishedFacts'' sl) ids = Inr rs"
  shows "foldR (project_published sl) acc ids = Inr (acc @ published_of rs)"
  using assms
  by (induction ids arbitrary: acc rs) (auto simp: bindR_eq_Inr project_published_def published_of_def)

text \<open>Both depend on the content of the facts only.\<close>

lemma relations_of_content:
  assumes "list_all2 same_content rs rs'"
  shows "relations_of ow rs = relations_of ow rs'"
proof -
  have "mapR ExecutionRelationFromFact (filter (\<lambda>r. schema_of r = SchemaExecutionRelation) rs)
      = mapR ExecutionRelationFromFact (filter (\<lambda>r. schema_of r = SchemaExecutionRelation) rs')"
    using assms by (induction rule: list_all2_induct) (simp_all add: same_content_def ExecutionRelationFromFact_def)
  then show ?thesis by (simp add: relations_of_def)
qed

lemma published_of_content: "list_all2 same_content rs rs' \<Longrightarrow> published_of rs = published_of rs'"
  by (induction rule: list_all2_induct) (simp_all add: same_content_def published_of_def)

section \<open>Slices of frontiers\<close>

text \<open>The slice of a frontier, whatever witnesses it carries.\<close>

definition cut_slice :: "db \<Rightarrow> string \<Rightarrow> Frontier \<Rightarrow> Slice \<Rightarrow> bool" where
  "cut_slice d vis f sl \<longleftrightarrow> (\<exists>support. sl = slice_of d (Some f) vis ModeBoth True (entry_facts d ModeBoth (cut_entries d f)) support)"

lemma cut_entries_owner: "\<forall>p\<in>set (cut_entries d f). PathRef p = TargetTraceOwnerID f"
  by (auto simp: cut_entries_def owner_entries_def dest!: in_set_takeD)

lemma cut_slice_records:
  assumes "cut_slice d vis f sl" "vis \<noteq> VisibilityShapeOnly" "db_ok d"
  shows "\<exists>rs. mapR (slice_record who sl) (owner_path sl (TargetTraceOwnerID f)) = Inr rs \<and> list_all2 same_content rs (cut_facts d f)"
proof -
  obtain support where sl: "sl = slice_of d (Some f) vis ModeBoth True (entry_facts d ModeBoth (cut_entries d f)) support"
    using assms(1) by (auto simp: cut_slice_def)
  have "mapR (slice_record who sl) (owner_path sl (TargetTraceOwnerID f)) = Inr (map (shown_fact d (cut_entries d f)) (cut_entries d f))"
    unfolding sl owner_path_slice one_path[OF cut_entries_owner] by (rule shown_records[OF _ assms(2)]) simp
  moreover have "list_all2 same_content (map (shown_fact d (cut_entries d f)) (cut_entries d f)) (cut_facts d f)"
    using shown_content[OF assms(3) cut_entries_sub] by (simp add: cut_facts_def list_all2_conv_all_nth)
  ultimately show ?thesis by blast
qed

lemma cut_slice_projects:
  assumes "cut_slice d vis f sl" "vis \<noteq> VisibilityShapeOnly" "db_ok d"
  shows "ProjectExecution sl (TargetTraceOwnerID f) None = Inr (cut_execution d f)"
    "ProjectExecutionRelations sl (TargetTraceOwnerID f) = relations_of (TargetTraceOwnerID f) (cut_facts d f)"
    "projectPublishedFacts sl (TargetTraceOwnerID f) = Inr (published_of (cut_facts d f))"
    "SliceFrontier sl = Some f"
proof -
  obtain support where sl: "sl = slice_of d (Some f) vis ModeBoth True (entry_facts d ModeBoth (cut_entries d f)) support"
    using assms(1) by (auto simp: cut_slice_def)
  then show fr: "SliceFrontier sl = Some f" by simp
  show "ProjectExecution sl (TargetTraceOwnerID f) None = Inr (cut_execution d f)"
    using project_slice[OF assms(3) cut_entries_sub cut_entries_owner assms(2) sl, of None] fr
    by (simp add: executionCutoffFrom_def cut_execution_def own_facts_def cut_facts_def)
  have "EnsureProjectionCompatible sl ExecutionRelationProjection = Inr ()"
    using assms(2) unfolding sl by (simp add: EnsureProjectionCompatible_def ExecutionRelationProjection_def
        ProjectionRequiresBoth_def ProjectionAcceptsAny_def ModeBoth_def slice_of_def Let_def)
  then show "ProjectExecutionRelations sl (TargetTraceOwnerID f) = relations_of (TargetTraceOwnerID f) (cut_facts d f)"
    using cut_slice_records[OF assms, of "''ProjectExecutionRelations''"]
    by (auto simp: ProjectExecutionRelations_def project_relations_loop bindR_def split: sum.splits dest!: relations_of_content[of _ _ "TargetTraceOwnerID f"])
  show "projectPublishedFacts sl (TargetTraceOwnerID f) = Inr (published_of (cut_facts d f))"
    using cut_slice_records[OF assms, of "''projectPublishedFacts''"]
    by (auto simp: projectPublishedFacts_def published_loop dest!: published_of_content)
qed

section \<open>Resolving the children\<close>

text \<open>In a reachable store resolving a frontier is reading its index and taking its slice.\<close>

lemma resolve_cut:
  assumes "store_inv lib s" "cuts_ok (Db s)" "payload_reader auth"
  shows "readOwnerCutoff (Db s) k = Inl e \<Longrightarrow> ResolveFrontier None auth k ModeBoth s = Inl e"
    "readOwnerCutoff (Db s) k = Inr f \<Longrightarrow> \<exists>sl. ResolveFrontier None auth k ModeBoth s = Inr sl
       \<and> cut_slice (Db s) (VisibilityProfile (read_operation_context auth)) f sl"
proof -
  have r: "ensureReadAuthorized (read_operation_context auth) = Inr ()" using assms(3) by (simp add: payload_reader_def)
  show "ResolveFrontier None auth k ModeBoth s = Inl e" if "readOwnerCutoff (Db s) k = Inl e"
    using that r trusted_reader(2) by (simp add: ResolveFrontier_def)
  show "\<exists>sl. ResolveFrontier None auth k ModeBoth s = Inr sl \<and> cut_slice (Db s) (VisibilityProfile (read_operation_context auth)) f sl"
    if f: "readOwnerCutoff (Db s) k = Inr f"
  proof -
    have "db_ok (Db s)" "witnessed (Db s)" using assms(1) by (simp_all add: store_inv_def)
    from resolve_eq[OF this f cutoff_entry[OF assms(2) f] r trusted_reader(2)] show ?thesis unfolding cut_slice_def by blast
  qed
qed

abbreviation wanted :: "ExecutionRelation list \<Rightarrow> ExecutionRelation list" where
  "wanted rels \<equiv> filter (\<lambda>rel. ChildFrontierID rel \<noteq> []) rels"

abbreviation resolved :: "ReadContext \<Rightarrow> store \<Rightarrow> ExecutionRelation \<Rightarrow> Slice" where
  "resolved auth s rel \<equiv> projr (ResolveFrontier None auth (ChildFrontierID rel) ModeBoth s)"

lemma resolve_loop:
  assumes "store_inv lib s" "cuts_ok (Db s)" "payload_reader auth"
  shows "foldR (resolve_child (\<lambda>_. None) auth s) acc rels
    = bindR (mapR (\<lambda>rel. readOwnerCutoff (Db s) (ChildFrontierID rel)) (wanted rels)) (\<lambda>_.
      Inr (acc @ map (resolved auth s) (wanted rels)))"
proof (induction rels arbitrary: acc)
  case (Cons rel rels)
  have step: "resolve_child (\<lambda>_. None) auth s acc rel = (if ChildFrontierID rel = [] then Inr acc
      else bindR (readOwnerCutoff (Db s) (ChildFrontierID rel)) (\<lambda>_. Inr (acc @ [resolved auth s rel])))"
  proof (cases "readOwnerCutoff (Db s) (ChildFrontierID rel)")
    case (Inl e)
    with resolve_cut(1)[OF assms Inl] show ?thesis by (simp add: resolve_child_def)
  next
    case (Inr f)
    with resolve_cut(2)[OF assms Inr] show ?thesis by (auto simp: resolve_child_def)
  qed
  show ?case
    by (cases "readOwnerCutoff (Db s) (ChildFrontierID rel)";
        cases "mapR (\<lambda>rel. readOwnerCutoff (Db s) (ChildFrontierID rel)) (wanted rels)") (simp_all add: step Cons.IH)
qed simp

lemma slices_found:
  assumes "sl \<in> set sls" "SliceFrontier sl = Some f"
  shows "\<exists>sl'\<in>set sls. slices_by_frontier sls (FrontierID f) = Some sl' \<and> (\<exists>f'. SliceFrontier sl' = Some f' \<and> FrontierID f' = FrontierID f)"
  using assms
proof (induction sls rule: rev_induct)
  case (snoc x sls)
  have snoc_eq: "slices_by_frontier (sls @ [x]) = (case SliceFrontier x of None \<Rightarrow> slices_by_frontier sls
      | Some g \<Rightarrow> (slices_by_frontier sls)(FrontierID g \<mapsto> x))"
    by (cases "SliceFrontier x") (simp_all add: slices_by_frontier_def)
  show ?case
  proof (cases "\<exists>g. SliceFrontier x = Some g \<and> FrontierID g = FrontierID f")
    case True
    then show ?thesis by (auto simp: snoc_eq)
  next
    case False
    with snoc.prems have "sl \<in> set sls" by auto
    with snoc.IH snoc.prems(2) False show ?thesis by (auto simp: snoc_eq split: option.splits)
  qed
qed simp

lemma children_loop:
  assumes "list_all2 (\<lambda>rel f. \<exists>sl. by_id (ChildFrontierID rel) = Some sl \<and> cut_slice d vis f sl) (wanted rels) fs"
    and "vis \<noteq> VisibilityShapeOnly" "db_ok d"
  shows "foldR (project_child by_id) acc rels = bindR (mapR (child_of d) (zip (wanted rels) fs)) (\<lambda>chs. Inr (acc @ chs))"
  using assms(1)
proof (induction rels arbitrary: acc fs)
  case (Cons rel rels)
  show ?case
  proof (cases "ChildFrontierID rel = []")
    case True
    with Cons show ?thesis by (simp add: project_child_def)
  next
    case False
    with Cons.prems obtain f fs' sl where f: "fs = f # fs'" "by_id (ChildFrontierID rel) = Some sl" "cut_slice d vis f sl"
      "list_all2 (\<lambda>rel f. \<exists>sl. by_id (ChildFrontierID rel) = Some sl \<and> cut_slice d vis f sl) (wanted rels) fs'"
      by (auto simp: list_all2_Cons1)
    note cs = cut_slice_projects[OF f(3) assms(2,3)]
    have step: "project_child by_id acc rel = bindR (child_of d (rel, f)) (\<lambda>ch. Inr (acc @ [ch]))"
      using False f(2) cs(1,4) by (cases "TargetTraceOwnerID f = ChildExecutionID rel") (simp_all add: project_child_def child_of_def)
    from Cons.IH[OF f(4)] show ?thesis
      by (cases "child_of d (rel, f)"; cases "mapR (child_of d) (zip (wanted rels) fs')") (simp_all add: step f(1) False)
  qed
qed simp

lemma resolved_found:
  assumes "store_inv lib s" "cuts_ok (Db s)" "payload_reader auth"
    and "mapR (\<lambda>rel. readOwnerCutoff (Db s) (ChildFrontierID rel)) rels = Inr fs"
  shows "list_all2 (\<lambda>rel f. \<exists>sl. slices_by_frontier (map (resolved auth s) rels) (ChildFrontierID rel) = Some sl
    \<and> cut_slice (Db s) (VisibilityProfile (read_operation_context auth)) f sl) rels fs"
proof -
  let ?vis = "VisibilityProfile (read_operation_context auth)"
  have one: "cut_slice (Db s) ?vis f (resolved auth s rel)" "SliceFrontier (resolved auth s rel) = Some f" "FrontierID f = ChildFrontierID rel"
    if f: "readOwnerCutoff (Db s) (ChildFrontierID rel) = Inr f" for rel f
  proof -
    from resolve_cut(2)[OF assms(1-3) f] show c: "cut_slice (Db s) ?vis f (resolved auth s rel)" by auto
    then show "SliceFrontier (resolved auth s rel) = Some f" by (auto simp: cut_slice_def)
    show "FrontierID f = ChildFrontierID rel" by (rule readOwnerCutoff_target(2)[OF f])
  qed
  have cuts: "list_all2 (\<lambda>rel f. readOwnerCutoff (Db s) (ChildFrontierID rel) = Inr f) rels fs" using assms(4) by (simp add: mapR_Inr)
  have "\<exists>sl. slices_by_frontier (map (resolved auth s) rels) (ChildFrontierID rel) = Some sl \<and> cut_slice (Db s) ?vis f sl"
    if m: "rel \<in> set rels" and f: "readOwnerCutoff (Db s) (ChildFrontierID rel) = Inr f" for rel f
  proof -
    have "resolved auth s rel \<in> set (map (resolved auth s) rels)" using m by simp
    from slices_found[OF this one(2)[OF f]] obtain rel' f' where r: "rel' \<in> set rels"
      "slices_by_frontier (map (resolved auth s) rels) (ChildFrontierID rel) = Some (resolved auth s rel')"
      "SliceFrontier (resolved auth s rel') = Some f'" "FrontierID f' = ChildFrontierID rel"
      by (auto simp: one(3)[OF f])
    obtain g where "readOwnerCutoff (Db s) (ChildFrontierID rel') = Inr g"
      using cuts r(1) by (auto simp: list_all2_conv_all_nth in_set_conv_nth)
    with one(2,3) r(3,4) have "ChildFrontierID rel' = ChildFrontierID rel" by fastforce
    with r(2) one(1)[OF f] show ?thesis by auto
  qed
  with cuts show ?thesis by (auto simp: list_all2_conv_all_nth)
qed

section \<open>The projection from the store\<close>

lemma history_eq:
  assumes inv: "store_inv lib s" "cuts_ok (Db s)" "payload_reader auth" and f: "readOwnerCutoff (Db s) (FrontierID f) = Inr f"
  shows "ProjectEffectiveHistoryFromStore (\<lambda>_. None) auth f s = history_of (Db s) f"
proof -
  let ?vis = "VisibilityProfile (read_operation_context auth)" and ?ow = "TargetTraceOwnerID f"
  have db: "db_ok (Db s)" using inv(1) by (simp add: store_inv_def)
  note vis = reader_visibility[OF inv(3)]
  from resolve_cut(2)[OF inv f] obtain root where root: "ResolveFrontier None auth (FrontierID f) ModeBoth s = Inr root"
    "cut_slice (Db s) ?vis f root" by blast
  note rp = cut_slice_projects[OF root(2) vis db]
  show ?thesis
  proof (cases "relations_of ?ow (cut_facts (Db s) f)")
    case (Inl e)
    with root(1) rp show ?thesis by (simp add: ProjectEffectiveHistoryFromStore_def history_of_def)
  next
    case rels: (Inr rels)
    let ?w = "wanted (activeRelations rels)"
    show ?thesis
    proof (cases "mapR (\<lambda>rel. readOwnerCutoff (Db s) (ChildFrontierID rel)) ?w")
      case (Inl e)
      with root(1) rp rels show ?thesis by (simp add: ProjectEffectiveHistoryFromStore_def history_of_def resolve_loop[OF inv])
    next
      case (Inr fs)
      from children_loop[OF resolved_found[OF inv Inr] vis db, of "[]"]
      have "foldR (project_child (slices_by_frontier (map (resolved auth s) ?w))) [] (activeRelations rels) = mapR (child_of (Db s)) (zip ?w fs)"
        by (simp add: bindR_def split: sum.splits)
      with root(1) rp rels Inr show ?thesis
        by (simp add: ProjectEffectiveHistoryFromStore_def history_of_def resolve_loop[OF inv] ProjectEffectiveHistory_def)
    qed
  qed
qed

section \<open>Later stores\<close>

lemma cut_stable:
  assumes "extends d d'" "db_ok d" "cut_entry d f"
  shows "cut_facts d' f = cut_facts d f" "cut_execution d' f = cut_execution d f" "child_of d' (rel, f) = child_of d (rel, f)"
proof -
  show facts: "cut_facts d' f = cut_facts d f"
    using cut_entries_stable(1)[OF assms] extends_entry_fact[OF assms(1,2)] cut_entries_sub[of d f]
    by (auto simp: cut_facts_def)
  then show "cut_execution d' f = cut_execution d f" by (simp add: cut_execution_def)
  then show "child_of d' (rel, f) = child_of d (rel, f)" by (simp add: child_of_def)
qed

lemma history_of_stable:
  assumes "extends d d'" "db_ok d" "db_ok d'" "cuts_ok d" "readOwnerCutoff d k = Inr f" "history_of d f = Inr h"
  shows "history_of d' f = Inr h"
proof -
  note root = cut_stable[OF assms(1,2) cutoff_entry[OF assms(4,5)]]
  from assms(6) obtain rels fs chs where h: "relations_of (TargetTraceOwnerID f) (cut_facts d f) = Inr rels"
    "mapR (\<lambda>rel. readOwnerCutoff d (ChildFrontierID rel)) (wanted (activeRelations rels)) = Inr fs"
    "mapR (child_of d) (zip (wanted (activeRelations rels)) fs) = Inr chs"
    "h = \<lparr>HistoryRoot = cut_execution d f, HistoryRelations = rels, HistoryChildren = chs, HistoryPublished = published_of (cut_facts d f)\<rparr>"
    by (auto simp: history_of_def Let_def bindR_eq_Inr)
  have cuts: "list_all2 (\<lambda>rel f. readOwnerCutoff d (ChildFrontierID rel) = Inr f) (wanted (activeRelations rels)) fs"
    using h(2) by (simp add: mapR_Inr)
  then have "list_all2 (\<lambda>rel f. readOwnerCutoff d' (ChildFrontierID rel) = Inr f) (wanted (activeRelations rels)) fs"
    by (rule list_all2_mono) (rule readOwnerCutoff_stable[OF _ assms(1,3)])
  then have fs: "mapR (\<lambda>rel. readOwnerCutoff d' (ChildFrontierID rel)) (wanted (activeRelations rels)) = Inr fs" by (simp add: mapR_Inr)
  have "child_of d' x = child_of d x" if "x \<in> set (zip (wanted (activeRelations rels)) fs)" for x
  proof -
    obtain rel g where x: "x = (rel, g)" by fastforce
    then have "readOwnerCutoff d (ChildFrontierID rel) = Inr g" using that cuts by (auto simp: list_all2_iff)
    from cut_stable(3)[OF assms(1,2) cutoff_entry[OF assms(4) this]] show ?thesis by (simp add: x)
  qed
  then have "mapR (child_of d') (zip (wanted (activeRelations rels)) fs) = Inr chs" using h(3) mapR_cong by metis
  with fs h(1,4) show ?thesis by (simp add: history_of_def root)
qed

section \<open>Recording a relation\<close>

lemma project_relations_prefix:
  assumes "db_ok (Db s)" "witnessed (Db s)" "ow \<noteq> []" "payload_reader auth" "ReadOwnerPrefix None auth ow t ModeBoth s = Inr sl"
  shows "ProjectExecutionRelations sl ow = relations_of ow (map (entry_fact (Db s)) (owner_prefix (Db s) ow t))"
proof -
  let ?d = "Db s" and ?vis = "VisibilityProfile (read_operation_context auth)" and ?ps = "owner_prefix (Db s) ow t"
  note vis = reader_visibility[OF assms(4)]
  obtain support where sl: "sl = slice_of ?d None ?vis ModeBoth True (entry_facts ?d ModeBoth ?ps) support"
    using read_prefix_eq[OF assms(1-4), of t] assms(5) by auto
  have recs: "mapR (slice_record who sl) (owner_path sl ow) = Inr (map (shown_fact ?d ?ps) ?ps)" for who
    unfolding sl owner_path_slice one_path[OF owner_prefix_sub(2)] by (rule shown_records[OF _ vis]) simp
  have "list_all2 same_content (map (shown_fact ?d ?ps) ?ps) (map (entry_fact ?d) ?ps)"
    unfolding list.rel_map list_all2_same using shown_content[OF assms(1) owner_prefix_sub(1)] by blast
  from relations_of_content[OF this, of ow] have same: "relations_of ow (map (shown_fact ?d ?ps) ?ps) = relations_of ow (map (entry_fact ?d) ?ps)" .
  have "EnsureProjectionCompatible sl ExecutionRelationProjection = Inr ()"
    using vis unfolding sl by (simp add: EnsureProjectionCompatible_def ExecutionRelationProjection_def
        ProjectionRequiresBoth_def ProjectionAcceptsAny_def ModeBoth_def slice_of_def Let_def)
  then show ?thesis
    unfolding ProjectExecutionRelations_def project_relations_loop[OF recs] same by (simp add: bindR_def split: sum.splits)
qed

lemma relations_of_snoc:
  assumes "relations_of ow rs = Inr rels" "ExecutionRelationFromFact r = Inr rel" "RelParentExecutionID rel = ow"
  shows "relations_of ow (rs @ [r]) = Inr (rels @ [rel])"
proof -
  have sch: "schema_of r = SchemaExecutionRelation" using assms(2) by (auto simp: ExecutionRelationFromFact_def split: if_splits)
  have app: "mapR f (xs @ [x]) = bindR (mapR f xs) (\<lambda>ys. bindR (f x) (\<lambda>y. Inr (ys @ [y])))" for f :: "Record \<Rightarrow> kerror + ExecutionRelation" and xs x
    by (induction xs) (auto simp: bindR_def split: sum.splits)
  show ?thesis using assms by (auto simp: relations_of_def sch app bindR_eq_Inr)
qed

text \<open>A later fact of a relation replaces it where it stands, or takes it out.\<close>

lemma active_abandon:
  assumes "RelationKind rel = RelationAbandoned"
  shows "activeRelations (rels @ [rel]) = filter (\<lambda>r. RelationID r \<noteq> RelationID rel) (activeRelations rels)"
proof -
  let ?l = "\<lambda>rs i. the (last_where (\<lambda>r. RelationID r = i) rs)"
  let ?ids = "dedup_loop {} (map RelationID rels)"
  have gone: "\<not> is_active rel" using assms by (simp add: is_active_def RelationAbandoned_def RelationSpawned_def RelationAdopted_def)
  have id: "RelationID (?l rels i) = i" if i: "i \<in> set ?ids" for i
  proof -
    have "i \<in> RelationID ` set rels" using i by (simp add: dedup_loop_set)
    then obtain r where "last_where (\<lambda>r. RelationID r = i) rels = Some r" using last_where_None[of "\<lambda>r. RelationID r = i" rels] by fastforce
    with last_where_Some show ?thesis by fastforce
  qed
  have keep: "filter is_active (map (?l (rels @ [rel])) ks) = filter (\<lambda>r. RelationID r \<noteq> RelationID rel) (filter is_active (map (?l rels) ks))"
    if "set ks \<subseteq> set ?ids" for ks
    using that by (induction ks) (auto simp: gone id)
  have "activeRelations (rels @ [rel]) = filter is_active (map (?l (rels @ [rel])) ?ids)"
    using gone by (simp add: activeRelations_eq dedup_snoc)
  with keep[OF subset_refl] show ?thesis by (simp add: activeRelations_eq)
qed

section \<open>Properties\<close>

text \<open>C16: Projecting an effective history from the store, at a frontier the store holds and for a reader who sees
  payloads, is the reference reading of the logs in every reachable store, errors included: the root is
  the execution the frontier cuts from its target's log, the relations are those its facts record of
  the target, the children are the active relations with a frontier, each with the execution which that
  frontier cuts from the child's log, and the published facts are those of the target.  It fails only
  for an unreadable relation, a child frontier the index does not hold intact, or one of another
  execution.\<close>

theorem history_reads_the_logs:
  assumes "reachable lib s" "root_unique lib" "payload_reader auth" "ReadOwnerCutoff (FrontierID f) s = Inr f"
  shows "ProjectEffectiveHistoryFromStore (\<lambda>_. None) auth f s = history_of (Db s) f"
  using history_eq[OF reachable_inv[OF assms(1,2)] reachable_cuts[OF assms(1)] assms(3)] assms(4) by (simp add: ReadOwnerCutoff_def)

text \<open>The history at the frontier of the second scenario: a pending root that recorded no relation.\<close>

lemma cut_history:
  obtains s f h where "reachable demo_lib s" "ReadOwnerCutoff (FrontierID f) s = Inr f" "TargetTraceOwnerID f = ''alice''"
    "history_of (Db s) f = Inr h" "HistoryChildren h = []" "Status (HistoryRoot h) = ExecutionPending" "length (cut_facts (Db s) f) = 1"
proof -
  obtain dig c wp i where d: "demo_ids demo_lib c wp i" "batchDigest demo_lib demo_batch demo_ctx = Inr dig"
    "reachable demo_lib (demo_store\<lparr>Db := demo_db demo_lib dig c wp i\<rparr>)" by (rule demo_run)
  let ?s = "demo_store\<lparr>Db := demo_db demo_lib dig c wp i\<rparr>"
  obtain i2 s where p: "PublishFrontier demo_lib demo_env cut_auth (cut_spec i) ?s = (Inr (cut_of i i2), s)"
    "fresh_cut (demo_db demo_lib dig c wp i) (cut_spec i) (cut_of i i2)" "reachable demo_lib s"
    by (rule cut_run[OF d(1,2)])
  let ?f = "cut_of i i2"
  have "int64_room (Db ?s) 1" using demo_reachable(2)[OF d(1,2)] by simp
  from published_cut[OF d(3) demo_lib_ok(1,2) this p(1)] p(2) have n: "db_ok (Db ?s)" "cut_entry (Db ?s) ?f"
    "readOwnerCutoff (Db s) ''f1'' = Inr ?f" "cut_entries (Db s) ?f = cut_entries (Db ?s) ?f" by (simp_all add: cut_names)
  obtain q where q: "owner_entries (Db ?s) ''alice'' = [q]" "schema_of (entry_fact (Db ?s) q) = ''note.v1''"
    using demo_fact[OF d(1)] n(1) by auto
  have "(store_step demo_lib)\<^sup>*\<^sup>* ?s s" using store_step.publish[OF p(1)] by (simp add: cut_names witnessTraceOwnerID_def r_into_rtranclp)
  then have "extends (Db ?s) (Db s)" by (rule kernel.steps_grow)
  from cut_stable(1)[OF this n(1,2)] have facts: "cut_facts (Db s) ?f = [entry_fact (Db ?s) q]"
    using q(1) by (simp add: cut_facts_def cut_entries_def cut_of_def)
  note sch = SchemaExecutionRelation_def SchemaExecutionCreated_def SchemaExecutionStarted_def SchemaExecutionCompleted_def SchemaExecutionFailed_def
  have "relations_of (TargetTraceOwnerID ?f) (cut_facts (Db s) ?f) = Inr []" using q(2) by (simp add: facts relations_of_def sch)
  then have "history_of (Db s) ?f = Inr \<lparr>HistoryRoot = cut_execution (Db s) ?f, HistoryRelations = [], HistoryChildren = [],
      HistoryPublished = published_of (cut_facts (Db s) ?f)\<rparr>"
    by (simp add: history_of_def Let_def activeRelations_def)
  moreover have "Status (cut_execution (Db s) ?f) = ExecutionPending"
    using q(2) by (simp add: cut_execution_def facts execution_of_def Let_def last_where_def status_after_def lifecycle_defs sch)
  ultimately show thesis
    using that[OF p(3), of ?f] n(3) facts by (simp add: ReadOwnerCutoff_def cut_of_def)
qed

theorem history_reads_the_logs_witness:
  "\<exists>s f h. ProjectEffectiveHistoryFromStore (\<lambda>_. None) TrustedReadContext f s = Inr h \<and> history_of (Db s) f = Inr h
    \<and> TargetTraceOwnerID f = ''alice'' \<and> Status (HistoryRoot h) = ExecutionPending \<and> length (cut_facts (Db s) f) = 1"
proof -
  obtain s f h where c: "reachable demo_lib s" "ReadOwnerCutoff (FrontierID f) s = Inr f" "TargetTraceOwnerID f = ''alice''"
    "history_of (Db s) f = Inr h" "Status (HistoryRoot h) = ExecutionPending" "length (cut_facts (Db s) f) = 1" by (rule cut_history)
  from history_reads_the_logs[OF c(1) demo_lib_ok(3) trusted_payloads c(2)] c(3-6) show ?thesis
    by (intro exI[of _ s] exI[of _ f] exI[of _ h]) simp
qed

text \<open>C17: An effective history is final: once it projects at a frontier the store holds, it projects to the same
  history in every later store, whatever the run tree did in the meantime.\<close>

theorem effective_history_stable:
  assumes "reachable lib s" "root_unique lib" "payload_reader auth" "ReadOwnerCutoff (FrontierID f) s = Inr f"
    and "(store_step lib)\<^sup>*\<^sup>* s s'" "ProjectEffectiveHistoryFromStore (\<lambda>_. None) auth f s = Inr h"
  shows "ProjectEffectiveHistoryFromStore (\<lambda>_. None) auth f s' = Inr h"
proof -
  have r': "reachable lib s'" using assms(1,5) unfolding reachable_def by (rule rtranclp_trans)
  note inv = reachable_inv[OF assms(1,2)] and inv' = reachable_inv[OF r' assms(2)]
  have ok: "db_ok (Db s)" "db_ok (Db s')" using inv inv' by (simp_all add: store_inv_def)
  have e: "extends (Db s) (Db s')" by (rule kernel.steps_grow[OF assms(5)])
  have f: "readOwnerCutoff (Db s) (FrontierID f) = Inr f" using assms(4) by (simp add: ReadOwnerCutoff_def)
  have "history_of (Db s) f = Inr h" using history_eq[OF inv reachable_cuts[OF assms(1)] assms(3) f] assms(6) by simp
  from history_of_stable[OF e ok reachable_cuts[OF assms(1)] f this]
    history_eq[OF inv' reachable_cuts[OF r'] assms(3) readOwnerCutoff_stable[OF f e ok(2)]] show ?thesis by simp
qed

theorem effective_history_stable_witness:
  "\<exists>s s' f h. s \<noteq> s' \<and> ProjectEffectiveHistoryFromStore (\<lambda>_. None) TrustedReadContext f s = Inr h
    \<and> ProjectEffectiveHistoryFromStore (\<lambda>_. None) TrustedReadContext f s' = Inr h"
proof -
  obtain s f h where c: "reachable demo_lib s" "ReadOwnerCutoff (FrontierID f) s = Inr f" "history_of (Db s) f = Inr h" by (rule cut_history)
  from history_eq[OF reachable_inv[OF c(1) demo_lib_ok(3)] reachable_cuts[OF c(1)] trusted_payloads] c(2,3)
  have h: "ProjectEffectiveHistoryFromStore (\<lambda>_. None) TrustedReadContext f s = Inr h" by (simp add: ReadOwnerCutoff_def)
  let ?s' = "WithCheckpointBlobLimit (if BlobLimit s = 1 then 2 else 1) s"
  have "(store_step demo_lib)\<^sup>*\<^sup>* s ?s'" using store_step.limit by blast
  from effective_history_stable[OF c(1) demo_lib_ok(3) trusted_payloads c(2) this h]
  have "ProjectEffectiveHistoryFromStore (\<lambda>_. None) TrustedReadContext f ?s' = Inr h" .
  moreover have "s \<noteq> ?s'"
  proof
    assume "s = ?s'"
    from arg_cong[OF this, of BlobLimit] show False by (simp add: WithCheckpointBlobLimit_def split: if_splits)
  qed
  ultimately show ?thesis using h by blast
qed

text \<open>C18: Recording what a parent did with a child is read back: after the append of a relation batch the
  relations projected from the parent's path are those before it and, last, the recorded one, with every
  field as given and the id of its fact; and when it records an abandonment, the active children are
  those before it without that relation.\<close>

theorem recorded_relation_projected:
  assumes "reachable lib s" "lib_ok lib" "inj (sha256 lib)" "kind \<in> relation_vocabulary"
    and "Append lib env auth (CreateExecutionRelationBatch intent rid kind parent child cf caused) s = (Inr r, s')"
    and "find_intent (Db s) intent = None" "set (FactIDs r) \<inter> row_ids (Db s) = {}" "parent \<noteq> witnessTraceOwnerID"
    and "payload_reader rauth" "int (length (owner_log (Db s) parent)) \<le> t"
    and "ReadOwnerPrefix None rauth parent t ModeBoth s = Inr sl" "ReadOwnerPrefix None rauth parent t ModeBoth s' = Inr sl'"
    and "ProjectExecutionRelations sl parent = Inr rels"
  shows "\<exists>i rel. FactIDs r = [i]
    \<and> rel = \<lparr>RelationID = rid, RelationKind = kind, RelParentExecutionID = parent, ChildExecutionID = child,
        ChildFrontierID = cf, CreatedFactID = i\<rparr>
    \<and> ProjectExecutionRelations sl' parent = Inr (rels @ [rel])
    \<and> (kind = RelationAbandoned \<longrightarrow> activeRelations (rels @ [rel]) = filter (\<lambda>x. RelationID x \<noteq> rid) (activeRelations rels))"
proof -
  let ?d = "Db s" and ?d' = "Db s'" and ?b = "CreateExecutionRelationBatch intent rid kind parent child cf caused"
  let ?draft = "executionRelationCreatedDraft rid kind parent child cf"
  let ?g = "\<lparr>TraceOwnerID = parent, GroupContext = None, CausalParents = caused, FactDrafts = Some [?draft]\<rparr>"
  let ?kvs = "[(''relation_id'', VString rid), (''relation_kind'', VString kind), (''parent_execution_id'', VString parent),
    (''child_execution_id'', VString child), (''child_frontier_id'', nullableString cf)]"
  have inv: "db_ok ?d" "witnessed ?d" using reachable_inv[OF assms(1) root_unique_inj[OF assms(3,2)]] by (simp_all add: store_inv_def)
  have dr: "DraftSchemaRef ?draft = SchemaExecutionRelation" "DraftPayload ?draft = Some ?kvs"
    by (simp_all add: executionRelationCreatedDraft_def)
  have b: "AppendIntentID ?b = intent" "batch_drafts ?b = [(?g, ?draft)]" "TraceOwnerID ?g = parent" "no_witness_owner ?b" "drafts_ok ?b"
    using assms(8) by (simp_all add: CreateExecutionRelationBatch_def batch_drafts_def no_witness_owner_def drafts_ok_def dr
        is_witness_schema_def SchemaExecutionRelation_def RootWitnessSchemaRef_def WitnessSchemaRef_def nullableString_def)
  have fi: "find_intent ?d (AppendIntentID ?b) = None" unfolding b(1) by (rule assms(6))
  obtain i p where a: "FactIDs r = [i]" "owner_entries ?d' parent = owner_entries ?d parent @ [p]" "PathRecord p = i" "db_ok ?d'"
    "witnessed ?d'" "extends ?d ?d'" "draft_row lib ?d' (?g, ?draft) i" "validateBatchShape ?b = Inr ()"
    by (rule appended_single[OF assms(5) fi inv assms(2,3) b(2,5,3) assms(8) b(4) assms(7)])
  have v: "\<exists>j. json_marshal (of_gmap (DraftPayload ?draft)) = Inr j" "parent \<noteq> []"
    using validated_drafts[OF a(8), of ?g ?draft] by (simp_all add: b(2))
  then obtain j where j: "json_marshal (of_gmap (DraftPayload ?draft)) = Inr j" by blast
  have pe: "p \<in> set (PathEntries ?d')" using a(2) by (metis in_set_conv_decomp mem_Collect_eq owner_entries_def set_filter)
  obtain cs w where dg: "RecordDigest lib (DraftSchemaRef ?draft) (DraftMode ?draft) (DraftPayload ?draft) cs w = Inr i"
    using a(7) by (auto simp: draft_row_def)
  have valid: "valid_string x" if "(k, VString x) \<in> set ?kvs" for k x by (rule payload_strings_valid[OF dg[unfolded dr(2)] that])
  have strs: "valid_string rid" "valid_string kind" "valid_string parent" "valid_string child" "cf \<noteq> [] \<Longrightarrow> valid_string cf"
    using valid[of "''relation_id''" rid] valid[of "''relation_kind''" kind] valid[of "''parent_execution_id''" parent]
      valid[of "''child_execution_id''" child] valid[of "''child_frontier_id''" cf] by (simp_all add: nullableString_def)
  have keys: "list_all (\<lambda>(k, v). valid_string k) ?kvs" using done_valid_strings by simp
  note body = appended_body[OF a(4) pe a(7)[folded a(3)] j dr(2) _ keys]
  let ?r = "entry_fact ?d' p"
    and ?rel = "\<lparr>RelationID = rid, RelationKind = kind, RelParentExecutionID = parent, ChildExecutionID = child,
        ChildFrontierID = cf, CreatedFactID = i\<rparr>"
  have get: "get_key (Body ?r) k = (case map_of ?kvs k of None \<Rightarrow> None
         | Some v \<Rightarrow> (case json_marshal v of Inl e \<Rightarrow> None | Inr j \<Rightarrow> Some (json_decode j)))" for k by (rule body(3)) simp
  have str: "payloadString (Body ?r) ''relation_id'' = rid" "payloadString (Body ?r) ''relation_kind'' = kind"
    "payloadString (Body ?r) ''parent_execution_id'' = parent" "payloadString (Body ?r) ''child_execution_id'' = child"
    "payloadString (Body ?r) ''child_frontier_id'' = cf"
    using strs by (simp_all add: payloadString_def get to_valid_id nullableString_def)
  have rel: "ExecutionRelationFromFact ?r = Inr ?rel"
    using body(1,2) assms(4) a(3) by (auto simp: ExecutionRelationFromFact_def relationFromPayload_def str dr(1) relation_vocabulary_def)
  have t: "nat (t + 1) \<ge> length (owner_entries ?d parent) + 1" using assms(10) by (simp add: owner_log_def)
  have ps: "owner_prefix ?d parent t = owner_entries ?d parent" "owner_prefix ?d' parent t = owner_entries ?d parent @ [p]"
    using t by (simp_all add: a(2))
  have m: "map (entry_fact ?d') (owner_entries ?d parent) = map (entry_fact ?d) (owner_entries ?d parent)"
    using extends_entry_fact[OF a(6) inv(1)] by (auto simp: owner_entries_def)
  have "relations_of parent (map (entry_fact ?d) (owner_entries ?d parent)) = Inr rels"
    using project_relations_prefix[OF inv v(2) assms(9,11)] assms(13) by (simp add: ps)
  from relations_of_snoc[OF this rel] have "ProjectExecutionRelations sl' parent = Inr (rels @ [?rel])"
    using project_relations_prefix[OF a(4,5) v(2) assms(9,12)] by (simp add: ps m)
  with a(1) active_abandon[of ?rel rels] show ?thesis by simp
qed

theorem recorded_relation_projected_witness:
  "\<exists>s r s' sl' rel. Append demo_lib demo_env TrustedAppendContext spawn_batch s = (Inr r, s')
    \<and> ReadOwnerPrefix None TrustedReadContext ''alice'' 7 ModeBoth s' = Inr sl' \<and> ProjectExecutionRelations sl' ''alice'' = Inr [rel]
    \<and> RelationKind rel = RelationSpawned \<and> ChildExecutionID rel = ''bob'' \<and> FactIDs r = [CreatedFactID rel]"
proof -
  obtain dig c wp i where d: "demo_ids demo_lib c wp i" "batchDigest demo_lib demo_batch demo_ctx = Inr dig"
    "reachable demo_lib (demo_store\<lparr>Db := demo_db demo_lib dig c wp i\<rparr>)" by (rule demo_run)
  let ?s = "demo_store\<lparr>Db := demo_db demo_lib dig c wp i\<rparr>"
  obtain r s' where a: "Append demo_lib demo_env TrustedAppendContext spawn_batch ?s = (Inr r, s')"
    "find_intent (Db ?s) ''spawn-1'' = None" "set (FactIDs r) \<inter> row_ids (Db ?s) = {}" "store_step demo_lib ?s s'"
    using spawning.run[OF d(1,2)] unfolding spawn_batch_eq by auto
  have "reachable demo_lib s'" using d(3) a(4) unfolding reachable_def by (rule rtranclp.rtrancl_into_rtrancl)
  from reachable_inv[OF this demo_lib_ok(3)] reachable_inv[OF d(3) demo_lib_ok(3)]
  have inv: "db_ok (Db ?s)" "witnessed (Db ?s)" "db_ok (Db s')" "witnessed (Db s')" by (simp_all add: store_inv_def)
  note pr = trusted_payloads
  have ow: "''alice'' \<noteq> []" "''alice'' \<noteq> witnessTraceOwnerID" by (simp_all add: witnessTraceOwnerID_def)
  obtain sl sl' where rd: "ReadOwnerPrefix None TrustedReadContext ''alice'' 7 ModeBoth ?s = Inr sl"
    "ReadOwnerPrefix None TrustedReadContext ''alice'' 7 ModeBoth s' = Inr sl'"
    using read_prefix_eq[OF inv(1,2) ow(1) pr] read_prefix_eq[OF inv(3,4) ow(1) pr] by blast
  obtain p where p: "owner_entries (Db ?s) ''alice'' = [p]" "schema_of (entry_fact (Db ?s) p) = ''note.v1''"
    using demo_fact[OF d(1)] inv(1) by auto
  then have l: "int (length (owner_log (Db ?s) ''alice'')) \<le> 7" by (simp add: owner_log_def)
  have "relations_of ''alice'' (map (entry_fact (Db ?s)) (owner_prefix (Db ?s) ''alice'' 7)) = Inr []"
    using p by (simp add: relations_of_def SchemaExecutionRelation_def)
  then have rels: "ProjectExecutionRelations sl ''alice'' = Inr []" by (simp only: project_relations_prefix[OF inv(1,2) ow(1) pr rd(1)])
  have k: "RelationSpawned \<in> relation_vocabulary" by (simp add: relation_vocabulary_def)
  from recorded_relation_projected[OF d(3) demo_lib_ok(1,2) k a(1-3) ow(2) pr l rd rels] obtain i where
    "FactIDs r = [i]" "ProjectExecutionRelations sl' ''alice'' = Inr [\<lparr>RelationID = ''rel:1'', RelationKind = RelationSpawned,
        RelParentExecutionID = ''alice'', ChildExecutionID = ''bob'', ChildFrontierID = [], CreatedFactID = i\<rparr>]" by auto
  with a(1) rd(2) show ?thesis by (intro exI conjI) (assumption | simp)+
qed

end
