(* ===== verification/Trace_Viewer.thy ===== *)
theory Trace_Viewer
  imports Store_Read Store_Append
begin

text \<open>
  The trace viewer (\<open>traceui/service.go\<close>, \<open>traceui/records.go\<close>, \<open>traceui/events.go\<close>): a read-only
  HTTP service over a store.  A request is what the handlers read of it, a response its status,
  its headers and its body; the body of a JSON answer is the document the encoder writes, none
  when the encoding fails, which the code ignores.  Of \<open>net/http\<close> only what the handlers
  use is modelled: the header map, and a mux that serves clean paths.  The texts of errors and
  of time stamps are parameters.
\<close>

section \<open>Requests and responses\<close>

record http_request =
  ReqMethod :: string
  ReqPath :: string
  QueryValue :: "string \<Rightarrow> string"
  HeaderValue :: "string \<Rightarrow> string"

datatype http_body = NoBody | JsonBody "json option" | TextBody string | EventStream "string list"

type_synonym headers = "string \<Rightarrow> string list"

record http_response =
  StatusCode :: int
  RespHeaders :: headers
  RespBody :: http_body

definition set_header :: "string \<Rightarrow> string \<Rightarrow> headers \<Rightarrow> headers" where
  "set_header k v h = h(k := [v])"

definition add_header :: "string \<Rightarrow> string \<Rightarrow> headers \<Rightarrow> headers" where
  "add_header k v h = h(k := h k @ [v])"

text \<open>The parameters of the service: the text of an error, the JSON text of a time stamp.\<close>

record ui_texts =
  error_text :: "kerror \<Rightarrow> string"
  time_json :: "nat \<Rightarrow> json"

section \<open>The service\<close>

text \<open>The service holds the store and a bus; the bus of the service is the one it subscribes to.\<close>

record ui_config =
  CfgStore :: "store option"
  CfgBus :: "bus option"
  AllowedOrigins :: "string slice"

record ui_service =
  SvcStore :: store
  SvcBus :: "bus option"
  SvcOrigins :: "string slice"

definition new_service :: "ui_config \<Rightarrow> kerror + ui_service" where
  "new_service cfg =
    (case CfgStore cfg of
       None \<Rightarrow> Inl (Plain ''traceui: store is required'' [])
     | Some st \<Rightarrow> Inr \<lparr>SvcStore = st, SvcBus = CfgBus cfg, SvcOrigins = AllowedOrigins cfg\<rparr>)"

definition writeJSON :: "int \<Rightarrow> json option \<Rightarrow> headers \<Rightarrow> http_response" where
  "writeJSON code v h =
    \<lparr>StatusCode = code, RespHeaders = set_header ''Content-Type'' ''application/json'' h, RespBody = JsonBody v\<rparr>"

definition httpError :: "int \<Rightarrow> string \<Rightarrow> headers \<Rightarrow> http_response" where
  "httpError code msg h = writeJSON code (Some (JObj [(''error'', JStr msg)])) h"

definition handleHealth :: "ui_texts \<Rightarrow> kerror option \<Rightarrow> ui_service \<Rightarrow> headers \<Rightarrow> http_response" where
  "handleHealth txt query svc h =
    (case query of
       Some e \<Rightarrow> httpError 500 (''fact count: '' @ error_text txt e) h
     | None \<Rightarrow> writeJSON 200 (Some (JObj
         [(''bus'', JBool (SvcBus svc \<noteq> None)),
          (''facts'', JNum (itoa (FactCount (SvcStore svc)))),
          (''status'', JStr ''ok'')])) h)"

section \<open>Records\<close>

definition maxThrough :: int where
  "maxThrough = 2 ^ 63 - 1"

definition pathMatches :: "string \<Rightarrow> string \<Rightarrow> bool" where
  "pathMatches prefix owner \<longleftrightarrow> prefix = [] \<or> owner = prefix \<or> has_prefix owner (prefix @ '':'')"

definition parseMode :: "string \<Rightarrow> kerror + string \<times> string" where
  "parseMode raw =
    (if raw = [] \<or> raw = ''both'' then Inr (''both'', ModeBoth)
     else if raw = ''captures'' \<or> raw = ''captures_only'' then Inr (''captures'', ModeCapturesOnly)
     else if raw = ''declarations'' \<or> raw = ''declarations_only'' then Inr (''declarations'', ModeDeclarationsOnly)
     else Inl (Plain ''mode must be one of both, captures, declarations'' []))"

record recordDTO =
  DtoID :: string
  DtoDigest :: string
  DtoSchemaRef :: string
  DtoMode :: string
  DtoKindLabel :: string
  DtoOwner :: string
  DtoOrdinal :: int
  DtoContextRef :: string
  DtoWitnessRef :: string
  DtoCausedBy :: "string slice"
  DtoPayload :: gmap
  DtoHiddenReason :: string

definition recordDTOFrom :: "string \<Rightarrow> VisibleRecord \<Rightarrow> recordDTO" where
  "recordDTOFrom i vr =
    (let env = GetEnvelope vr; view = GetView vr in
     \<lparr>DtoID = i, DtoDigest = Digest env, DtoSchemaRef = SchemaRef env, DtoMode = Mode env,
      DtoKindLabel = (case view of None \<Rightarrow> [] | Some v \<Rightarrow> ViewKindLabel v),
      DtoOwner = (case view of None \<Rightarrow> [] | Some v \<Rightarrow> ViewOwner v),
      DtoOrdinal = (case view of None \<Rightarrow> 0 | Some v \<Rightarrow> ViewOrdinal v),
      DtoContextRef = (case view of None \<Rightarrow> [] | Some v \<Rightarrow> ViewContextRef v),
      DtoWitnessRef = WitnessRef env,
      DtoCausedBy = (if CausedByIDs env = None then Some [] else CausedByIDs env),
      DtoPayload = (case vr of Full r \<Rightarrow> Body r | Shape _ \<Rightarrow> None),
      DtoHiddenReason = (case vr of Full _ \<Rightarrow> [] | Shape sh \<Rightarrow> HiddenReason sh)\<rparr>)"

record ownerSummary =
  SummaryID :: string
  SummaryRecords :: nat

record recordsResponse =
  RespVisibility :: string
  RespMode :: string
  Owners :: "ownerSummary list"
  ListedRecords :: "recordDTO list"
  CausalEdgeList :: "(string \<times> string) list"

text \<open>The edges seen so far are the keys of \<open>seenEdges\<close>: the ones listed.\<close>

definition add_edge :: "string \<times> string \<Rightarrow> recordsResponse \<Rightarrow> recordsResponse" where
  "add_edge e resp =
    (if e \<in> set (CausalEdgeList resp) then resp else resp\<lparr>CausalEdgeList := CausalEdgeList resp @ [e]\<rparr>)"

definition slice_dtos :: "Slice \<Rightarrow> recordDTO list" where
  "slice_dtos sl = List.map_filter (\<lambda>i. map_option (recordDTOFrom i) (map_of (FactsByID sl) i)) (slice_fact_ids sl)"

definition add_owner :: "(string \<Rightarrow> kerror option) \<Rightarrow> string \<Rightarrow> int \<Rightarrow> string \<Rightarrow> store \<Rightarrow> recordsResponse \<Rightarrow> string
    \<Rightarrow> (string \<times> kerror) + recordsResponse" where
  "add_owner query path through modeFilter s resp owner =
    (if \<not> pathMatches path owner then Inr resp
     else
       (case ReadOwnerPrefix (query owner) TrustedReadContext owner through modeFilter s of
          Inl e \<Rightarrow> Inl (owner, e)
        | Inr sl \<Rightarrow> Inr (fold add_edge (SliceCausalEdges sl)
            (resp\<lparr>Owners := Owners resp @ [\<lparr>SummaryID = owner,
                SummaryRecords = length (case map_of (OwnerPaths sl) owner of None \<Rightarrow> [] | Some ids \<Rightarrow> ids)\<rparr>],
              ListedRecords := ListedRecords resp @ slice_dtos sl\<rparr>))))"

definition through_value :: "string \<Rightarrow> int option" where
  "through_value raw =
    (if raw = [] then Some maxThrough
     else (case parse_int64 raw of None \<Rightarrow> None | Some n \<Rightarrow> if n < 0 then None else Some n))"

text \<open>The answer before it is written: a bad request, a failed read, or the response.\<close>

datatype records_answer = BadRequest string | ReadFailed string kerror | RecordsOK recordsResponse

definition records_result :: "(string \<Rightarrow> kerror option) \<Rightarrow> http_request \<Rightarrow> store \<Rightarrow> records_answer" where
  "records_result query req s =
    (case through_value (QueryValue req ''through'') of
       None \<Rightarrow> BadRequest ''through must be a non-negative ordinal''
     | Some through \<Rightarrow>
    (case parseMode (QueryValue req ''mode'') of
       Inl e \<Rightarrow> BadRequest ''mode must be one of both, captures, declarations''
     | Inr (mode, modeFilter) \<Rightarrow>
    (case ReadOwnerPrefix (query []) TrustedReadContext [] through modeFilter s of
       Inl e \<Rightarrow> ReadFailed ''read: '' e
     | Inr all \<Rightarrow>
    (case foldR (add_owner query (QueryValue req ''path'') through modeFilter s)
         \<lparr>RespVisibility = SliceVisibility all, RespMode = mode, Owners = [], ListedRecords = [], CausalEdgeList = []\<rparr>
         (OwnerPathOrder all) of
       Inl (owner, e) \<Rightarrow> ReadFailed (''read '' @ owner @ '': '') e
     | Inr resp \<Rightarrow> RecordsOK resp))))"

text \<open>The JSON of the response: members in field order, empty members with \<open>omitempty\<close> left out.\<close>

definition omit_string :: "string \<Rightarrow> string \<Rightarrow> (string \<times> json) list" where
  "omit_string k s = (if s = [] then [] else [(k, JStr s)])"

definition dto_json :: "recordDTO \<Rightarrow> kerror + json" where
  "dto_json r =
    bindR (if elems (DtoPayload r) = [] then Inr [] else bindR (json_marshal (of_gmap (DtoPayload r))) (\<lambda>j. Inr [(''payload'', j)])) (\<lambda>payload.
    Inr (JObj ([(''id'', JStr (DtoID r)), (''digest'', JStr (DtoDigest r)), (''schema_ref'', JStr (DtoSchemaRef r)),
      (''mode'', JStr (DtoMode r))] @ omit_string ''kind_label'' (DtoKindLabel r) @
      [(''owner'', JStr (DtoOwner r)), (''ordinal'', JNum (itoa (DtoOrdinal r)))] @
      omit_string ''context_ref'' (DtoContextRef r) @ omit_string ''witness_ref'' (DtoWitnessRef r) @
      [(''caused_by'', stringToJSON (DtoCausedBy r))] @ payload @ omit_string ''hidden_reason'' (DtoHiddenReason r))))"

definition response_json :: "recordsResponse \<Rightarrow> kerror + json" where
  "response_json resp =
    bindR (mapR dto_json (ListedRecords resp)) (\<lambda>records.
    Inr (JObj
      [(''visibility'', JStr (RespVisibility resp)), (''mode'', JStr (RespMode resp)),
       (''owners'', JArr (map (\<lambda>w. JObj [(''id'', JStr (SummaryID w)), (''records'', JNum (itoa (int (SummaryRecords w))))]) (Owners resp))),
       (''records'', JArr records),
       (''causal_edges'', JArr (map (\<lambda>(p, c). JArr [JStr p, JStr c]) (CausalEdgeList resp)))]))"

definition handleRecords :: "ui_texts \<Rightarrow> (string \<Rightarrow> kerror option) \<Rightarrow> http_request \<Rightarrow> ui_service \<Rightarrow> headers \<Rightarrow> http_response" where
  "handleRecords txt query req svc h =
    (case records_result query req (SvcStore svc) of
       BadRequest msg \<Rightarrow> httpError 400 msg h
     | ReadFailed what e \<Rightarrow> httpError 500 (what @ error_text txt e) h
     | RecordsOK resp \<Rightarrow> writeJSON 200 (case response_json resp of Inl _ \<Rightarrow> None | Inr j \<Rightarrow> Some j) h)"

section \<open>Events\<close>

definition event_json :: "ui_texts \<Rightarrow> EffectEvent \<Rightarrow> kerror + json" where
  "event_json txt e =
    bindR (json_marshal (of_gmap (EventPayload e))) (\<lambda>payload.
    Inr (JObj
      [(''record_id'', JStr (EventRecordID e)), (''intent_id'', JStr (EventIntentID e)), (''trace_owner_id'', JStr (EventOwnerID e)),
       (''mode'', JStr (EventMode e)), (''schema_ref'', JStr (EventSchemaRef e)), (''kind_label'', JStr (EventKindLabel e)),
       (''payload'', payload),
       (''causal_parents'', stringToJSON (if EventCausalParents e = None then Some [] else EventCausalParents e)),
       (''timestamp'', time_json txt (EventTimestamp e))]))"

text \<open>What the select of the stream meets: the client is gone, the ticker, the channel.\<close>

datatype stream_input = ClientGone | Tick | ChannelEvent EffectEvent | ChannelClosed

abbreviation newline :: string where "newline \<equiv> [chr 10]"

fun stream_loop :: "ui_texts \<Rightarrow> stream_input list \<Rightarrow> string list" where
  "stream_loop txt [] = []"
| "stream_loop txt (ClientGone # rest) = []"
| "stream_loop txt (Tick # rest) = ('': heartbeat'' @ newline @ newline) # stream_loop txt rest"
| "stream_loop txt (ChannelClosed # rest) = []"
| "stream_loop txt (ChannelEvent e # rest) =
    (case event_json txt e of
       Inl _ \<Rightarrow> stream_loop txt rest
     | Inr j \<Rightarrow> (''event: effect'' @ newline @ ''data: '' @ print_json go_render j @ newline @ newline) # stream_loop txt rest)"

text \<open>The handler, from the subscription to the deferred unsubscription, with the inputs of the
  stream in between; \<open>seq\<close> is the next number of \<open>subSeq\<close>.\<close>

definition handleEvents :: "ui_texts \<Rightarrow> bool \<Rightarrow> nat \<Rightarrow> stream_input list \<Rightarrow> ui_service \<Rightarrow> headers
    \<Rightarrow> kerror + http_response \<times> nat \<times> ui_service" where
  "handleEvents txt flusher seq inputs svc h =
    (case SvcBus svc of
       None \<Rightarrow> Inr (httpError 503 ''no bus attached: embed the service in the writer process, or poll /api/records'' h, seq, svc)
     | Some b \<Rightarrow>
       if \<not> flusher then Inr (httpError 500 ''streaming unsupported'' h, seq, svc)
       else
         (let subID = ''traceui-'' @ itoa (int seq) in
          bindR (Subscribe subID b) (\<lambda>(ch, b).
          bindR (Unsubscribe subID b) (\<lambda>b.
          Inr (\<lparr>StatusCode = 200,
              RespHeaders = set_header ''Cache-Control'' ''no-store'' (set_header ''Content-Type'' ''text/event-stream'' h),
              RespBody = EventStream ((''event: hello'' @ newline @ ''data: '' @ [CHR ''{'', CHR 0x22] @ ''subscription'' @
                  [CHR 0x22, CHR '':'', CHR 0x22] @ subID @ [CHR 0x22, CHR ''}''] @ newline @ newline) # stream_loop txt inputs)\<rparr>,
            seq + 1, svc\<lparr>SvcBus := Some b\<rparr>)))))"

section \<open>Routing\<close>

definition getOnly :: "http_request \<Rightarrow> (headers \<Rightarrow> 'a) \<Rightarrow> (http_response \<Rightarrow> 'a) \<Rightarrow> headers \<Rightarrow> 'a" where
  "getOnly req next answer h =
    (if ReqMethod req \<noteq> ''GET'' then answer (httpError 405 ''GET only'' (set_header ''Allow'' ''GET'' h)) else next h)"

definition notFound :: "headers \<Rightarrow> http_response" where
  "notFound h = \<lparr>StatusCode = 404,
    RespHeaders = set_header ''X-Content-Type-Options'' ''nosniff'' (set_header ''Content-Type'' ''text/plain; charset=utf-8'' h),
    RespBody = TextBody ''404 page not found''\<rparr>"

text \<open>What the environment adds to a request: failing queries, the stream and its inputs.\<close>

record ui_env =
  count_error :: "kerror option"
  read_error :: "string \<Rightarrow> kerror option"
  can_flush :: bool
  next_sub :: nat
  stream :: "stream_input list"

definition serve_mux :: "ui_texts \<Rightarrow> ui_env \<Rightarrow> http_request \<Rightarrow> ui_service \<Rightarrow> headers
    \<Rightarrow> kerror + http_response \<times> nat \<times> ui_service" where
  "serve_mux txt env req svc h =
    (let same = (\<lambda>r. Inr (r, next_sub env, svc)) in
     if ReqPath req = ''/api/health'' then getOnly req (\<lambda>h. same (handleHealth txt (count_error env) svc h)) same h
     else if ReqPath req = ''/api/records'' then getOnly req (\<lambda>h. same (handleRecords txt (read_error env) req svc h)) same h
     else if ReqPath req = ''/api/events'' then getOnly req (handleEvents txt (can_flush env) (next_sub env) (stream env) svc) same h
     else same (notFound h))"

definition cors_headers :: "http_request \<Rightarrow> ui_service \<Rightarrow> headers" where
  "cors_headers req svc =
    (let h = set_header ''Cache-Control'' ''no-store'' (\<lambda>_. []); origin = HeaderValue req ''Origin'' in
     if elems (SvcOrigins svc) = [] then set_header ''Access-Control-Allow-Origin'' ''*'' h
     else
       (let h = add_header ''Vary'' ''Origin'' h in
        if origin \<noteq> [] \<and> origin \<in> set (elems (SvcOrigins svc)) then set_header ''Access-Control-Allow-Origin'' origin h else h))"

definition serve :: "ui_texts \<Rightarrow> ui_env \<Rightarrow> http_request \<Rightarrow> ui_service \<Rightarrow> kerror + http_response \<times> nat \<times> ui_service" where
  "serve txt env req svc =
    (let h = cors_headers req svc; asked = HeaderValue req ''Access-Control-Request-Headers'' in
     if ReqMethod req = ''OPTIONS'' \<and> HeaderValue req ''Origin'' \<noteq> [] then
       (let h = set_header ''Access-Control-Allow-Methods'' ''GET, OPTIONS'' h;
            h = (if asked \<noteq> [] then set_header ''Access-Control-Allow-Headers'' asked h else h)
        in Inr (\<lparr>StatusCode = 204, RespHeaders = h, RespBody = NoBody\<rparr>, next_sub env, svc))
     else serve_mux txt env req svc h)"

section \<open>The command\<close>

text \<open>\<open>cmd/traceui/main.go\<close>, up to the point where it listens: the flag, the read-only opener, the
  service without a bus and with no configured origins.  The command ends with code 2 for a missing
  flag and with code 1 for an error it logs.\<close>

datatype command_exit = Usage int | Fatal int kerror

definition traceui_main :: "string \<Rightarrow> kerror option \<Rightarrow> db_file \<Rightarrow> command_exit + ui_service" where
  "traceui_main db_flag pragma f =
    (if db_flag = [] then Inl (Usage 2)
     else
       (case OpenSQLiteTraceStoreReadOnly pragma db_flag f of
          Inl e \<Rightarrow> Inl (Fatal 1 e)
        | Inr st \<Rightarrow>
       (case new_service \<lparr>CfgStore = Some st, CfgBus = None, AllowedOrigins = None\<rparr> of
          Inl e \<Rightarrow> Inl (Fatal 1 e)
        | Inr svc \<Rightarrow> Inr svc)))"

end
