(* ===== verification/Viewer_Properties.thy ===== *)
theory Viewer_Properties
  imports Trace_Viewer Execution_Store
begin

text \<open>The properties of the trace viewer: what a request for records lists, and the headers and codes of
  every answer.\<close>

section \<open>Every path has a name\<close>

text \<open>No owner is called by the empty string, the name that stands for all owners in a read.\<close>

definition named_paths :: "store \<Rightarrow> bool" where
  "named_paths s \<longleftrightarrow> owner_log (Db s) [] = []"

lemma appendInTx_named:
  assumes "appendInTx lib ctx batch d = Inr ((r, new), d')" "db_ok d" "root_unique lib" "no_witness_owner batch" "owner_log d [] = []"
  shows "owner_log d' [] = []"
proof (cases "find_intent d (AppendIntentID batch)")
  case None
  with assms(1) obtain dig cs ws fs where w: "validateBatchShape batch = Inr ()" "prepareAppend lib d batch ctx = Inr (cs, ws, fs, r)"
    "write_append batch dig (cs, ws, fs, r) d = Inr d'"
    by (auto simp: appendInTx_def bindR_eq_Inr)
  have "[] \<noteq> witnessTraceOwnerID" by (simp add: witnessTraceOwnerID_def)
  with write_append_ok[OF w(2,1,3) assms(2-4)] have "owner_log d' [] = owner_log d [] @ batch_log batch (FactIDs r) []" by blast
  moreover have "TraceOwnerID (fst gd) \<noteq> []" if "gd \<in> set (batch_drafts batch)" for gd
    using validated_drafts[OF w(1), of "fst gd" "snd gd"] that by simp
  then have "batch_log batch (FactIDs r) [] = []" by (auto simp: batch_log_def filter_empty_conv dest!: set_zip_leftD)
  ultimately show ?thesis using assms(5) by simp
next
  case (Some row)
  with assms(1) have "d' = d" by (auto simp: appendInTx_def bindR_eq_Inr split: if_splits)
  with assms(5) show ?thesis by simp
qed

lemma publish_named:
  assumes "publishFrontierInTx lib ctx spec d = Inr (f, d')" "db_ok d" "root_unique lib" "owner_log d [] = []"
    and "frontier_publisher spec \<noteq> witnessTraceOwnerID"
  shows "owner_log d' [] = []"
  using assms(1)
proof (cases rule: publishFrontierInTx_Inr)
  case (1 through view receipt isNew d1 i rest)
  have "no_witness_owner (frontier_batch ctx spec (ViewOrdinal view))" using assms(5) frontier_batch_fields(3) by blast
  from appendInTx_named[OF 1(5) assms(2,3) this assms(4)] index_frontier_db[OF 1(7)] show ?thesis by auto
qed

lemma store_step_named:
  assumes "store_step lib s s'" "store_inv lib s" "named_paths s"
  shows "named_paths s'"
proof -
  have inv: "root_unique lib" "db_ok (Db s)" "owner_log (Db s) [] = []" using assms(2,3) by (simp_all add: store_inv_def named_paths_def)
  show ?thesis
    using assms(1)
  proof cases
    case (append env auth batch res)
    from Append_db[OF append(1)] show ?thesis using appendInTx_named[OF _ inv(2,1) append(2) inv(3)] inv(3) unfolding named_paths_def by metis
  next
    case (publish env auth spec res)
    from PublishFrontier_db[OF publish(1)] show ?thesis
      using publish_named[OF _ inv(2,1,3) publish(2)] assms(3) by (fastforce simp: named_paths_def)
  qed (use inv(3) side_operations in \<open>fastforce simp: named_paths_def owner_log_def owner_entries_def WithBus_def WithCheckpointBlobLimit_def\<close>)+
qed

interpretation named: invariant_system "store_step lib" "\<lambda>s. store_inv lib s \<and> named_paths s"
  by unfold_locales (auto intro: store_step_inv store_step_named)

lemma reachable_named: "reachable lib s \<Longrightarrow> root_unique lib \<Longrightarrow> named_paths s"
  unfolding reachable_def using named.steps_inv[of lib new_store s] new_store_inv[of lib]
  by (simp add: named_paths_def owner_log_def owner_entries_def new_store_def createSchema_def empty_db_def)

section \<open>One path\<close>

definition entry_dto :: "db \<Rightarrow> path_row list \<Rightarrow> path_row \<Rightarrow> recordDTO" where
  "entry_dto d ps p = recordDTOFrom (PathRecord p) (Full (shown_fact d ps p))"

lemma slice_dtos_path:
  assumes "\<forall>p\<in>set ps. PathRef p = ow" "vis \<noteq> VisibilityShapeOnly"
  shows "slice_dtos (slice_of d None vis ModeBoth inc (entry_facts d ModeBoth ps) support) = map (entry_dto d ps) ps"
proof -
  let ?sl = "slice_of d None vis ModeBoth inc (entry_facts d ModeBoth ps) support"
  have one: "\<forall>(pe, r)\<in>set (entry_facts d ModeBoth ps). peRef pe = ow" using assms(1) by (auto simp: entry_facts_both entry_of_row_def)
  have ids: "slice_fact_ids ?sl = map PathRecord ps"
    unfolding slice_of_ids slice_ids_one_path[OF one] by (simp add: entry_facts_both comp_def entry_of_row_def)
  have l: "map_of (FactsByID ?sl) (PathRecord p) = Some (Full (shown_fact d ps p))" if "p \<in> set ps" for p
    using shown_lookup[OF that] assms(2) by (simp add: visibleFact_def)
  have "List.map_filter (\<lambda>i. map_option (recordDTOFrom i) (map_of (FactsByID ?sl) i)) (map PathRecord qs) = map (entry_dto d ps) qs"
    if "set qs \<subseteq> set ps" for qs
    using that by (induction qs) (simp_all add: List.map_filter_simps l entry_dto_def del: slice_of_fields)
  then show ?thesis by (simp add: slice_dtos_def ids)
qed

lemma shown_entry:
  assumes "db_ok d" "set ps \<subseteq> set (PathEntries d)" "\<forall>p\<in>set ps. PathRef p = ow" "p \<in> set ps"
  shows "DtoID (entry_dto d ps p) = PathRecord p" "DtoOwner (entry_dto d ps p) = ow"
    "DtoOrdinal (entry_dto d ps p) = PathOrdinal (last (filter (\<lambda>q. PathRecord q = PathRecord p) ps))"
proof -
  let ?q = "last (filter (\<lambda>q. PathRecord q = PathRecord p) ps)"
  have "filter (\<lambda>q. PathRecord q = PathRecord p) ps \<noteq> []" using assms(4) by (auto simp: filter_empty_conv)
  then have q: "last_where (\<lambda>q. PathRecord q = PathRecord p) ps = Some ?q" "?q \<in> set (filter (\<lambda>q. PathRecord q = PathRecord p) ps)"
    by (simp_all only: last_where_def Let_def if_False last_in_set not_False_eq_True)
  then have "?q \<in> set (PathEntries d)" "PathRef ?q = ow" using assms(2,3) by auto
  then have "View (entry_fact d ?q) = Some \<lparr>ViewOwner = ow, ViewOrdinal = PathOrdinal ?q, ViewContextRef = PathContext ?q, ViewKindLabel = PathKind ?q\<rparr>"
    using entry_fact_row[OF assms(1), of ?q] by (metis Record.select_convs(3))
  then show "DtoID (entry_dto d ps p) = PathRecord p" "DtoOwner (entry_dto d ps p) = ow"
    "DtoOrdinal (entry_dto d ps p) = PathOrdinal (last (filter (\<lambda>q. PathRecord q = PathRecord p) ps))"
    by (simp_all add: entry_dto_def recordDTOFrom_def shown_fact_def q(1) Let_def)
qed

section \<open>All paths\<close>

abbreviation trusted_profile :: string where
  "trusted_profile \<equiv> VisibilityProfile (read_operation_context TrustedReadContext)"

lemma add_edges_only: "Owners (fold add_edge es resp) = Owners resp" "ListedRecords (fold add_edge es resp) = ListedRecords resp"
  by (induction es arbitrary: resp) (simp_all add: add_edge_def)

lemma add_owner_eq:
  assumes "db_ok (Db s)" "witnessed (Db s)" "ow \<noteq> []" "pathMatches path ow"
  shows "\<exists>resp'. add_owner (\<lambda>_. None) path t ModeBoth s resp ow = Inr resp'
    \<and> Owners resp' = Owners resp @ [\<lparr>SummaryID = ow, SummaryRecords = length (owner_prefix (Db s) ow t)\<rparr>]
    \<and> ListedRecords resp' = ListedRecords resp @ map (entry_dto (Db s) (owner_prefix (Db s) ow t)) (owner_prefix (Db s) ow t)"
proof -
  let ?ps = "owner_prefix (Db s) ow t"
  obtain support where r: "ReadOwnerPrefix None TrustedReadContext ow t ModeBoth s
      = Inr (slice_of (Db s) None trusted_profile ModeBoth True (entry_facts (Db s) ModeBoth ?ps) support)"
    using read_prefix_eq[OF assms(1-3) trusted_payloads, of t] by blast
  have dtos: "slice_dtos (slice_of (Db s) None trusted_profile ModeBoth True (entry_facts (Db s) ModeBoth ?ps) support)
      = map (entry_dto (Db s) ?ps) ?ps"
    by (rule slice_dtos_path[OF owner_prefix_sub(2) reader_visibility[OF trusted_payloads]])
  have "length (owner_path (slice_of (Db s) None trusted_profile ModeBoth True (entry_facts (Db s) ModeBoth ?ps) support) ow) = length ?ps"
    unfolding owner_path_slice one_path[OF owner_prefix_sub(2)] by simp
  then show ?thesis
    using assms(4) by (simp add: add_owner_def r dtos add_edges_only owner_path_def del: slice_of_fields)
qed

lemma add_owners_eq:
  assumes "db_ok (Db s)" "witnessed (Db s)" "[] \<notin> set ows"
  shows "\<exists>resp'. foldR (add_owner (\<lambda>_. None) path t ModeBoth s) resp ows = Inr resp'
    \<and> Owners resp' = Owners resp @ map (\<lambda>ow. \<lparr>SummaryID = ow, SummaryRecords = length (owner_prefix (Db s) ow t)\<rparr>) (filter (pathMatches path) ows)
    \<and> ListedRecords resp' = ListedRecords resp @ concat (map (\<lambda>ow. map (entry_dto (Db s) (owner_prefix (Db s) ow t)) (owner_prefix (Db s) ow t))
        (filter (pathMatches path) ows))"
  using assms(3)
proof (induction ows arbitrary: resp)
  case (Cons ow ows)
  show ?case
  proof (cases "pathMatches path ow")
    case False
    with Cons show ?thesis by (simp add: add_owner_def)
  next
    case True
    from Cons.prems have "ow \<noteq> []" by auto
    from add_owner_eq[OF assms(1,2) this True] obtain r1 where "add_owner (\<lambda>_. None) path t ModeBoth s resp ow = Inr r1"
      "Owners r1 = Owners resp @ [\<lparr>SummaryID = ow, SummaryRecords = length (owner_prefix (Db s) ow t)\<rparr>]"
      "ListedRecords r1 = ListedRecords resp @ map (entry_dto (Db s) (owner_prefix (Db s) ow t)) (owner_prefix (Db s) ow t)" by blast
    moreover have "[] \<notin> set ows" using Cons.prems by simp
    note Cons.IH[OF this, of r1]
    ultimately show ?thesis using True by auto
  qed
qed simp

text \<open>The owners of a read of everything: those with an entry up to the cutoff.\<close>

lemma all_owners:
  assumes "db_ok d" "owner_log d [] = []"
  shows "set (dedup_loop {} (map PathRef (prefix_rows d [] t))) = {ow. owner_prefix d ow t \<noteq> []}"
proof -
  have none: "owner_entries d [] = []" using assms(2) by (simp add: owner_log_def)
  have "ow \<in> PathRef ` {p \<in> set (PathEntries d). PathOrdinal p \<le> t} \<longleftrightarrow> owner_prefix d ow t \<noteq> []" for ow
  proof (cases "ow = []")
    case True
    then show ?thesis using none by (auto simp: owner_entries_def filter_empty_conv)
  next
    case False
    have "set (owner_prefix d ow t) = {p \<in> set (PathEntries d). PathRef p = ow \<and> PathOrdinal p \<le> t}"
      using False by (simp add: prefix_rows_owner[OF assms(1) False, symmetric] prefix_rows_def)
    moreover have "owner_prefix d ow t \<noteq> [] \<longleftrightarrow> (\<exists>p. p \<in> set (owner_prefix d ow t))"
      by (cases "owner_prefix d ow t") auto
    ultimately show ?thesis by auto
  qed
  moreover have "set (map PathRef (prefix_rows d [] t)) = PathRef ` {p \<in> set (PathEntries d). PathOrdinal p \<le> t}"
    by (simp add: prefix_rows_def)
  ultimately show ?thesis by (auto simp: dedup_loop_set)
qed

section \<open>Properties\<close>

text \<open>C15: A request for the records of a subtree succeeds on every reachable store.  It lists each owner with
  an entry up to the cutoff whose name is the path or a colon-separated descendant of it, once, with
  the number of its entries, and for each of them every entry of its log up to the cutoff, in order,
  under the owner's name.  The ordinal shown is that of the last entry of the same record on
  the path: two entries of one record on one path are both listed with the later ordinal.\<close>

theorem viewer_lists_the_logs:
  assumes "reachable lib s" "root_unique lib"
    and "through_value (QueryValue req ''through'') = Some t" "parseMode (QueryValue req ''mode'') = Inr (m, ModeBoth)"
  shows "\<exists>resp owners. records_result (\<lambda>_. None) req s = RecordsOK resp \<and> distinct owners
    \<and> set owners = {ow. pathMatches (QueryValue req ''path'') ow \<and> take (nat (t + 1)) (owner_log (Db s) ow) \<noteq> []}
    \<and> Owners resp = map (\<lambda>ow. \<lparr>SummaryID = ow, SummaryRecords = length (take (nat (t + 1)) (owner_log (Db s) ow))\<rparr>) owners
    \<and> map (\<lambda>r. (DtoOwner r, DtoID r, DtoOrdinal r)) (ListedRecords resp)
      = concat (map (\<lambda>ow. map (\<lambda>p. (ow, PathRecord p,
            PathOrdinal (last (filter (\<lambda>q. PathRecord q = PathRecord p) (take (nat (t + 1)) (owner_entries (Db s) ow))))))
          (take (nat (t + 1)) (owner_entries (Db s) ow))) owners)"
proof -
  note root = assms(2)
  have inv: "db_ok (Db s)" "witnessed (Db s)" using reachable_inv[OF assms(1) root] by (simp_all add: store_inv_def)
  have nm: "owner_log (Db s) [] = []" using reachable_named[OF assms(1) root] by (simp add: named_paths_def)
  let ?path = "QueryValue req ''path''" and ?rows = "prefix_rows (Db s) [] t" and ?d = "Db s"
  let ?ows = "dedup_loop {} (map PathRef ?rows)"
  have "set ?rows \<subseteq> set (PathEntries ?d)" by (auto simp: prefix_rows_def)
  then obtain support where b: "buildSlice ?d (map entry_of_row ?rows) None trusted_profile ModeBoth True
      = Inr (slice_of ?d None trusted_profile ModeBoth True (entry_facts ?d ModeBoth ?rows) support)"
    using buildSlice_total[OF inv] by blast
  let ?all = "slice_of ?d None trusted_profile ModeBoth True (entry_facts ?d ModeBoth ?rows) support"
  have all: "ReadOwnerPrefix None TrustedReadContext [] t ModeBoth s = Inr ?all"
    using b by (simp add: ReadOwnerPrefix_def trusted_reader)
  have order: "OwnerPathOrder ?all = ?ows"
    using loaded_parts_ok[of ?d trusted_profile True "entry_facts ?d ModeBoth ?rows"]
    by (simp add: parts_ok_def entry_facts_both comp_def entry_of_row_def)
  have ows: "set ?ows = {ow. owner_prefix ?d ow t \<noteq> []}" by (rule all_owners[OF inv(1) nm])
  have "[] \<notin> set ?ows" using nm unfolding ows by (simp add: owner_log_def)
  from add_owners_eq[OF inv this, of ?path t] obtain resp where r:
    "foldR (add_owner (\<lambda>_. None) ?path t ModeBoth s)
       \<lparr>RespVisibility = SliceVisibility ?all, RespMode = m, Owners = [], ListedRecords = [], CausalEdgeList = []\<rparr> ?ows = Inr resp"
    "Owners resp = map (\<lambda>ow. \<lparr>SummaryID = ow, SummaryRecords = length (owner_prefix ?d ow t)\<rparr>) (filter (pathMatches ?path) ?ows)"
    "ListedRecords resp = concat (map (\<lambda>ow. map (entry_dto ?d (owner_prefix ?d ow t)) (owner_prefix ?d ow t)) (filter (pathMatches ?path) ?ows))"
    by fastforce
  have res: "records_result (\<lambda>_. None) req s = RecordsOK resp"
    unfolding records_result_def assms(3,4) option.case sum.case prod.case all order r(1) by (rule refl)
  let ?owners = "filter (pathMatches ?path) ?ows"
  have log: "take (nat (t + 1)) (owner_log ?d ow) = map PathRecord (owner_prefix ?d ow t)" for ow by (simp add: owner_log_def take_map)
  have dto: "map (\<lambda>r. (DtoOwner r, DtoID r, DtoOrdinal r)) (map (entry_dto ?d (owner_prefix ?d ow t)) (owner_prefix ?d ow t))
      = map (\<lambda>p. (ow, PathRecord p, PathOrdinal (last (filter (\<lambda>q. PathRecord q = PathRecord p) (owner_prefix ?d ow t))))) (owner_prefix ?d ow t)" for ow
    unfolding map_map comp_def by (rule map_cong[OF refl]) (simp add: shown_entry[OF inv(1) owner_prefix_sub])
  have "map (\<lambda>r. (DtoOwner r, DtoID r, DtoOrdinal r)) (ListedRecords resp)
      = concat (map (\<lambda>ow. map (\<lambda>p. (ow, PathRecord p, PathOrdinal (last (filter (\<lambda>q. PathRecord q = PathRecord p) (owner_prefix ?d ow t)))))
          (owner_prefix ?d ow t)) ?owners)"
    unfolding r(3) map_concat by (rule arg_cong[where f = concat]) (simp only: map_map comp_def dto[unfolded map_map comp_def])
  moreover have "distinct ?owners" by (simp add: dedup_loop_distinct)
  moreover have "set ?owners = {ow. pathMatches ?path ow \<and> take (nat (t + 1)) (owner_log ?d ow) \<noteq> []}"
    unfolding set_filter ows log by auto
  moreover have "Owners resp = map (\<lambda>ow. \<lparr>SummaryID = ow, SummaryRecords = length (take (nat (t + 1)) (owner_log ?d ow))\<rparr>) ?owners"
    unfolding r(2) log by simp
  ultimately show ?thesis using res by blast
qed

definition sample_request :: "string \<Rightarrow> http_request" where
  "sample_request path = \<lparr>ReqMethod = ''GET'', ReqPath = ''/api/records'', QueryValue = (\<lambda>k. if k = ''path'' then path else []),
    HeaderValue = (\<lambda>k. [])\<rparr>"

theorem viewer_lists_the_logs_witness:
  "\<exists>s resp i. records_result (\<lambda>_. None) (sample_request ''alice'') s = RecordsOK resp
    \<and> Owners resp = [\<lparr>SummaryID = ''alice'', SummaryRecords = 1\<rparr>]
    \<and> map (\<lambda>r. (DtoOwner r, DtoID r, DtoOrdinal r)) (ListedRecords resp) = [(''alice'', i, 0)]"
proof -
  obtain dig c wp i where d: "reachable demo_lib (demo_store\<lparr>Db := demo_db demo_lib dig c wp i\<rparr>)" by (rule demo_run)
  let ?s = "demo_store\<lparr>Db := demo_db demo_lib dig c wp i\<rparr>" and ?p = "demo_entry ''alice'' 0 i c ''note.v1'' (commit_receipt 0)"
  let ?req = "sample_request ''alice''"
  have q: "through_value (QueryValue ?req ''through'') = Some maxThrough" "parseMode (QueryValue ?req ''mode'') = Inr (''both'', ModeBoth)"
    by (simp_all add: sample_request_def through_value_def parseMode_def)
  have es: "owner_entries (Db ?s) ''alice'' = [?p]" "\<And>ow. ow \<noteq> ''alice'' \<Longrightarrow> ow \<noteq> witnessTraceOwnerID \<Longrightarrow> owner_entries (Db ?s) ow = []"
    by (auto simp: owner_entries_def demo_db_def demo_entry_def witnessTraceOwnerID_def)
  obtain resp owners where r: "records_result (\<lambda>_. None) ?req ?s = RecordsOK resp" "distinct owners"
    "set owners = {ow. pathMatches ''alice'' ow \<and> take (nat (maxThrough + 1)) (owner_log (Db ?s) ow) \<noteq> []}"
    "Owners resp = map (\<lambda>ow. \<lparr>SummaryID = ow, SummaryRecords = length (take (nat (maxThrough + 1)) (owner_log (Db ?s) ow))\<rparr>) owners"
    "map (\<lambda>r. (DtoOwner r, DtoID r, DtoOrdinal r)) (ListedRecords resp)
      = concat (map (\<lambda>ow. map (\<lambda>p. (ow, PathRecord p,
            PathOrdinal (last (filter (\<lambda>q. PathRecord q = PathRecord p) (take (nat (maxThrough + 1)) (owner_entries (Db ?s) ow))))))
          (take (nat (maxThrough + 1)) (owner_entries (Db ?s) ow))) owners)"
    using viewer_lists_the_logs[OF d demo_lib_ok(3) q] by (auto simp: sample_request_def)
  have log: "owner_log (Db ?s) ''alice'' = [i]" unfolding owner_log_def es(1) by (simp add: demo_entry_def)
  have w: "\<not> pathMatches ''alice'' witnessTraceOwnerID" by (simp add: pathMatches_def has_prefix_def witnessTraceOwnerID_def)
  have "ow = ''alice''" if "pathMatches ''alice'' ow" "owner_log (Db ?s) ow \<noteq> []" for ow
    using that w es(2)[of ow] by (auto simp: owner_log_def)
  moreover have "pathMatches ''alice'' ''alice''" by (simp add: pathMatches_def)
  ultimately have "set owners = {''alice''}" unfolding r(3) using log by (auto simp: maxThrough_def)
  with r(2) have "owners = [''alice'']" by (metis distinct.simps(2) empty_iff insert_iff list.exhaust list.set(1,2) set_empty2 singletonD insertI1)
  with r(1,4,5) show ?thesis
    by (intro exI[of _ ?s] exI[of _ resp] exI[of _ i]) (simp add: log[simplified] es(1)[simplified] maxThrough_def demo_entry_def)
qed

section \<open>The command\<close>

text \<open>The command serves what the file holds, to every origin, and has no live stream.\<close>

lemma command_serves_file:
  assumes "traceui_main db_flag pragma f = Inr svc"
  shows "Db (SvcStore svc) = Content f" "SvcBus svc = None" "set expectedTables \<subseteq> set (Tables f)"
    "RespHeaders (handleHealth txt None svc (cors_headers req svc)) ''Access-Control-Allow-Origin'' = [''*'']"
    "handleEvents txt fl k inputs svc h
      = Inr (httpError 503 ''no bus attached: embed the service in the writer process, or poll /api/records'' h, k, svc)"
proof -
  from assms obtain st where "OpenSQLiteTraceStoreReadOnly pragma db_flag f = Inr st"
    and svc: "svc = \<lparr>SvcStore = st, SvcBus = None, SvcOrigins = None\<rparr>"
    by (auto simp: traceui_main_def new_service_def split: if_splits sum.splits)
  from this(1) have "Db st = Content f" "set expectedTables \<subseteq> set (Tables f)"
    by (auto simp: OpenSQLiteTraceStoreReadOnly_def validateExistingSchema_def Let_def bindR_eq_Inr filter_empty_conv
      split: if_splits option.splits)
  then show "Db (SvcStore svc) = Content f" "SvcBus svc = None" "set expectedTables \<subseteq> set (Tables f)" by (simp_all add: svc)
  show "RespHeaders (handleHealth txt None svc (cors_headers req svc)) ''Access-Control-Allow-Origin'' = [''*'']"
    by (simp add: svc handleHealth_def writeJSON_def cors_headers_def Let_def set_header_def)
  show "handleEvents txt fl k inputs svc h
      = Inr (httpError 503 ''no bus attached: embed the service in the writer process, or poll /api/records'' h, k, svc)"
    by (simp add: svc handleEvents_def)
qed

section \<open>Guards\<close>

text \<open>The mux on the paths it serves.\<close>

lemma serve_mux_paths:
  "ReqPath req = ''/api/health'' \<Longrightarrow> serve_mux txt env req svc h
    = getOnly req (\<lambda>h. Inr (handleHealth txt (count_error env) svc h, next_sub env, svc)) (\<lambda>r. Inr (r, next_sub env, svc)) h"
  "ReqPath req = ''/api/records'' \<Longrightarrow> serve_mux txt env req svc h
    = getOnly req (\<lambda>h. Inr (handleRecords txt (read_error env) req svc h, next_sub env, svc)) (\<lambda>r. Inr (r, next_sub env, svc)) h"
  "ReqPath req = ''/api/events'' \<Longrightarrow> serve_mux txt env req svc h
    = getOnly req (handleEvents txt (can_flush env) (next_sub env) (stream env) svc) (\<lambda>r. Inr (r, next_sub env, svc)) h"
  by (simp_all add: serve_mux_def)

lemma serve_mux_refused:
  assumes "ReqPath req \<in> {''/api/health'', ''/api/records'', ''/api/events''}" "ReqMethod req \<noteq> ''GET''"
  shows "serve_mux txt env req svc h = Inr (httpError 405 ''GET only'' (set_header ''Allow'' ''GET'' h), next_sub env, svc)"
proof -
  have g: "getOnly req nxt answer h = answer (httpError 405 ''GET only'' (set_header ''Allow'' ''GET'' h))" for nxt answer
    unfolding getOnly_def using assms(2) by (rule if_P)
  from assms(1) consider "ReqPath req = ''/api/health''" | "ReqPath req = ''/api/records''" | "ReqPath req = ''/api/events''" by blast
  then show ?thesis by cases (simp_all only: serve_mux_paths g)
qed

lemma serve_mux_get:
  assumes "ReqPath req \<in> {''/api/health'', ''/api/records'', ''/api/events''}" "ReqMethod req = ''GET''"
    "serve_mux txt env req svc h = Inr (resp, n, svc')"
  shows "resp = handleHealth txt (count_error env) svc h \<and> svc' = svc
    \<or> resp = handleRecords txt (read_error env) req svc h \<and> svc' = svc
    \<or> handleEvents txt (can_flush env) (next_sub env) (stream env) svc h = Inr (resp, n, svc')"
proof -
  have g: "getOnly req nxt answer h = nxt h" for nxt and answer :: "http_response \<Rightarrow> kerror + http_response \<times> nat \<times> ui_service"
    by (simp add: getOnly_def assms(2))
  from assms(1) consider "ReqPath req = ''/api/health''" | "ReqPath req = ''/api/records''" | "ReqPath req = ''/api/events''" by blast
  then show ?thesis
    by cases (use assms(3) in \<open>auto simp only: serve_mux_paths g sum.inject prod.inject\<close>)
qed

text \<open>C36: Every answer of the viewer carries the cross-origin policy: the header that admits an origin is the
  star when no origins are configured, the origin of the request when it is one of the configured ones,
  and absent otherwise; no answer may be cached; the store is never changed; and nothing but a
  GET, or the preflight of a browser, gets further than the guards.\<close>

theorem viewer_answers_guarded:
  assumes "serve txt env req svc = Inr (resp, n, svc')"
  shows "RespHeaders resp ''Access-Control-Allow-Origin'' =
      (if elems (SvcOrigins svc) = [] then [''*'']
       else if HeaderValue req ''Origin'' \<noteq> [] \<and> HeaderValue req ''Origin'' \<in> set (elems (SvcOrigins svc))
       then [HeaderValue req ''Origin''] else [])
    \<and> RespHeaders resp ''Cache-Control'' = [''no-store''] \<and> SvcStore svc' = SvcStore svc
    \<and> (ReqMethod req \<noteq> ''GET'' \<longrightarrow> StatusCode resp \<in> {204, 404, 405})
    \<and> (ReqMethod req = ''GET'' \<longrightarrow> StatusCode resp \<in> {200, 400, 404, 500, 503})"
proof -
  let ?o = "''Access-Control-Allow-Origin''" and ?c = "''Cache-Control''" and ?h = "cors_headers req svc"
  have h: "?h ?o = (if elems (SvcOrigins svc) = [] then [''*'']
       else if HeaderValue req ''Origin'' \<noteq> [] \<and> HeaderValue req ''Origin'' \<in> set (elems (SvcOrigins svc))
       then [HeaderValue req ''Origin''] else [])" "?h ?c = [''no-store'']"
    by (simp_all add: cors_headers_def Let_def set_header_def add_header_def)
  have json: "RespHeaders (writeJSON code v g) ?o = g ?o" "RespHeaders (writeJSON code v g) ?c = g ?c"
    "StatusCode (writeJSON code v g) = code" for code v g by (simp_all add: writeJSON_def set_header_def)
  have records: "RespHeaders (handleRecords txt q req svc g) ?o = g ?o" "RespHeaders (handleRecords txt q req svc g) ?c = g ?c"
    "StatusCode (handleRecords txt q req svc g) \<in> {200, 400, 500}" for q g
    by (simp_all add: handleRecords_def httpError_def json split: records_answer.splits)
  have health: "RespHeaders (handleHealth txt q svc g) ?o = g ?o" "RespHeaders (handleHealth txt q svc g) ?c = g ?c"
    "StatusCode (handleHealth txt q svc g) \<in> {200, 500}" for q g
    by (simp_all add: handleHealth_def httpError_def json split: option.splits)
  have events: "RespHeaders r ?o = ?h ?o \<and> RespHeaders r ?c = [''no-store''] \<and> StatusCode r \<in> {200, 500, 503} \<and> SvcStore s' = SvcStore svc"
    if "handleEvents txt f k i svc ?h = Inr (r, m, s')" for f k i r m s'
    using that h(2) by (auto simp: handleEvents_def httpError_def json Let_def bindR_eq_Inr set_header_def split: option.splits if_splits)
  have guard: "RespHeaders (httpError 405 m (set_header ''Allow'' a g)) ?o = g ?o" "RespHeaders (httpError 405 m (set_header ''Allow'' a g)) ?c = g ?c"
    "StatusCode (httpError 405 m g) = 405" for m a g by (simp_all add: httpError_def json set_header_def)
  show ?thesis
  proof (cases "ReqMethod req = ''OPTIONS'' \<and> HeaderValue req ''Origin'' \<noteq> []")
    case True
    with assms h show ?thesis by (auto simp: serve_def Let_def set_header_def)
  next
    case False
    then have m: "serve_mux txt env req svc ?h = Inr (resp, n, svc')" using assms unfolding serve_def Let_def by presburger
    have mux: "RespHeaders resp ?o = ?h ?o \<and> RespHeaders resp ?c = [''no-store''] \<and> SvcStore svc' = SvcStore svc
      \<and> (ReqMethod req \<noteq> ''GET'' \<longrightarrow> StatusCode resp \<in> {404, 405})
      \<and> (ReqMethod req = ''GET'' \<longrightarrow> StatusCode resp \<in> {200, 400, 404, 500, 503})"
    proof (cases "ReqPath req \<in> {''/api/health'', ''/api/records'', ''/api/events''}")
      case False
      with m h(2) show ?thesis by (auto simp: serve_mux_def Let_def notFound_def set_header_def)
    next
      case path: True
      show ?thesis
      proof (cases "ReqMethod req = ''GET''")
        case False
        have "serve_mux txt env req svc ?h = Inr (httpError 405 ''GET only'' (set_header ''Allow'' ''GET'' ?h), next_sub env, svc)"
          by (rule serve_mux_refused[OF path False])
        with m have r: "resp = httpError 405 ''GET only'' (set_header ''Allow'' ''GET'' ?h)" "svc' = svc" by auto
        show ?thesis using False h(2) by (simp add: r guard)
      next
        case True
        from serve_mux_get[OF path True m] consider "resp = handleHealth txt (count_error env) svc ?h" "svc' = svc"
          | "resp = handleRecords txt (read_error env) req svc ?h" "svc' = svc"
          | "handleEvents txt (can_flush env) (next_sub env) (stream env) svc ?h = Inr (resp, n, svc')"
          by blast
        then show ?thesis
        proof cases
          case 1
          with True health[of "count_error env" ?h] h(2) show ?thesis by auto
        next
          case 2
          with True records[of "read_error env" ?h] h(2) show ?thesis by auto
        next
          case 3
          from events[OF 3] True show ?thesis by auto
        qed
      qed
    qed
    then show ?thesis unfolding h by blast
  qed
qed

definition sample_service :: ui_service where
  "sample_service = \<lparr>SvcStore = new_store, SvcBus = None, SvcOrigins = Some [''http://a'']\<rparr>"

definition sample_events :: "string \<Rightarrow> http_request" where
  "sample_events meth = \<lparr>ReqMethod = meth, ReqPath = ''/api/events'', QueryValue = (\<lambda>k. []),
    HeaderValue = (\<lambda>k. if k = ''Origin'' then ''http://a'' else [])\<rparr>"

theorem viewer_answers_guarded_witness:
  "\<exists>txt env resp n svc'. serve txt env (sample_events ''POST'') sample_service = Inr (resp, n, svc')
    \<and> RespHeaders resp ''Access-Control-Allow-Origin'' = [''http://a''] \<and> StatusCode resp \<in> {204, 404, 405}"
proof -
  let ?txt = "\<lparr>error_text = (\<lambda>e. []), time_json = (\<lambda>t. JNull)\<rparr>"
  let ?env = "\<lparr>count_error = None, read_error = (\<lambda>ow. None), can_flush = True, next_sub = 1, stream = []\<rparr>"
  let ?req = "sample_events ''POST''"
  have "ReqPath ?req \<in> {''/api/health'', ''/api/records'', ''/api/events''}" "ReqMethod ?req \<noteq> ''GET''" "ReqMethod ?req \<noteq> ''OPTIONS''"
    by (simp_all add: sample_events_def)
  then obtain resp n svc' where r: "serve ?txt ?env ?req sample_service = Inr (resp, n, svc')"
    unfolding serve_def Let_def using serve_mux_refused by auto
  from viewer_answers_guarded[OF r] r show ?thesis
    by (intro exI[of _ ?txt] exI[of _ ?env] exI) (auto simp: sample_events_def sample_service_def)
qed

end
