(* ===== verification/Canonical_Heap.thy ===== *)
theory Canonical_Heap
  imports Canonical_Json
begin

text \<open>
  The cycle check of the canonical writer (\<open>enterContainer\<close>, \<open>leaveContainer\<close> and the \<open>seen\<close>
  argument of \<open>writeCanonicalValue\<close> in \<open>canonical.go\<close>).  The other theories treat a value as a tree;
  here it lives on a heap, where slices share backing arrays and maps, slices and pointers may lead
  back to themselves.  The writer on the heap is related to the writer on trees by unfolding, and its
  recursion is bounded by the depth of the stack.
\<close>

section \<open>Values on a heap\<close>

text \<open>
  A leaf is a value of which no part is shared: a scalar, a nil, a byte slice.  A slice is the address
  of its backing array, the offset its data pointer has in it, and its length; arrays are values of
  their own, maps and pointers are addresses.  A slice of an array value that is itself an element of a
  backing array, which in Go may start at the address of that element, is not represented.
\<close>

datatype hval = HLeaf gval | HSlice nat nat nat | HArray "hval list" | HMap nat | HPtr nat

record gheap =
  Arrays :: "hval list list"
  MapTables :: "(string \<times> hval) list list"
  Cells :: "hval list"

definition slice_items :: "gheap \<Rightarrow> nat \<Rightarrow> nat \<Rightarrow> nat \<Rightarrow> hval list" where
  "slice_items h a off k = (if a < length (Arrays h) then take k (drop off (Arrays h ! a)) else [])"

definition map_items :: "gheap \<Rightarrow> nat \<Rightarrow> (string \<times> hval) list" where
  "map_items h m = (if m < length (MapTables h) then MapTables h ! m else [])"

definition cell :: "gheap \<Rightarrow> nat \<Rightarrow> hval" where
  "cell h p = (if p < length (Cells h) then Cells h ! p else HLeaf VNil)"

section \<open>The containers being written\<close>

text \<open>\<open>canonicalVisit\<close>: the kind and the data pointer, without the length of a slice.\<close>

datatype ref_kind = KindSlice | KindMap

type_synonym canonical_visit = "ref_kind \<times> nat \<times> nat"

definition enterContainer :: "canonical_visit set \<Rightarrow> canonical_visit option \<Rightarrow> kerror + canonical_visit set" where
  "enterContainer seen key =
    (case key of
       None \<Rightarrow> Inr seen
     | Some k \<Rightarrow> if k \<in> seen then Inl (Plain ''canonical JSON: circular reference detected'' []) else Inr (insert k seen))"

definition leaveContainer :: "canonical_visit set \<Rightarrow> canonical_visit option \<Rightarrow> canonical_visit set" where
  "leaveContainer seen key = (case key of None \<Rightarrow> seen | Some k \<Rightarrow> seen - {k})"

section \<open>The writer\<close>

text \<open>The text or the error, with the containers left on the way out; \<open>None\<close> when the stack is used up.\<close>

type_synonym written = "((kerror + string) \<times> canonical_visit set) option"

definition in_container :: "canonical_visit option \<Rightarrow> string \<Rightarrow> (canonical_visit set \<Rightarrow> written) \<Rightarrow> string
    \<Rightarrow> canonical_visit set \<Rightarrow> written" where
  "in_container key left body right seen =
    (case enterContainer seen key of
       Inl e \<Rightarrow> Some (Inl e, seen)
     | Inr seen' \<Rightarrow>
       (case body seen' of
          None \<Rightarrow> None
        | Some (r, seen'') \<Rightarrow> Some (map_result (\<lambda>s. left @ s @ right) r, leaveContainer seen'' key)))"

definition then_write :: "written \<Rightarrow> (string \<Rightarrow> canonical_visit set \<Rightarrow> written) \<Rightarrow> written" where
  "then_write w next_part =
    (case w of
       None \<Rightarrow> None
     | Some (Inl e, seen) \<Rightarrow> Some (Inl e, seen)
     | Some (Inr s, seen) \<Rightarrow> next_part s seen)"

definition add_text :: "string \<Rightarrow> written \<Rightarrow> written" where
  "add_text s w = map_option (\<lambda>(r, seen). (map_result (\<lambda>t. s @ t) r, seen)) w"

fun heap_write :: "golib \<Rightarrow> bool \<Rightarrow> gheap \<Rightarrow> nat \<Rightarrow> hval \<Rightarrow> canonical_visit set \<Rightarrow> written"
  and heap_items :: "golib \<Rightarrow> bool \<Rightarrow> gheap \<Rightarrow> nat \<Rightarrow> bool \<Rightarrow> hval list \<Rightarrow> canonical_visit set \<Rightarrow> written"
  and heap_fields :: "golib \<Rightarrow> bool \<Rightarrow> gheap \<Rightarrow> nat \<Rightarrow> bool \<Rightarrow> (string \<times> hval) list \<Rightarrow> canonical_visit set \<Rightarrow> written"
where
  "heap_write lib asc h 0 v seen = None"
| "heap_write lib asc h (Suc n) (HLeaf g) seen = Some (write_value lib asc g, seen)"
| "heap_write lib asc h (Suc n) (HSlice a off k) seen =
     in_container (Some (KindSlice, a, off)) ''['' (\<lambda>s. heap_items lib asc h n True (slice_items h a off k) s) '']'' seen"
| "heap_write lib asc h (Suc n) (HArray xs) seen =
     in_container None ''['' (\<lambda>s. heap_items lib asc h n True xs s) '']'' seen"
| "heap_write lib asc h (Suc n) (HMap m) seen =
     in_container (Some (KindMap, m, 0)) ''{'' (\<lambda>s. heap_fields lib asc h n True (sorted_fields (map_items h m)) s) ''}'' seen"
| "heap_write lib asc h (Suc n) (HPtr p) seen = heap_write lib asc h n (cell h p) seen"
| "heap_items lib asc h n first [] seen = Some (Inr [], seen)"
| "heap_items lib asc h n first (x # xs) seen =
     then_write (heap_write lib asc h n x seen)
       (\<lambda>s seen. add_text (comma first @ s) (heap_items lib asc h n False xs seen))"
| "heap_fields lib asc h n first [] seen = Some (Inr [], seen)"
| "heap_fields lib asc h n first ((k, v) # kvs) seen =
     (case write_canonical_string asc k of
        Inl e \<Rightarrow> Some (Inl e, seen)
      | Inr ks \<Rightarrow> then_write (heap_write lib asc h n v seen)
          (\<lambda>s seen. add_text (comma first @ ks @ '':'' @ s) (heap_fields lib asc h n False kvs seen)))"

text \<open>\<open>canonicalJSON\<close>: the buffer is discarded with the error.\<close>

definition canonicalJSON :: "golib \<Rightarrow> bool \<Rightarrow> gheap \<Rightarrow> nat \<Rightarrow> hval \<Rightarrow> (kerror + string) option" where
  "canonicalJSON lib asc h stack v = map_option fst (heap_write lib asc h stack v {})"

section \<open>Containers are left as they were entered\<close>

lemma then_write_Some: "then_write w f = Some (r, s) \<longleftrightarrow>
    (\<exists>e. w = Some (Inl e, s) \<and> r = Inl e) \<or> (\<exists>t s'. w = Some (Inr t, s') \<and> f t s' = Some (r, s))"
  by (auto simp: then_write_def split: option.splits sum.splits)

lemma add_text_Some: "add_text t w = Some (r, s) \<longleftrightarrow> (\<exists>r'. w = Some (r', s) \<and> r = map_result (\<lambda>u. t @ u) r')"
  by (auto simp: add_text_def)

lemma in_container_Some: "in_container key left body right seen = Some (r, s) \<longleftrightarrow>
    (\<exists>e. enterContainer seen key = Inl e \<and> r = Inl e \<and> s = seen)
    \<or> (\<exists>seen' r' s'. enterContainer seen key = Inr seen' \<and> body seen' = Some (r', s')
        \<and> r = map_result (\<lambda>s. left @ s @ right) r' \<and> s = leaveContainer s' key)"
  by (auto simp: in_container_def split: option.splits sum.splits)

lemma leave_enter: "enterContainer seen key = Inr seen' \<Longrightarrow> leaveContainer seen' key = seen"
  by (auto simp: enterContainer_def leaveContainer_def split: option.splits if_splits)

lemma heap_seen:
  "heap_write lib asc h n v seen = Some (r, s) \<Longrightarrow> s = seen"
  "heap_items lib asc h n first xs seen = Some (r, s) \<Longrightarrow> s = seen"
  "heap_fields lib asc h n first kvs seen = Some (r, s) \<Longrightarrow> s = seen"
proof (induction lib asc h n v seen and lib asc h n first xs seen and lib asc h n first kvs seen arbitrary: r s and r s and r s
    rule: heap_write_heap_items_heap_fields.induct)
  case (8 lib asc h n first x xs seen)
  then show ?case unfolding heap_items.simps then_write_Some add_text_Some by blast
next
  case (10 lib asc h n first k v kvs seen)
  then show ?case by (cases "write_canonical_string asc k") (simp_all add: then_write_Some add_text_Some, blast)
qed (auto simp: in_container_Some dest: leave_enter)

section \<open>More stack changes nothing\<close>

lemma heap_more:
  "heap_write lib asc h n v seen = Some r \<Longrightarrow> heap_write lib asc h (Suc n) v seen = Some r"
  "heap_items lib asc h n first xs seen = Some r \<Longrightarrow> heap_items lib asc h (Suc n) first xs seen = Some r"
  "heap_fields lib asc h n first kvs seen = Some r \<Longrightarrow> heap_fields lib asc h (Suc n) first kvs seen = Some r"
proof (induction lib asc h n v seen and lib asc h n first xs seen and lib asc h n first kvs seen arbitrary: r and r and r
    rule: heap_write_heap_items_heap_fields.induct)
  case (8 lib asc h n first x xs seen)
  then show ?case by (cases r) (force simp: then_write_Some add_text_Some)
next
  case (10 lib asc h n first k v kvs seen)
  then show ?case by (cases r) (force simp: then_write_Some add_text_Some split: sum.splits)
qed (auto simp: in_container_def split: sum.splits option.splits)

lemma heap_write_mono: "heap_write lib asc h n v seen = Some r \<Longrightarrow> n \<le> m \<Longrightarrow> heap_write lib asc h m v seen = Some r"
  by (induction m) (auto simp: le_Suc_eq intro: heap_more)

lemma heap_items_mono: "heap_items lib asc h n first xs seen = Some r \<Longrightarrow> n \<le> m \<Longrightarrow> heap_items lib asc h m first xs seen = Some r"
  by (induction m) (auto simp: le_Suc_eq intro: heap_more)

lemma heap_fields_mono: "heap_fields lib asc h n first xs seen = Some r \<Longrightarrow> n \<le> m \<Longrightarrow> heap_fields lib asc h m first xs seen = Some r"
  by (induction m) (auto simp: le_Suc_eq intro: heap_more)

section \<open>What a value on the heap unfolds to\<close>

text \<open>The tree a value stands for, if it stands for one: the members of a map in key order.\<close>

inductive unfolds :: "gheap \<Rightarrow> hval \<Rightarrow> gval \<Rightarrow> bool" for h where
  leaf: "unfolds h (HLeaf g) g"
| slice: "list_all2 (unfolds h) (slice_items h a off k) ts \<Longrightarrow> unfolds h (HSlice a off k) (VSlice ts)"
| array: "list_all2 (unfolds h) xs ts \<Longrightarrow> unfolds h (HArray xs) (VSlice ts)"
| table: "list_all2 (rel_prod (=) (unfolds h)) (sorted_fields (map_items h m)) kvs \<Longrightarrow> unfolds h (HMap m) (VMap kvs)"
| ptr: "unfolds h (cell h p) t \<Longrightarrow> unfolds h (HPtr p) (VPtr t)"

inductive_simps unfolds_simps:
  "unfolds h (HLeaf g) t" "unfolds h (HSlice a off k) t" "unfolds h (HArray xs) t" "unfolds h (HMap m) t" "unfolds h (HPtr p) t"

text \<open>The unfolded members are in key order already.\<close>

lemma unfolded_sorted:
  assumes "list_all2 (rel_prod (=) P) (sorted_fields kvs) ts"
  shows "sorted_fields ts = ts"
proof -
  have "map fst ts = map fst (sorted_fields kvs)"
    using assms by (induction rule: list_all2_induct) (auto elim: rel_prod.cases)
  then show ?thesis by (simp add: sorted_fields_def sort_key_id_if_sorted)
qed

section \<open>Text written is the text of the unfolding\<close>

lemma heap_text_unfolds:
  "heap_write lib asc h n v seen = Some (Inr s, seen') \<Longrightarrow> \<exists>t. unfolds h v t \<and> write_value lib asc t = Inr s"
  "heap_items lib asc h n first xs seen = Some (Inr s, seen') \<Longrightarrow>
     \<exists>ts. list_all2 (unfolds h) xs ts \<and> write_items lib asc first ts = Inr s"
  "heap_fields lib asc h n first kvs seen = Some (Inr s, seen') \<Longrightarrow>
     \<exists>ts. list_all2 (rel_prod (=) (unfolds h)) kvs ts \<and> write_fields lib asc first ts = Inr s"
proof (induction lib asc h n v seen and lib asc h n first xs seen and lib asc h n first kvs seen
    arbitrary: s seen' and s seen' and s seen' rule: heap_write_heap_items_heap_fields.induct)
  case (3 lib asc h n a off k seen)
  from "3.prems" obtain r' seen1 s1 where "heap_items lib asc h n True (slice_items h a off k) seen1 = Some (r', s1)"
    "Inr s = map_result (\<lambda>s. ''['' @ s @ '']'') r'" by (auto simp: in_container_Some)
  then obtain u where "heap_items lib asc h n True (slice_items h a off k) seen1 = Some (Inr u, s1)" "s = ''['' @ u @ '']''"
    by (cases r') auto
  with "3.IH" obtain ts where "list_all2 (unfolds h) (slice_items h a off k) ts" "write_items lib asc True ts = Inr u" by blast
  then show ?case using \<open>s = _\<close> by (intro exI[of _ "VSlice ts"]) (simp add: unfolds.slice)
next
  case (4 lib asc h n xs seen)
  from "4.prems" obtain r' seen1 s1 where "heap_items lib asc h n True xs seen1 = Some (r', s1)"
    "Inr s = map_result (\<lambda>s. ''['' @ s @ '']'') r'" by (auto simp: in_container_Some)
  then obtain u where "heap_items lib asc h n True xs seen1 = Some (Inr u, s1)" "s = ''['' @ u @ '']''"
    by (cases r') auto
  with "4.IH" obtain ts where "list_all2 (unfolds h) xs ts" "write_items lib asc True ts = Inr u" by blast
  then show ?case using \<open>s = _\<close> by (intro exI[of _ "VSlice ts"]) (simp add: unfolds.array)
next
  case (5 lib asc h n m seen)
  let ?fs = "sorted_fields (map_items h m)"
  from "5.prems" obtain r' seen1 s1 where "heap_fields lib asc h n True ?fs seen1 = Some (r', s1)"
    "Inr s = map_result (\<lambda>s. ''{'' @ s @ ''}'') r'" by (auto simp: in_container_Some)
  then obtain u where "heap_fields lib asc h n True ?fs seen1 = Some (Inr u, s1)" "s = ''{'' @ u @ ''}''"
    by (cases r') auto
  with "5.IH" obtain ts where "list_all2 (rel_prod (=) (unfolds h)) ?fs ts" "write_fields lib asc True ts = Inr u" by blast
  moreover have "sorted_fields ts = ts" using unfolded_sorted calculation(1) .
  ultimately show ?case using \<open>s = _\<close> by (intro exI[of _ "VMap ts"]) (simp add: unfolds.table)
next
  case (6 lib asc h n p seen)
  then obtain t where "unfolds h (cell h p) t" "write_value lib asc t = Inr s" by auto
  then show ?case by (intro exI[of _ "VPtr t"]) (simp add: unfolds.ptr)
next
  case (8 lib asc h n first x xs seen)
  from "8.prems" obtain t seen1 r' where "heap_write lib asc h n x seen = Some (Inr t, seen1)"
    "heap_items lib asc h n False xs seen1 = Some (r', seen')" "Inr s = map_result (\<lambda>u. (comma first @ t) @ u) r'"
    by (auto simp: then_write_Some add_text_Some)
  moreover from this(3) obtain u where "r' = Inr u" "s = comma first @ t @ u" by (cases r') auto
  moreover obtain g where "unfolds h x g" "write_value lib asc g = Inr t" using "8.IH"(1) calculation(1) by blast
  moreover obtain gs where "list_all2 (unfolds h) xs gs" "write_items lib asc False gs = Inr u"
    using "8.IH"(2) calculation(2,4) by blast
  ultimately show ?case by (intro exI[of _ "g # gs"]) simp
next
  case (10 lib asc h n first k v kvs seen)
  from "10.prems" obtain ks where k: "write_canonical_string asc k = Inr ks" by (cases "write_canonical_string asc k") auto
  with "10.prems" obtain t seen1 r' where "heap_write lib asc h n v seen = Some (Inr t, seen1)"
    "heap_fields lib asc h n False kvs seen1 = Some (r', seen')" "Inr s = map_result (\<lambda>u. (comma first @ ks @ '':'' @ t) @ u) r'"
    by (auto simp: then_write_Some add_text_Some)
  moreover from this(3) obtain u where "r' = Inr u" "s = comma first @ ks @ '':'' @ t @ u" by (cases r') auto
  moreover obtain g where "unfolds h v g" "write_value lib asc g = Inr t" using "10.IH"(1)[OF k] calculation(1) by blast
  moreover obtain gs where "list_all2 (rel_prod (=) (unfolds h)) kvs gs" "write_fields lib asc False gs = Inr u"
    using "10.IH"(2)[OF k] calculation(2,4) by blast
  ultimately show ?case using k by (intro exI[of _ "(k, g) # gs"]) simp
qed (auto intro: unfolds.leaf)

section \<open>What is on the heap\<close>

fun parts :: "hval \<Rightarrow> hval set" where
  "parts (HArray xs) = insert (HArray xs) (\<Union>x\<in>set xs. parts x)"
| "parts v = {v}"

lemma parts_self [simp, intro]: "v \<in> parts v"
  by (cases v) auto

lemma parts_array: "HArray xs \<in> parts v \<Longrightarrow> x \<in> set xs \<Longrightarrow> x \<in> parts v"
  by (induction v rule: parts.induct) auto

lemma finite_parts: "finite (parts v)"
  by (induction v rule: parts.induct) auto

text \<open>Every value that can be met from \<open>v\<close>.\<close>

definition heap_parts :: "gheap \<Rightarrow> hval \<Rightarrow> hval set" where
  "heap_parts h v = insert (HLeaf VNil) (\<Union>w \<in> insert v (set (concat (Arrays h)) \<union> snd ` set (concat (MapTables h)) \<union> set (Cells h)). parts w)"

lemma heap_parts_self: "v \<in> heap_parts h v"
  by (simp add: heap_parts_def)

lemma heap_parts_finite: "finite (heap_parts h v)"
  unfolding heap_parts_def by (auto intro!: finite_parts)

lemma heap_parts_step:
  "x \<in> set (slice_items h a off k) \<Longrightarrow> x \<in> heap_parts h v"
  "HArray xs \<in> heap_parts h v \<Longrightarrow> x \<in> set xs \<Longrightarrow> x \<in> heap_parts h v"
  "(key, x) \<in> set (sorted_fields (map_items h m)) \<Longrightarrow> x \<in> heap_parts h v"
  "cell h p \<in> heap_parts h v"
proof -
  assume "x \<in> set (slice_items h a off k)"
  then have "a < length (Arrays h)" "x \<in> set (Arrays h ! a)"
    by (auto simp: slice_items_def split: if_splits dest!: in_set_takeD in_set_dropD)
  then have "x \<in> set (concat (Arrays h))" using nth_mem by fastforce
  then show "x \<in> heap_parts h v" unfolding heap_parts_def by blast
next
  assume "HArray xs \<in> heap_parts h v" "x \<in> set xs"
  then show "x \<in> heap_parts h v" unfolding heap_parts_def using parts_array by blast
next
  assume "(key, x) \<in> set (sorted_fields (map_items h m))"
  then have "m < length (MapTables h)" "(key, x) \<in> set (MapTables h ! m)"
    by (auto simp: map_items_def sorted_fields_def split: if_splits)
  then have "(key, x) \<in> set (concat (MapTables h))" using nth_mem by fastforce
  then have "x \<in> snd ` set (concat (MapTables h))" by force
  then show "x \<in> heap_parts h v" unfolding heap_parts_def by blast
next
  show "cell h p \<in> heap_parts h v"
    by (cases "p < length (Cells h)") (auto simp: cell_def heap_parts_def)
qed

fun visit_of :: "hval \<Rightarrow> canonical_visit option" where
  "visit_of (HSlice a off k) = Some (KindSlice, a, off)"
| "visit_of (HMap m) = Some (KindMap, m, 0)"
| "visit_of _ = None"

section \<open>The writer returns\<close>

text \<open>One step through a pointer or an array, which the writer takes without a look at \<open>seen\<close>.\<close>

definition bare_step :: "gheap \<Rightarrow> (hval \<times> hval) set" where
  "bare_step h = {(x, HArray xs) | x xs. x \<in> set xs} \<union> {(cell h p, HPtr p) | p. True}"

definition grounded :: "gheap \<Rightarrow> bool" where
  "grounded h \<longleftrightarrow> wf (bare_step h)"

lemma grounded_rank:
  fixes rank :: "hval \<Rightarrow> nat"
  assumes "\<And>xs x. x \<in> set xs \<Longrightarrow> rank x < rank (HArray xs)" "\<And>p. rank (cell h p) < rank (HPtr p)"
  shows "grounded h"
  unfolding grounded_def by (rule wf_subset[of "measure rank"]) (auto simp: bare_step_def assms)

lemma heap_items_return:
  assumes "\<And>x. x \<in> set xs \<Longrightarrow> \<exists>n r. heap_write lib asc h n x seen = Some r"
  shows "\<exists>n r. heap_items lib asc h n first xs seen = Some r"
  using assms
proof (induction xs arbitrary: first)
  case (Cons x xs)
  obtain n r s where x: "heap_write lib asc h n x seen = Some (r, s)" using Cons.prems[of x] by force
  have s: "s = seen" by (rule heap_seen(1)[OF x])
  obtain m w where xs: "heap_items lib asc h m False xs seen = Some w" using Cons by fastforce
  have "heap_write lib asc h (max n m) x seen = Some (r, seen)" "heap_items lib asc h (max n m) False xs seen = Some w"
    using heap_write_mono[OF x] heap_items_mono[OF xs] s by auto
  then show ?case by (intro exI[of _ "max n m"]) (cases r; simp add: then_write_def add_text_def)
qed simp

lemma heap_fields_return:
  assumes "\<And>k x. (k, x) \<in> set kvs \<Longrightarrow> \<exists>n r. heap_write lib asc h n x seen = Some r"
  shows "\<exists>n r. heap_fields lib asc h n first kvs seen = Some r"
  using assms
proof (induction kvs arbitrary: first)
  case (Cons kv kvs)
  obtain k x where kv: "kv = (k, x)" by fastforce
  obtain n r s where x: "heap_write lib asc h n x seen = Some (r, s)" using Cons.prems[of k x] by (force simp: kv)
  have s: "s = seen" by (rule heap_seen(1)[OF x])
  obtain m w where xs: "heap_fields lib asc h m False kvs seen = Some w" using Cons by fastforce
  have "heap_write lib asc h (max n m) x seen = Some (r, seen)" "heap_fields lib asc h (max n m) False kvs seen = Some w"
    using heap_write_mono[OF x] heap_fields_mono[OF xs] s by auto
  then show ?case
    by (intro exI[of _ "max n m"]) (cases r; cases "write_canonical_string asc k"; simp add: kv then_write_def add_text_def)
qed simp

lemma in_container_return:
  assumes "\<And>seen'. enterContainer seen key = Inr seen' \<Longrightarrow> \<exists>n r. f n seen' = Some r"
  shows "\<exists>n r. in_container key left (f n) right seen = Some r"
proof (cases "enterContainer seen key")
  case (Inr seen')
  with assms obtain n r where "f n seen' = Some r" by blast
  with Inr have "in_container key left (f n) right seen = Some (map_result (\<lambda>s. left @ s @ right) (fst r), leaveContainer (snd r) key)"
    by (simp add: in_container_def split: prod.splits)
  then show ?thesis by blast
qed (simp add: in_container_def)

lemma heap_write_returns:
  assumes "grounded h" "v \<in> heap_parts h v0"
  shows "\<exists>n r. heap_write lib asc h n v seen = Some r"
proof -
  let ?V = "{k. \<exists>w \<in> heap_parts h v0. visit_of w = Some k}"
  have "?V = the ` visit_of ` {w \<in> heap_parts h v0. visit_of w \<noteq> None}" by force
  then have fin: "finite ?V" using heap_parts_finite[of h v0] by simp
  let ?r = "inv_image (measure card <*lex*> bare_step h) (\<lambda>(v, seen). (?V - seen, v))"
  have "wf ?r" using assms(1) by (auto simp: grounded_def)
  moreover have "v \<in> heap_parts h v0 \<longrightarrow> (\<exists>n r. heap_write lib asc h n v seen = Some r)"
    if "\<forall>w s. ((w, s), (v, seen)) \<in> ?r \<longrightarrow> w \<in> heap_parts h v0 \<longrightarrow> (\<exists>n r. heap_write lib asc h n w s = Some r)" for v seen
  proof
    assume v: "v \<in> heap_parts h v0"
    have enter: "\<exists>n r. heap_write lib asc h n w (insert key seen) = Some r"
      if "visit_of v = Some key" "key \<notin> seen" "w \<in> heap_parts h v0" for w key
    proof -
      have "key \<in> ?V" using that(1) v by blast
      then have "card (?V - insert key seen) < card (?V - seen)"
        using fin that(2) by (intro psubset_card_mono) auto
      then show ?thesis using that(3) \<open>\<forall>w s. _\<close> by auto
    qed
    have down: "\<exists>n r. heap_write lib asc h n w seen = Some r" if "(w, v) \<in> bare_step h" "w \<in> heap_parts h v0" for w
      using that \<open>\<forall>w s. _\<close> by auto
    show "\<exists>n r. heap_write lib asc h n v seen = Some r"
    proof (cases v)
      case (HLeaf g)
      then show ?thesis by (intro exI[of _ "Suc 0"]) simp
    next
      case (HSlice a off k)
      have "\<exists>n r. in_container (Some (KindSlice, a, off)) ''['' (\<lambda>s. heap_items lib asc h n True (slice_items h a off k) s) '']'' seen = Some r"
        using enter[of "(KindSlice, a, off)"] heap_parts_step(1) HSlice
        by (intro in_container_return heap_items_return) (auto simp: enterContainer_def split: if_splits)
      then obtain n r where "heap_write lib asc h (Suc n) v seen = Some r" by (auto simp: HSlice)
      then show ?thesis by blast
    next
      case (HMap m)
      have "\<exists>n r. in_container (Some (KindMap, m, 0)) ''{'' (\<lambda>s. heap_fields lib asc h n True (sorted_fields (map_items h m)) s) ''}'' seen = Some r"
        using enter[of "(KindMap, m, 0)"] heap_parts_step(3) HMap
        by (intro in_container_return heap_fields_return) (auto simp: enterContainer_def split: if_splits)
      then obtain n r where "heap_write lib asc h (Suc n) v seen = Some r" by (auto simp: HMap)
      then show ?thesis by blast
    next
      case (HArray xs)
      have "\<exists>n r. in_container None ''['' (\<lambda>s. heap_items lib asc h n True xs s) '']'' seen = Some r"
        using down heap_parts_step(2) v HArray
        by (intro in_container_return heap_items_return) (auto simp: enterContainer_def bare_step_def)
      then obtain n r where "heap_write lib asc h (Suc n) v seen = Some r" by (auto simp: HArray)
      then show ?thesis by blast
    next
      case (HPtr p)
      have "(cell h p, v) \<in> bare_step h" by (auto simp: bare_step_def HPtr)
      from down[OF this heap_parts_step(4)] obtain n r where "heap_write lib asc h (Suc n) v seen = Some r" by (auto simp: HPtr)
      then show ?thesis by blast
    qed
  qed
  ultimately have "v \<in> heap_parts h v0 \<longrightarrow> (\<exists>n r. heap_write lib asc h n v seen = Some r)"
    by (induction "(v, seen)" arbitrary: v seen rule: wf_induct_rule) blast
  with assms(2) show ?thesis by blast
qed

section \<open>Containers inside containers\<close>

text \<open>What the writer meets directly inside a value.\<close>

inductive holds :: "gheap \<Rightarrow> hval \<Rightarrow> hval \<Rightarrow> bool" for h where
  slice: "x \<in> set (slice_items h a off k) \<Longrightarrow> holds h (HSlice a off k) x"
| array: "x \<in> set xs \<Longrightarrow> holds h (HArray xs) x"
| table: "(key, x) \<in> set (sorted_fields (map_items h m)) \<Longrightarrow> holds h (HMap m) x"
| ptr: "holds h (HPtr p) (cell h p)"

inductive_simps holds_simps:
  "holds h (HLeaf g) x" "holds h (HSlice a off k) x" "holds h (HArray xs) x" "holds h (HMap m) x" "holds h (HPtr p) x"

text \<open>Somewhere in \<open>v\<close> a container holds, at any depth, one with the same kind and data pointer.\<close>

definition holds_own_start :: "gheap \<Rightarrow> hval \<Rightarrow> bool" where
  "holds_own_start h v \<longleftrightarrow> (\<exists>x y key. (holds h)\<^sup>*\<^sup>* v x \<and> (holds h)\<^sup>+\<^sup>+ x y \<and> visit_of x = Some key \<and> visit_of y = Some key)"

text \<open>The same along the way of the writer, which carries the containers above a value.\<close>

inductive blocked :: "gheap \<Rightarrow> canonical_visit set \<Rightarrow> hval \<Rightarrow> bool" for h where
  here: "visit_of v = Some key \<Longrightarrow> key \<in> seen \<Longrightarrow> blocked h seen v"
| below: "holds h v x \<Longrightarrow> blocked h (seen \<union> set_option (visit_of v)) x \<Longrightarrow> blocked h seen v"

lemma blocked_iff: "blocked h seen v \<longleftrightarrow> (\<exists>key\<in>seen. visit_of v = Some key)
    \<or> (\<exists>x. holds h v x \<and> blocked h (seen \<union> set_option (visit_of v)) x)"
  by (subst blocked.simps) auto

lemma blocked_mono: "blocked h seen v \<Longrightarrow> seen \<subseteq> seen' \<Longrightarrow> blocked h seen' v"
proof (induction arbitrary: seen' rule: blocked.induct)
  case (below v x seen)
  then have "blocked h (seen' \<union> set_option (visit_of v)) x" by blast
  with below.hyps(1) show ?case by (rule blocked.below)
qed (auto intro: blocked.here)

lemma blocked_reach:
  assumes "(holds h)\<^sup>*\<^sup>* v y" "visit_of y = Some key" "key \<in> seen"
  shows "blocked h seen v"
  using assms
proof (induction rule: converse_rtranclp_induct)
  case (step v x)
  then have "blocked h (seen \<union> set_option (visit_of v)) x" using blocked_mono by blast
  with step.hyps(1) show ?case by (rule blocked.below)
qed (rule blocked.here)

lemma blocked_nested:
  assumes "blocked h seen v"
  shows "holds_own_start h v \<or> (\<exists>y. \<exists>key\<in>seen. (holds h)\<^sup>*\<^sup>* v y \<and> visit_of y = Some key)"
  using assms
proof (induction rule: blocked.induct)
  case (below v x seen)
  from below.IH show ?case
  proof
    assume "holds_own_start h x"
    then have "holds_own_start h v" unfolding holds_own_start_def using below.hyps(1) by (meson converse_rtranclp_into_rtranclp)
    then show ?thesis ..
  next
    assume "\<exists>y. \<exists>key\<in>seen \<union> set_option (visit_of v). (holds h)\<^sup>*\<^sup>* x y \<and> visit_of y = Some key"
    then obtain y key where y: "key \<in> seen \<union> set_option (visit_of v)" "(holds h)\<^sup>*\<^sup>* x y" "visit_of y = Some key" by blast
    show ?thesis
    proof (cases "key \<in> seen")
      case True
      then show ?thesis using y below.hyps(1) by (meson converse_rtranclp_into_rtranclp)
    next
      case False
      with y(1) have "visit_of v = Some key" by (cases "visit_of v") auto
      moreover have "(holds h)\<^sup>+\<^sup>+ v y" using below.hyps(1) y(2) by (rule rtranclp_into_tranclp2)
      ultimately show ?thesis using y(3) unfolding holds_own_start_def by blast
    qed
  qed
qed blast

lemma blocked_start: "blocked h {} v \<longleftrightarrow> holds_own_start h v"
proof
  assume "blocked h {} v"
  then show "holds_own_start h v" using blocked_nested by blast
next
  assume "holds_own_start h v"
  then obtain x y key where n: "(holds h)\<^sup>*\<^sup>* v x" "(holds h)\<^sup>+\<^sup>+ x y" "visit_of x = Some key" "visit_of y = Some key"
    by (auto simp: holds_own_start_def)
  obtain z where z: "holds h x z" "(holds h)\<^sup>*\<^sup>* z y" using tranclpD[OF n(2)] by blast
  have x: "blocked h seen x" for seen by (rule blocked.below[OF z(1) blocked_reach[OF z(2) n(4)]]) (simp add: n(3))
  show "blocked h {} v"
    using n(1)
  proof (induction rule: converse_rtranclp_induct)
    case (step v w)
    from step.IH have "blocked h ({} \<union> set_option (visit_of v)) w" by (rule blocked_mono) simp
    with step.hyps(1) show ?case by (rule blocked.below)
  qed (rule x)
qed

text \<open>A rank that falls inside a value, the same for containers at one data pointer, rules it out.\<close>

lemma no_own_start:
  fixes rank :: "hval \<Rightarrow> nat"
  assumes "\<And>x y. holds h x y \<Longrightarrow> rank y < rank x"
    and "\<And>x y key. visit_of x = Some key \<Longrightarrow> visit_of y = Some key \<Longrightarrow> rank x = rank y"
  shows "\<not> holds_own_start h v"
proof -
  have "rank y < rank x" if "(holds h)\<^sup>+\<^sup>+ x y" for x y
    using that by (induction rule: tranclp_induct) (use assms(1) less_trans in blast)+
  then show ?thesis using assms(2) unfolding holds_own_start_def by (metis less_irrefl)
qed

section \<open>Finite values are written unless they are blocked\<close>

abbreviation circular :: kerror where
  "circular \<equiv> Plain ''canonical JSON: circular reference detected'' []"

text \<open>The verdict on a value that is blocked or not, with the result the tree would have.\<close>

definition verdict :: "bool \<Rightarrow> kerror + string \<Rightarrow> kerror + string \<Rightarrow> bool" where
  "verdict b r tree \<longleftrightarrow> (if b then \<forall>s. tree = Inr s \<longrightarrow> r = Inl circular else r = tree)"

definition judged :: "golib \<Rightarrow> bool \<Rightarrow> gheap \<Rightarrow> canonical_visit set \<Rightarrow> hval \<Rightarrow> gval \<Rightarrow> bool" where
  "judged lib asc h seen v t \<longleftrightarrow> (\<exists>n r. heap_write lib asc h n v seen = Some (r, seen)
    \<and> verdict (blocked h seen v) r (write_value lib asc t))"

lemma heap_items_judged:
  assumes "list_all2 (judged lib asc h seen) xs ts"
  shows "\<exists>n r. heap_items lib asc h n first xs seen = Some (r, seen)
    \<and> verdict (\<exists>x\<in>set xs. blocked h seen x) r (write_items lib asc first ts)"
  using assms
proof (induction xs ts arbitrary: first rule: list_all2_induct)
  case Nil
  show ?case by (auto simp: verdict_def)
next
  case (Cons x xs t ts)
  obtain n r where x: "heap_write lib asc h n x seen = Some (r, seen)" "verdict (blocked h seen x) r (write_value lib asc t)"
    using Cons.hyps by (auto simp: judged_def)
  obtain m q where xs: "heap_items lib asc h m False xs seen = Some (q, seen)"
    "verdict (\<exists>x\<in>set xs. blocked h seen x) q (write_items lib asc False ts)" using Cons.IH by blast
  have "heap_write lib asc h (max n m) x seen = Some (r, seen)" "heap_items lib asc h (max n m) False xs seen = Some (q, seen)"
    using heap_write_mono[OF x(1)] heap_items_mono[OF xs(1)] by auto
  then have "heap_items lib asc h (max n m) first (x # xs) seen
      = Some (case r of Inl e \<Rightarrow> Inl e | Inr u \<Rightarrow> map_result (\<lambda>w. (comma first @ u) @ w) q, seen)"
    by (cases r) (simp_all add: then_write_def add_text_def)
  moreover have "verdict (\<exists>x'\<in>set (x # xs). blocked h seen x')
      (case r of Inl e \<Rightarrow> Inl e | Inr u \<Rightarrow> map_result (\<lambda>w. (comma first @ u) @ w) q) (write_items lib asc first (t # ts))"
    using x(2) xs(2)
    by (cases "write_value lib asc t"; cases "write_items lib asc False ts"; cases r; cases q) (auto simp: verdict_def split: if_splits)
  ultimately show ?case by blast
qed

lemma heap_fields_judged:
  assumes "list_all2 (rel_prod (=) (judged lib asc h seen)) kvs ts"
  shows "\<exists>n r. heap_fields lib asc h n first kvs seen = Some (r, seen)
    \<and> verdict (\<exists>x\<in>snd ` set kvs. blocked h seen x) r (write_fields lib asc first ts)"
  using assms
proof (induction kvs ts arbitrary: first rule: list_all2_induct)
  case Nil
  show ?case by (auto simp: verdict_def)
next
  case (Cons kv kvs kt ts)
  obtain k x t where kv: "kv = (k, x)" "kt = (k, t)" "judged lib asc h seen x t" using Cons.hyps by (auto elim!: rel_prod.cases)
  obtain n r where x: "heap_write lib asc h n x seen = Some (r, seen)" "verdict (blocked h seen x) r (write_value lib asc t)"
    using kv(3) by (auto simp: judged_def)
  obtain m q where xs: "heap_fields lib asc h m False kvs seen = Some (q, seen)"
    "verdict (\<exists>x\<in>snd ` set kvs. blocked h seen x) q (write_fields lib asc False ts)" using Cons.IH by blast
  have "heap_write lib asc h (max n m) x seen = Some (r, seen)" "heap_fields lib asc h (max n m) False kvs seen = Some (q, seen)"
    using heap_write_mono[OF x(1)] heap_fields_mono[OF xs(1)] by auto
  then have "heap_fields lib asc h (max n m) first (kv # kvs) seen
      = Some (case write_canonical_string asc k of Inl e \<Rightarrow> Inl e
          | Inr ks \<Rightarrow> (case r of Inl e \<Rightarrow> Inl e | Inr u \<Rightarrow> map_result (\<lambda>w. (comma first @ ks @ '':'' @ u) @ w) q), seen)"
    by (cases r; cases "write_canonical_string asc k") (simp_all add: kv then_write_def add_text_def)
  moreover have "verdict (\<exists>x'\<in>snd ` set (kv # kvs). blocked h seen x')
      (case write_canonical_string asc k of Inl e \<Rightarrow> Inl e
          | Inr ks \<Rightarrow> (case r of Inl e \<Rightarrow> Inl e | Inr u \<Rightarrow> map_result (\<lambda>w. (comma first @ ks @ '':'' @ u) @ w) q))
      (write_fields lib asc first (kt # ts))"
    using x(2) xs(2)
    by (cases "write_canonical_string asc k"; cases "write_value lib asc t"; cases "write_fields lib asc False ts"; cases r; cases q)
      (auto simp: kv verdict_def split: if_splits)
  ultimately show ?case by blast
qed

text \<open>A container of members that are judged, entered or refused.\<close>

lemma in_container_judged:
  assumes "visit_of v = key" "\<And>x. holds h v x \<longleftrightarrow> x \<in> members"
    and "\<exists>n r. f n (seen \<union> set_option key) = Some (r, seen \<union> set_option key)
      \<and> verdict (\<exists>x\<in>members. blocked h (seen \<union> set_option key) x) r tree"
  shows "\<exists>n r. in_container key left (f n) right seen = Some (r, seen)
    \<and> verdict (blocked h seen v) r (map_result (\<lambda>s. left @ s @ right) tree)"
proof (cases "\<exists>k\<in>seen. key = Some k")
  case True
  then have "enterContainer seen key = Inl circular" by (auto simp: enterContainer_def)
  moreover have "blocked h seen v" using True assms(1) by (auto intro: blocked.here)
  ultimately show ?thesis by (simp add: in_container_def verdict_def)
next
  case False
  then have e: "enterContainer seen key = Inr (seen \<union> set_option key)" by (auto simp: enterContainer_def split: option.splits)
  have b: "blocked h seen v \<longleftrightarrow> (\<exists>x\<in>members. blocked h (seen \<union> set_option key) x)"
    using False assms(1,2) by (subst blocked_iff) auto
  obtain n r where r: "f n (seen \<union> set_option key) = Some (r, seen \<union> set_option key)"
    "verdict (\<exists>x\<in>members. blocked h (seen \<union> set_option key) x) r tree" using assms(3) by blast
  have "in_container key left (f n) right seen = Some (map_result (\<lambda>s. left @ s @ right) r, seen)"
    by (simp add: in_container_def e r(1) leave_enter[OF e])
  moreover have "verdict (blocked h seen v) (map_result (\<lambda>s. left @ s @ right) r) (map_result (\<lambda>s. left @ s @ right) tree)"
    using r(2) unfolding b by (cases tree) (auto simp: verdict_def split: if_splits)
  ultimately show ?thesis by blast
qed

lemma judged_step: "\<exists>n r. heap_write lib asc h (Suc n) v seen = Some (r, seen) \<and> verdict (blocked h seen v) r (write_value lib asc t)
    \<Longrightarrow> judged lib asc h seen v t"
  unfolding judged_def by blast

lemma heap_write_judged: "unfolds h v t \<Longrightarrow> judged lib asc h seen v t"
proof (induction arbitrary: seen rule: unfolds.induct)
  case (leaf g)
  have "\<not> blocked h seen (HLeaf g)" by (subst blocked_iff) (simp add: holds_simps)
  then show ?case by (intro judged_step) (simp add: verdict_def)
next
  case (slice a off k ts)
  let ?seen = "seen \<union> set_option (visit_of (HSlice a off k))"
  have "list_all2 (judged lib asc h ?seen) (slice_items h a off k) ts" by (rule list_all2_mono[OF slice.IH]) blast
  from in_container_judged[where members = "set (slice_items h a off k)" and f = "\<lambda>n. heap_items lib asc h n True (slice_items h a off k)",
      OF refl _ heap_items_judged[OF this], of "''[''" "'']''"] show ?case
    by (intro judged_step) (simp add: holds_simps)
next
  case (array xs ts)
  let ?seen = "seen \<union> set_option (visit_of (HArray xs))"
  have "list_all2 (judged lib asc h ?seen) xs ts" by (rule list_all2_mono[OF array.IH]) blast
  from in_container_judged[where members = "set xs" and f = "\<lambda>n. heap_items lib asc h n True xs",
      OF refl _ heap_items_judged[OF this], of "''[''" "'']''"] show ?case
    by (intro judged_step) (simp add: holds_simps)
next
  case (table m kvs)
  let ?seen = "seen \<union> set_option (visit_of (HMap m))" and ?fs = "sorted_fields (map_items h m)"
  have all: "list_all2 (rel_prod (=) (unfolds h)) ?fs kvs" by (rule list_all2_mono[OF table.IH]) (auto elim!: rel_prod.cases)
  have "list_all2 (rel_prod (=) (judged lib asc h ?seen)) ?fs kvs" by (rule list_all2_mono[OF table.IH]) (auto elim!: rel_prod.cases)
  from in_container_judged[where members = "snd ` set ?fs" and f = "\<lambda>n. heap_fields lib asc h n True ?fs",
      OF refl _ heap_fields_judged[OF this], of "''{''" "''}''"] unfolded_sorted[OF all] show ?case
    by (intro judged_step) (force simp: holds_simps)
next
  case (ptr p t)
  obtain n r where "heap_write lib asc h n (cell h p) seen = Some (r, seen)" "verdict (blocked h seen (cell h p)) r (write_value lib asc t)"
    using ptr.IH[of seen] by (auto simp: judged_def)
  moreover have "blocked h seen (HPtr p) \<longleftrightarrow> blocked h seen (cell h p)" by (subst blocked_iff) (simp add: holds_simps)
  ultimately show ?case by (intro judged_step exI[of _ n] exI[of _ r]) simp
qed

lemma canonicalJSON_judged:
  assumes "unfolds h v t"
  shows "\<exists>n r. (\<forall>m\<ge>n. canonicalJSON lib asc h m v = Some r) \<and> verdict (holds_own_start h v) r (write_value lib asc t)"
proof -
  obtain n r where r: "heap_write lib asc h n v {} = Some (r, {})" "verdict (blocked h {} v) r (write_value lib asc t)"
    using heap_write_judged[OF assms, of lib asc "{}"] by (auto simp: judged_def)
  have "canonicalJSON lib asc h m v = Some r" if "n \<le> m" for m using heap_write_mono[OF r(1) that] by (simp add: canonicalJSON_def)
  with r(2) show ?thesis unfolding blocked_start by blast
qed

section \<open>Pointers that lead to themselves\<close>

definition points :: "gheap \<Rightarrow> (nat \<times> nat) set" where
  "points h = {(p, q). cell h p = HPtr q}"

lemma pointer_loop_overflows:
  assumes "(p, p) \<in> (points h)\<^sup>+"
  shows "heap_write lib asc h n (HPtr p) seen = None"
  using assms
proof (induction n arbitrary: p)
  case (Suc n)
  then obtain q where q: "(p, q) \<in> points h" "(q, p) \<in> (points h)\<^sup>*" by (meson tranclD)
  then have "(q, q) \<in> (points h)\<^sup>+" by (meson rtrancl_into_trancl1)
  with Suc.IH q(1) show ?case by (simp add: points_def)
qed simp

section \<open>Properties\<close>

text \<open>C28: On every heap in which no chain of pointers and arrays alone runs forever, the writer returns,
  whatever the cycles through maps and slices and whatever containers are being written: some depth of the
  stack is enough, more changes nothing, and exactly the containers it found being written are so when it
  returns, with an error too.  A text it returns is the text of the finite tree the value unfolds to; a value
  that unfolds to no finite tree gives an error.\<close>

theorem canonical_writer_returns:
  assumes "grounded h"
  shows "\<exists>n r. (\<forall>m\<ge>n. heap_write lib asc h m v seen = Some (r, seen))
    \<and> (seen = {} \<longrightarrow> (\<forall>m\<ge>n. canonicalJSON lib asc h m v = Some r))
    \<and> (\<forall>s. r = Inr s \<longrightarrow> (\<exists>t. unfolds h v t \<and> write_value lib asc t = Inr s))
    \<and> ((\<nexists>t. unfolds h v t) \<longrightarrow> (\<exists>e. r = Inl e))"
proof -
  obtain n r s where w: "heap_write lib asc h n v seen = Some (r, s)" using heap_write_returns[OF assms heap_parts_self] by fast
  note w = w[unfolded heap_seen(1)[OF w]]
  have m: "heap_write lib asc h m v seen = Some (r, seen)" if "n \<le> m" for m by (rule heap_write_mono[OF w that])
  have "\<exists>t. unfolds h v t \<and> write_value lib asc t = Inr u" if "r = Inr u" for u
    using heap_text_unfolds(1)[OF w[unfolded that]] .
  then show ?thesis using m by (intro exI[of _ n] exI[of _ r]) (cases r; auto simp: canonicalJSON_def)
qed

definition own_heap :: gheap where
  "own_heap = \<lparr>Arrays = [], MapTables = [[(''a'', HMap 0)]], Cells = []\<rparr>"

lemma own_heap_never_unfolds: "unfolds own_heap v t \<Longrightarrow> v \<noteq> HMap 0"
proof (induction rule: unfolds.induct)
  case (table m kvs)
  show ?case
  proof
    assume "HMap m = HMap 0"
    then have "sorted_fields (map_items own_heap m) = [(''a'', HMap 0)]" by (simp add: own_heap_def map_items_def sorted_fields_def)
    with table show False by (auto simp: list_all2_Cons1 elim!: rel_prod.cases)
  qed
qed simp_all

fun bare_rank :: "hval \<Rightarrow> nat" where
  "bare_rank (HArray xs) = Suc (sum_list (map bare_rank xs))"
| "bare_rank (HPtr p) = 1"
| "bare_rank (HMap m) = 1"
| "bare_rank (HSlice a off k) = 2"
| "bare_rank (HLeaf g) = 0"

lemma bare_rank_array: "x \<in> set xs \<Longrightarrow> bare_rank x < bare_rank (HArray xs)"
  by (auto simp: less_Suc_eq_le intro: member_le_sum_list)

lemma no_cells_grounded: "Cells h = [] \<Longrightarrow> grounded h"
  by (rule grounded_rank[of bare_rank]) (auto simp: cell_def bare_rank_array simp del: bare_rank.simps(1))

abbreviation bare_lib :: golib where
  "bare_lib \<equiv> \<lparr>sha256 = (\<lambda>s. s), parse_float = (\<lambda>s. None)\<rparr>"

theorem canonical_writer_returns_witness:
  "\<exists>n e. \<forall>m\<ge>n. heap_write bare_lib False own_heap m (HMap 0) {(KindSlice, 0, 0)} = Some (Inl e, {(KindSlice, 0, 0)})"
proof -
  have "\<nexists>t. unfolds own_heap (HMap 0) t" using own_heap_never_unfolds by blast
  then show ?thesis
    using canonical_writer_returns[OF no_cells_grounded, of own_heap bare_lib False "HMap 0" "{(KindSlice, 0, 0)}"]
    by (fastforce simp: own_heap_def)
qed

text \<open>C27: A value that unfolds to a finite tree, and in which no container holds one at its own data pointer,
  is written as that tree, errors included, however its maps, slices, arrays and pointers are shared: a
  container reachable by two paths is not taken for a cycle.\<close>

theorem shared_values_written:
  assumes "unfolds h v t" "\<not> holds_own_start h v"
  shows "\<exists>n. \<forall>m\<ge>n. canonicalJSON lib asc h m v = Some (write_value lib asc t)"
  using canonicalJSON_judged[OF assms(1), of lib asc] assms(2) by (auto simp: verdict_def)

text \<open>A slice that holds one map twice.\<close>

definition twice_heap :: gheap where
  "twice_heap = \<lparr>Arrays = [[HMap 0, HMap 0]], MapTables = [[(''a'', HLeaf (VInt 1))]], Cells = []\<rparr>"

theorem shared_values_written_witness:
  "\<exists>n. \<forall>m\<ge>n. canonicalJSON bare_lib False twice_heap m (HSlice 0 0 2)
     = Some (write_value bare_lib False (VSlice [VMap [(''a'', VInt 1)], VMap [(''a'', VInt 1)]]))"
proof (rule shared_values_written)
  have m: "unfolds twice_heap (HMap 0) (VMap [(''a'', VInt 1)])"
    by (rule unfolds.table) (simp add: twice_heap_def map_items_def sorted_fields_def unfolds.leaf)
  show "unfolds twice_heap (HSlice 0 0 2) (VSlice [VMap [(''a'', VInt 1)], VMap [(''a'', VInt 1)]])"
    by (rule unfolds.slice) (use m in \<open>simp add: twice_heap_def slice_items_def numeral_2_eq_2\<close>)
  show "\<not> holds_own_start twice_heap (HSlice 0 0 2)"
  proof (rule no_own_start[of _ bare_rank])
    fix x y
    assume "holds twice_heap x y"
    then show "bare_rank y < bare_rank x"
    proof cases
      case (slice a off k)
      then have "y = HMap 0" by (auto simp: twice_heap_def slice_items_def split: if_splits dest!: in_set_takeD in_set_dropD)
      with slice show ?thesis by simp
    next
      case (table key m)
      then have "y = HLeaf (VInt 1)" by (auto simp: twice_heap_def map_items_def sorted_fields_def split: if_splits)
      with table show ?thesis by simp
    qed (auto simp: bare_rank_array twice_heap_def cell_def simp del: bare_rank.simps(1))
  next
    fix x y key
    assume "visit_of x = Some key" "visit_of y = Some key"
    then show "bare_rank x = bare_rank y" by (cases x; cases y) auto
  qed
qed

text \<open>C39: The check misjudges two kinds of values.  Every finite value with a text in which a container holds,
  at any depth, another one at the same data pointer (a shorter slice of the same array from the same
  start) is refused as circular, because \<open>canonicalVisit\<close> leaves the length out; and every pointer that
  leads back to itself through pointers alone is followed without end, so that no stack is deep enough.\<close>

theorem cycle_check_misjudges:
  "(unfolds h v t \<and> write_value lib asc t = Inr s \<and> holds_own_start h v
      \<longrightarrow> (\<exists>n. \<forall>m\<ge>n. canonicalJSON lib asc h m v = Some (Inl circular)))
   \<and> ((p, p) \<in> (points h)\<^sup>+ \<longrightarrow> canonicalJSON lib asc h k (HPtr p) = None)"
  using canonicalJSON_judged[of h v t lib asc] pointer_loop_overflows[of p h lib asc k "{}"]
  by (auto simp: verdict_def canonicalJSON_def)

text \<open>The slice \<open>s = {5, s[:1]}\<close>, and a pointer to itself.\<close>

definition prefix_heap :: gheap where
  "prefix_heap = \<lparr>Arrays = [[HLeaf (VInt 5), HSlice 0 0 1]], MapTables = [], Cells = []\<rparr>"

definition loop_heap :: gheap where
  "loop_heap = \<lparr>Arrays = [], MapTables = [], Cells = [HPtr 0]\<rparr>"

theorem cycle_check_misjudges_witness:
  "unfolds prefix_heap (HSlice 0 0 2) (VSlice [VInt 5, VSlice [VInt 5]])
   \<and> write_value bare_lib False (VSlice [VInt 5, VSlice [VInt 5]]) = Inr ''[5,[5]]''
   \<and> (\<exists>n. \<forall>m\<ge>n. canonicalJSON bare_lib False prefix_heap m (HSlice 0 0 2) = Some (Inl circular))
   \<and> canonicalJSON bare_lib False loop_heap 1000 (HPtr 0) = None"
proof -
  have "unfolds prefix_heap (HSlice 0 0 1) (VSlice [VInt 5])"
    by (rule unfolds.slice) (simp add: prefix_heap_def slice_items_def unfolds.leaf)
  then have u: "unfolds prefix_heap (HSlice 0 0 2) (VSlice [VInt 5, VSlice [VInt 5]])"
    by (intro unfolds.slice) (simp add: prefix_heap_def slice_items_def numeral_2_eq_2 unfolds.leaf)
  have w: "write_value bare_lib False (VSlice [VInt 5, VSlice [VInt 5]]) = Inr ''[5,[5]]''"
    using chr_byte[of "CHR ''5''"] by (simp add: comma_def itoa_def dec_of_nat.simps dec_digit_def byte_def)
  have "holds prefix_heap (HSlice 0 0 2) (HSlice 0 0 1)" by (rule holds.slice) (simp add: prefix_heap_def slice_items_def numeral_2_eq_2)
  then have "holds_own_start prefix_heap (HSlice 0 0 2)"
    unfolding holds_own_start_def by (intro exI[of _ "HSlice 0 0 2"] exI[of _ "HSlice 0 0 1"]) auto
  moreover have "(0, 0) \<in> (points loop_heap)\<^sup>+" by (rule r_into_trancl) (simp add: points_def loop_heap_def cell_def)
  ultimately show ?thesis
    using cycle_check_misjudges[of prefix_heap "HSlice 0 0 2" _ bare_lib False]
      cycle_check_misjudges[of loop_heap _ _ bare_lib False _ 0 1000] u w by blast
qed

end
