(* ===== verification/Event_Slices.thy ===== *)
theory Event_Slices
  imports Store_Append
begin

text \<open>
  The slices of \<open>publishAppendEvents\<close> (\<open>store_append.go\<close>).  The causal parents of an event are
  \<open>append(group.CausalParents, draft.CausedByFactIDs...)\<close>, and a Go \<open>append\<close> writes into the backing array
  of its first argument as long as that has room.  Here slices are headers over arrays on a heap, the
  loop threads the heap, and the lists of the model are what the headers read in the end.
\<close>

section \<open>Slices over arrays\<close>

record gslice =
  Base :: nat
  Offset :: nat
  Len :: nat
  Cap :: nat

type_synonym arrays = "string list list"

definition read_slice :: "arrays \<Rightarrow> gslice \<Rightarrow> string list" where
  "read_slice h s = take (Len s) (drop (Offset s) (h ! Base s))"

definition slice_ok :: "arrays \<Rightarrow> gslice \<Rightarrow> bool" where
  "slice_ok h s \<longleftrightarrow> Base s < length h \<and> Len s \<le> Cap s \<and> Offset s + Cap s \<le> length (h ! Base s)"

text \<open>The nil slice has no header.\<close>

definition slice_of :: "arrays \<Rightarrow> gslice option \<Rightarrow> string slice" where
  "slice_of h s = map_option (read_slice h) s"

definition some_ok :: "arrays \<Rightarrow> gslice option \<Rightarrow> bool" where
  "some_ok h s \<longleftrightarrow> (\<forall>x. s = Some x \<longrightarrow> slice_ok h x)"

definition full :: "gslice option \<Rightarrow> bool" where
  "full s \<longleftrightarrow> (\<forall>x. s = Some x \<longrightarrow> Len x = Cap x)"

text \<open>\<open>append(s, xs...)\<close>; how much room a new array gets is the runtime's choice.\<close>

definition fresh_array :: "(nat \<Rightarrow> nat) \<Rightarrow> arrays \<Rightarrow> string list \<Rightarrow> gslice option \<times> arrays" where
  "fresh_array grow h xs =
    (let n = length xs; cap = max n (grow n) in
     (Some \<lparr>Base = length h, Offset = 0, Len = n, Cap = cap\<rparr>, h @ [xs @ replicate (cap - n) []]))"

definition go_append :: "(nat \<Rightarrow> nat) \<Rightarrow> arrays \<Rightarrow> gslice option \<Rightarrow> string list \<Rightarrow> gslice option \<times> arrays" where
  "go_append grow h s xs =
    (if xs = [] then (s, h)
     else (case s of
       None \<Rightarrow> fresh_array grow h xs
     | Some x \<Rightarrow>
        if Len x + length xs \<le> Cap x
        then (let start = Offset x + Len x; arr = h ! Base x in
          (Some (x\<lparr>Len := Len x + length xs\<rparr>),
           h[Base x := take start arr @ xs @ drop (start + length xs) arr]))
        else fresh_array grow h (read_slice h x @ xs)))"

section \<open>The loop over the drafts\<close>

text \<open>One header for the parents of the group and one for the causes of the draft, for every event.\<close>

fun announce :: "(nat \<Rightarrow> nat) \<Rightarrow> (gslice option \<times> gslice option) list \<Rightarrow> arrays \<Rightarrow> gslice option list \<times> arrays" where
  "announce grow [] h = ([], h)"
| "announce grow ((g, c) # gcs) h =
    (let (p, h') = go_append grow h g (elems (slice_of h c)); (ps, h'') = announce grow gcs h'
     in (p # ps, h''))"

text \<open>The headers a batch is held in.\<close>

definition holds_batch :: "arrays \<Rightarrow> AppendBatch \<Rightarrow> (gslice option \<times> gslice option) list \<Rightarrow> bool" where
  "holds_batch h batch gcs \<longleftrightarrow>
    list_all2 (\<lambda>(g, draft) (gs, cs). CausalParents g = slice_of h gs \<and> CausedByFactIDs draft = slice_of h cs)
      (batch_drafts batch) gcs"

section \<open>Without spare room nothing is overwritten\<close>

lemma slice_of_append:
  assumes "some_ok h s"
  shows "slice_of (h @ k) s = slice_of h s" "some_ok (h @ k) s"
  using assms by (cases s; simp add: some_ok_def slice_of_def slice_ok_def read_slice_def nth_append)+

lemma fresh_array_reads:
  assumes "fresh_array grow h xs = (p, h')"
  shows "slice_of h' p = Some xs" "some_ok h' p" "\<exists>k. h' = h @ k"
  using assms by (auto simp: fresh_array_def Let_def slice_of_def some_ok_def slice_ok_def read_slice_def)

lemma go_append_full:
  assumes "go_append grow h s xs = (p, h')" "some_ok h s" "full s"
  shows "slice_of h' p = (if xs = [] then slice_of h s else Some (elems (slice_of h s) @ xs))" "some_ok h' p" "\<exists>k. h' = h @ k"
proof -
  have "slice_of h' p = (if xs = [] then slice_of h s else Some (elems (slice_of h s) @ xs)) \<and> some_ok h' p \<and> (\<exists>k. h' = h @ k)"
  proof (cases "xs = []")
    case True
    with assms show ?thesis by (simp add: go_append_def)
  next
    case ne: False
    show ?thesis
    proof (cases s)
      case None
      with assms(1) ne have "fresh_array grow h xs = (p, h')" by (simp add: go_append_def)
      from fresh_array_reads[OF this] ne None show ?thesis by (simp add: slice_of_def)
    next
      case (Some x)
      with assms(3) ne have "\<not> Len x + length xs \<le> Cap x" by (simp add: full_def)
      with assms(1) ne Some have "fresh_array grow h (read_slice h x @ xs) = (p, h')" by (simp add: go_append_def)
      from fresh_array_reads[OF this] ne Some show ?thesis by (simp add: slice_of_def)
    qed
  qed
  then show "slice_of h' p = (if xs = [] then slice_of h s else Some (elems (slice_of h s) @ xs))" "some_ok h' p" "\<exists>k. h' = h @ k"
    by blast+
qed

lemma announce_full:
  assumes "announce grow gcs h = (ps, h')" "\<forall>(g, c)\<in>set gcs. some_ok h g \<and> full g \<and> some_ok h c"
  shows "map (slice_of h') ps = map (\<lambda>(g, c). append_slice (slice_of h g) (slice_of h c)) gcs \<and> (\<exists>k. h' = h @ k)
    \<and> (\<forall>p\<in>set ps. some_ok h' p)"
  using assms
proof (induction gcs arbitrary: h ps)
  case (Cons gc gcs)
  obtain g c where gc: "gc = (g, c)" by fastforce
  obtain p h1 where a: "go_append grow h g (elems (slice_of h c)) = (p, h1)" by fastforce
  obtain ps' where b: "announce grow gcs h1 = (ps', h')" "ps = p # ps'"
    using Cons.prems(1) by (auto simp: gc a split: prod.splits)
  have ok: "some_ok h g" "full g" "some_ok h c" using Cons.prems(2) by (auto simp: gc)
  note r = go_append_full[OF a ok(1,2)]
  obtain k where k: "h1 = h @ k" using r(3) by blast
  have rest: "\<forall>(g, c)\<in>set gcs. some_ok h1 g \<and> full g \<and> some_ok h1 c" using Cons.prems(2) by (auto simp: k slice_of_append)
  note ih = Cons.IH[OF b(1) rest]
  then obtain k' where k': "h' = h1 @ k'" by blast
  have "slice_of h' p = append_slice (slice_of h g) (slice_of h c)"
    using r(1) slice_of_append(1)[OF r(2), of k'] by (simp add: k' append_slice_def)
  moreover have "map (\<lambda>(g, c). append_slice (slice_of h1 g) (slice_of h1 c)) gcs = map (\<lambda>(g, c). append_slice (slice_of h g) (slice_of h c)) gcs"
    using Cons.prems(2) by (auto simp: k slice_of_append)
  moreover have "some_ok h' p" using slice_of_append(2)[OF r(2)] by (simp add: k')
  ultimately show ?case using ih by (auto simp: b gc k k')
qed simp

lemma append_events_parents:
  "map EventCausalParents (append_events batch r now)
   = take (length (FactIDs r)) (map (\<lambda>(g, draft). append_slice (CausalParents g) (CausedByFactIDs draft)) (batch_drafts batch))"
  by (rule nth_equalityI) (simp_all add: append_events_def event_of_def case_prod_beta min.commute)

section \<open>With spare room the drafts share an array\<close>

text \<open>An append within the room of \<open>x\<close> writes behind its elements and leaves the other arrays alone.\<close>

abbreviation behind :: "gslice \<Rightarrow> nat" where
  "behind x \<equiv> Offset x + Len x"

definition put_behind :: "arrays \<Rightarrow> gslice \<Rightarrow> string list \<Rightarrow> arrays" where
  "put_behind h x rest = h[Base x := take (behind x) (h ! Base x) @ rest]"

lemma put_behind_ok:
  assumes "slice_ok h x" "length rest = length (h ! Base x) - behind x"
  shows "slice_ok (put_behind h x rest) x" "length (put_behind h x rest ! Base x) = length (h ! Base x)"
    "put_behind (put_behind h x rest) x rest' = put_behind h x rest'"
    "Base c \<noteq> Base x \<Longrightarrow> slice_ok h c \<Longrightarrow> slice_ok (put_behind h x rest) c \<and> read_slice (put_behind h x rest) c = read_slice h c"
    "read_slice (put_behind h x rest) (x\<lparr>Len := Len x + n\<rparr>) = read_slice h x @ take n rest"
  using assms by (auto simp: put_behind_def slice_ok_def read_slice_def min_def take_drop add.commute)

lemma go_append_spare:
  assumes "slice_ok h x" "xs \<noteq> []" "Len x + length xs \<le> Cap x"
  shows "go_append grow h (Some x) xs = (Some (x\<lparr>Len := Len x + length xs\<rparr>), put_behind h x (xs @ drop (behind x + length xs) (h ! Base x)))"
  using assms by (simp add: go_append_def put_behind_def Let_def add.assoc)

lemma read_slice_length: "slice_ok h c \<Longrightarrow> length (read_slice h c) = Len c"
  by (auto simp: slice_ok_def read_slice_def min_def)

text \<open>A list of causes that fits behind \<open>x\<close> and lives elsewhere.\<close>

definition fits_behind :: "arrays \<Rightarrow> gslice \<Rightarrow> gslice \<Rightarrow> bool" where
  "fits_behind h x c \<longleftrightarrow> slice_ok h c \<and> Base c \<noteq> Base x \<and> 0 < Len c \<and> Len x + Len c \<le> Cap x"

lemma announce_spare:
  assumes "announce grow (map (\<lambda>c. (Some x, Some c)) cs) h = (ps, h')" "slice_ok h x" "\<forall>c\<in>set cs. fits_behind h x c" "cs \<noteq> []"
  shows "ps = map (\<lambda>c. Some (x\<lparr>Len := Len x + Len c\<rparr>)) cs \<and> (\<exists>rest. length rest = length (h ! Base x) - behind x
    \<and> h' = put_behind h x rest \<and> take (Len (last cs)) rest = read_slice h (last cs))"
  using assms
proof (induction cs arbitrary: h ps)
  case (Cons c cs)
  let ?xs = "read_slice h c" and ?rest = "read_slice h c @ drop (behind x + Len c) (h ! Base x)"
  have c: "slice_ok h c" "Base c \<noteq> Base x" "0 < Len c" "Len x + Len c \<le> Cap x" using Cons.prems(3) by (simp_all add: fits_behind_def)
  have len: "length ?xs = Len c" by (rule read_slice_length[OF c(1)])
  then have ne: "?xs \<noteq> []" using c(3) by auto
  have l: "length ?rest = length (h ! Base x) - behind x"
    using Cons.prems(2) c(4) by (simp add: len slice_ok_def)
  have ap: "go_append grow h (Some x) (elems (slice_of h (Some c))) = (Some (x\<lparr>Len := Len x + Len c\<rparr>), put_behind h x ?rest)"
    using go_append_spare[OF Cons.prems(2) ne] c(4) by (simp add: slice_of_def len)
  note p = put_behind_ok[OF Cons.prems(2) l]
  obtain ps' where b: "announce grow (map (\<lambda>c. (Some x, Some c)) cs) (put_behind h x ?rest) = (ps', h')"
    "ps = Some (x\<lparr>Len := Len x + Len c\<rparr>) # ps'"
    using Cons.prems(1) unfolding list.map announce.simps ap by (auto split: prod.splits)
  show ?case
  proof (cases "cs = []")
    case True
    with b have "ps = [Some (x\<lparr>Len := Len x + Len c\<rparr>)]" "h' = put_behind h x ?rest" by simp_all
    with True l len show ?thesis by (intro conjI exI[of _ ?rest]) simp_all
  next
    case False
    have "\<forall>c\<in>set cs. fits_behind (put_behind h x ?rest) x c" using Cons.prems(3) p(4) by (auto simp: fits_behind_def)
    from Cons.IH[OF b(1) p(1) this False] obtain rest where r: "ps' = map (\<lambda>c. Some (x\<lparr>Len := Len x + Len c\<rparr>)) cs"
      "length rest = length (h ! Base x) - behind x" "h' = put_behind h x rest"
      "take (Len (last cs)) rest = read_slice (put_behind h x ?rest) (last cs)" by (auto simp: p(2,3))
    have "fits_behind h x (last cs)" using Cons.prems(3) False by simp
    then have "read_slice (put_behind h x ?rest) (last cs) = read_slice h (last cs)" using p(4) by (simp add: fits_behind_def)
    with r b(2) False show ?thesis by auto
  qed
qed simp

section \<open>Properties\<close>

text \<open>C30: The events of a batch carry the parents the functional model gives them (those of the group, then
  the causes of the draft, nil only when the group's are nil and there are no causes), read after the whole loop has run, if no
  group's slice of parents has room beyond its length.\<close>

theorem announced_parents_agree:
  assumes "holds_batch h batch gcs" "\<forall>(g, c)\<in>set gcs. some_ok h g \<and> full g \<and> some_ok h c"
    and "announce grow (take (length (FactIDs r)) gcs) h = (ps, h')"
  shows "map (slice_of h') ps = map EventCausalParents (append_events batch r now)"
proof -
  let ?n = "length (FactIDs r)"
  have "\<forall>(g, c)\<in>set (take ?n gcs). some_ok h g \<and> full g \<and> some_ok h c" using assms(2) by (auto dest: in_set_takeD)
  from announce_full[OF assms(3) this]
  have "map (slice_of h') ps = map (\<lambda>(g, c). append_slice (slice_of h g) (slice_of h c)) (take ?n gcs)" by blast
  also have "\<dots> = take ?n (map (\<lambda>(g, draft). append_slice (CausalParents g) (CausedByFactIDs draft)) (batch_drafts batch))"
  proof -
    have "map (\<lambda>(g, c). append_slice (slice_of h g) (slice_of h c)) gcs
        = map (\<lambda>(g, draft). append_slice (CausalParents g) (CausedByFactIDs draft)) (batch_drafts batch)"
      using assms(1) unfolding holds_batch_def by (induction rule: list_all2_induct) auto
    from arg_cong[OF this, of "take ?n"] show ?thesis by (simp only: take_map)
  qed
  finally show ?thesis by (simp only: append_events_parents)
qed

text \<open>Two drafts under a group whose slice of parents has no spare room, and the same with room for one more.\<close>

definition note_group :: "string slice \<Rightarrow> RecordDraft list \<Rightarrow> AppendGroup" where
  "note_group parents drafts = \<lparr>TraceOwnerID = ''o'', GroupContext = None, CausalParents = parents, FactDrafts = Some drafts\<rparr>"

definition note_draft :: "string \<Rightarrow> RecordDraft" where
  "note_draft cause = \<lparr>DraftMode = Declaration, DraftSchemaRef = ''note.v1'', DraftPayload = None, DraftKindLabel = [],
     AppendLocalID = [], CausedByFactIDs = Some [cause], CausedByLocalRefs = None\<rparr>"

definition note_batch :: AppendBatch where
  "note_batch = \<lparr>AppendIntentID = ''i'', Groups = Some [note_group (Some [''p'']) [note_draft ''a'', note_draft ''b'']]\<rparr>"

definition note_receipt :: AppendReceipt where
  "note_receipt = \<lparr>ReceiptIntentID = ''i'', FactIDs = [''1'', ''2''], CommitReceipts = [], OwnerRanges = [], CausalEdges = [],
     ContextReceipts = []\<rparr>"

definition note_slices :: "nat \<Rightarrow> (gslice option \<times> gslice option) list" where
  "note_slices cap = map (\<lambda>b. (Some \<lparr>Base = 0, Offset = 0, Len = 1, Cap = cap\<rparr>, Some \<lparr>Base = b, Offset = 0, Len = 1, Cap = 1\<rparr>)) [1, 2]"

definition note_arrays :: arrays where
  "note_arrays = [[''p'', []], [''a''], [''b'']]"

lemmas note_defs = note_group_def note_draft_def note_batch_def note_receipt_def note_slices_def note_arrays_def

lemma note_held: "holds_batch note_arrays note_batch (note_slices cap)"
  by (simp add: holds_batch_def batch_drafts_def note_defs slice_of_def read_slice_def)

lemma note_events: "map EventCausalParents (append_events note_batch note_receipt now) = [Some [''p'', ''a''], Some [''p'', ''b'']]"
  by (simp add: append_events_def event_of_def batch_drafts_def note_defs append_slice_def)

theorem announced_parents_agree_witness:
  "\<exists>ps h'. announce id (note_slices 1) note_arrays = (ps, h') \<and> map (slice_of h') ps = [Some [''p'', ''a''], Some [''p'', ''b'']]"
proof -
  obtain ps h' where a: "announce id (take (length (FactIDs note_receipt)) (note_slices 1)) note_arrays = (ps, h')" by fastforce
  have "\<forall>(g, c)\<in>set (note_slices 1). some_ok note_arrays g \<and> full g \<and> some_ok note_arrays c"
    by (simp add: note_defs some_ok_def full_def slice_ok_def)
  from announced_parents_agree[OF note_held this a] a show ?thesis by (simp add: note_events) (simp add: note_receipt_def note_slices_def)
qed

text \<open>C38: When the parents of the groups of a batch are held in one slice with room behind it for the causes of
  each draft, the events share one backing array: read after the loop, every event has its own number of
  causes but, as far as those of the last draft reach, they are the causes of the last draft, where
  the functional model has each draft's own.  In particular, drafts with as many causes as the last one
  are all announced with the last one's parents.\<close>

theorem spare_room_overwrites_parents:
  assumes "slice_ok h x" "cs \<noteq> []" "\<forall>c\<in>set cs. fits_behind h x c"
    and "holds_batch h batch (map (\<lambda>c. (Some x, Some c)) cs)" "length (FactIDs r) = length cs"
    and "announce grow (map (\<lambda>c. (Some x, Some c)) cs) h = (ps, h')"
  shows "map EventCausalParents (append_events batch r now) = map (\<lambda>c. Some (read_slice h x @ read_slice h c)) cs
    \<and> length ps = length cs
    \<and> (\<forall>i<length cs. \<exists>causes. slice_of h' (ps ! i) = Some (read_slice h x @ causes) \<and> length causes = Len (cs ! i)
         \<and> take (Len (last cs)) causes = take (Len (cs ! i)) (read_slice h (last cs)))
    \<and> (\<forall>i<length cs. Len (cs ! i) = Len (last cs) \<longrightarrow> slice_of h' (ps ! i) = Some (read_slice h x @ read_slice h (last cs)))"
proof -
  from announce_spare[OF assms(6,1,3,2)] obtain rest where r: "ps = map (\<lambda>c. Some (x\<lparr>Len := Len x + Len c\<rparr>)) cs"
    "length rest = length (h ! Base x) - behind x" "h' = put_behind h x rest" "take (Len (last cs)) rest = read_slice h (last cs)" by blast
  have read: "slice_of h' (ps ! i) = Some (read_slice h x @ take (Len (cs ! i)) rest)" if "i < length cs" for i
    using that put_behind_ok(5)[OF assms(1) r(2)] by (simp add: r(1,3) slice_of_def)
  have len: "length (take (Len (cs ! i)) rest) = Len (cs ! i)" if "i < length cs" for i
  proof -
    have "fits_behind h x (cs ! i)" using that assms(3) by simp
    then show ?thesis using assms(1) by (auto simp: fits_behind_def slice_ok_def r(2) min_def)
  qed
  have own: "map (\<lambda>(g, draft). append_slice (CausalParents g) (CausedByFactIDs draft)) (batch_drafts batch)
      = map (\<lambda>c. Some (read_slice h x @ read_slice h c)) cs"
  proof -
    have "list_all2 (\<lambda>gd c. append_slice (CausalParents (fst gd)) (CausedByFactIDs (snd gd)) = Some (read_slice h x @ read_slice h c))
        (batch_drafts batch) cs"
      using assms(4) unfolding holds_batch_def list.rel_map
    proof (rule list.rel_mono_strong)
      fix gd c
      assume "c \<in> set cs" and held: "(case gd of (g, draft) \<Rightarrow> \<lambda>(gs, cs). CausalParents g = slice_of h gs \<and> CausedByFactIDs draft = slice_of h cs) (Some x, Some c)"
      then have "fits_behind h x c" using assms(3) by blast
      then have "read_slice h c \<noteq> []" using read_slice_length[of h c] by (auto simp: fits_behind_def)
      with held show "append_slice (CausalParents (fst gd)) (CausedByFactIDs (snd gd)) = Some (read_slice h x @ read_slice h c)"
        by (cases gd) (simp add: slice_of_def append_slice_def)
    qed
    then show ?thesis by (induction rule: list_all2_induct) auto
  qed
  then have "map EventCausalParents (append_events batch r now) = map (\<lambda>c. Some (read_slice h x @ read_slice h c)) cs"
    using assms(5) by (simp add: append_events_parents)
  moreover have "take (Len (last cs)) (take n rest) = take n (read_slice h (last cs))" for n
    by (simp add: r(4)[symmetric] min.commute)
  moreover have "length ps = length cs" by (simp add: r(1))
  ultimately show ?thesis using read len r(4) by (intro conjI allI impI) auto
qed

theorem spare_room_overwrites_parents_witness:
  "\<exists>ps h'. announce id (note_slices 2) note_arrays = (ps, h')
   \<and> map EventCausalParents (append_events note_batch note_receipt 0) = [Some [''p'', ''a''], Some [''p'', ''b'']]
   \<and> slice_of h' (ps ! 0) = Some [''p'', ''b''] \<and> slice_of h' (ps ! 1) = Some [''p'', ''b'']"
proof -
  let ?x = "\<lparr>Base = 0, Offset = 0, Len = 1, Cap = 2\<rparr>" and ?cs = "map (\<lambda>b. \<lparr>Base = b, Offset = 0, Len = 1, Cap = 1\<rparr>) [1, 2]"
  have s: "note_slices 2 = map (\<lambda>c. (Some ?x, Some c)) ?cs" by (simp add: note_slices_def)
  obtain ps h' where a: "announce id (note_slices 2) note_arrays = (ps, h')" by fastforce
  have x: "slice_ok note_arrays ?x" and c: "\<forall>c\<in>set ?cs. fits_behind note_arrays ?x c" and l: "length (FactIDs note_receipt) = length ?cs"
    by (simp_all add: note_arrays_def slice_ok_def fits_behind_def note_receipt_def)
  from spare_room_overwrites_parents[OF x _ c note_held[of 2, unfolded s] l a[unfolded s], of 0] a show ?thesis
    by (auto simp: read_slice_def note_arrays_def)
qed

end
