(* ===== verification/Viewer_Stream.thy ===== *)
theory Viewer_Stream
  imports Trace_Viewer Store_Properties "HOL-Library.Sublist"
begin

text \<open>
  A live stream of the viewer beside the store it watches (\<open>handleEvents\<close> of \<open>traceui/events.go\<close>, with
  \<open>Append\<close> and \<open>PublishFrontier\<close> of the store and the other subscribers of the bus).  The service is
  embedded in the writer, so its bus is the bus of the store: one state holds both, a step is one operation of
  either side, and the stream is what its select has met so far.
\<close>

section \<open>The embedded service\<close>

definition embedded :: "store \<Rightarrow> string slice \<Rightarrow> ui_service" where
  "embedded s origins = \<lparr>SvcStore = s, SvcBus = Bus s, SvcOrigins = origins\<rparr>"

record live =
  LiveStore :: store
  Inputs :: "stream_input list"        \<comment> \<open>what the select of the stream has met\<close>
  Announced :: "EffectEvent list"      \<comment> \<open>the events published since the stream subscribed\<close>

text \<open>The stream is subscribed as \<open>i\<close> and reads the channel \<open>a\<close>.\<close>

inductive live_step :: "golib \<Rightarrow> string \<Rightarrow> nat \<Rightarrow> live \<Rightarrow> live \<Rightarrow> bool" for lib i a where
  append: "Append lib env auth batch (LiveStore l) = (Inr r, s') \<Longrightarrow> find_intent (Db (LiveStore l)) (AppendIntentID batch) = None
    \<Longrightarrow> no_witness_owner batch
    \<Longrightarrow> live_step lib i a l (l\<lparr>LiveStore := s', Announced := Announced l @ append_events batch r (clock env)\<rparr>)"
| old_append: "Append lib env auth batch (LiveStore l) = (res, s')
    \<Longrightarrow> isl res \<or> find_intent (Db (LiveStore l)) (AppendIntentID batch) \<noteq> None \<Longrightarrow> live_step lib i a l (l\<lparr>LiveStore := s'\<rparr>)"
| cut: "PublishFrontier lib env auth spec (LiveStore l) = (out, s') \<Longrightarrow> frontier_publisher spec \<noteq> witnessTraceOwnerID
    \<Longrightarrow> live_step lib i a l (l\<lparr>LiveStore := s'\<rparr>)"
| side: "store_step lib (LiveStore l) s' \<Longrightarrow> PathEntries (Db s') = PathEntries (Db (LiveStore l)) \<Longrightarrow> Bus s' = Bus (LiveStore l)
    \<Longrightarrow> live_step lib i a l (l\<lparr>LiveStore := s'\<rparr>)"
| tick: "live_step lib i a l (l\<lparr>Inputs := Inputs l @ [Tick]\<rparr>)"
| event: "Bus (LiveStore l) = Some b \<Longrightarrow> Receive a b = (Some e, b')
    \<Longrightarrow> live_step lib i a l (l\<lparr>LiveStore := WithBus b' (LiveStore l), Inputs := Inputs l @ [ChannelEvent e]\<rparr>)"
| other_event: "Bus (LiveStore l) = Some b \<Longrightarrow> Receive c b = (e, b') \<Longrightarrow> c \<noteq> a
    \<Longrightarrow> live_step lib i a l (l\<lparr>LiveStore := WithBus b' (LiveStore l)\<rparr>)"
| other_joins: "Bus (LiveStore l) = Some b \<Longrightarrow> Subscribe j b = Inr (c, b') \<Longrightarrow> j \<noteq> i
    \<Longrightarrow> live_step lib i a l (l\<lparr>LiveStore := WithBus b' (LiveStore l)\<rparr>)"
| other_leaves: "Bus (LiveStore l) = Some b \<Longrightarrow> Unsubscribe j b = Inr b' \<Longrightarrow> j \<noteq> i
    \<Longrightarrow> live_step lib i a l (l\<lparr>LiveStore := WithBus b' (LiveStore l)\<rparr>)"

definition received :: "stream_input list \<Rightarrow> EffectEvent list" where
  "received ins = List.map_filter (\<lambda>x. case x of ChannelEvent e \<Rightarrow> Some e | _ \<Rightarrow> None) ins"

lemma received_snoc [simp]:
  "received (ins @ [Tick]) = received ins" "received (ins @ [ChannelEvent e]) = received ins @ [e]" "received [] = []"
  by (simp_all add: received_def List.map_filter_def)

section \<open>The channel of one subscriber\<close>

text \<open>What the steps of others leave alone: the subscription and the contents of its channel.\<close>

definition same_channel :: "string \<Rightarrow> nat \<Rightarrow> bus \<Rightarrow> bus \<Rightarrow> bool" where
  "same_channel i a b b' \<longleftrightarrow> bus_ok b' \<and> (i, a) \<in> set (Subscribers b') \<and> BufferSize b' = BufferSize b
    \<and> Buffer (Heap b' a) = Buffer (Heap b a)"

lemma subscribed:
  assumes "bus_ok b" "(i, a) \<in> set (Subscribers b)"
  shows "\<not> BusClosed b" "a < NextChannel b" "0 < nat (BufferSize b)" "length (Buffer (Heap b a)) \<le> nat (BufferSize b)"
  using assms by (auto simp: bus_ok_def channel_ok_def)

lemma Receive_ok:
  assumes "bus_ok b" "Receive c b = (e, b')"
  shows "bus_ok b'" "Subscribers b' = Subscribers b" "BufferSize b' = BufferSize b" "\<And>d. d \<noteq> c \<Longrightarrow> Heap b' d = Heap b d"
    "\<And>x. e = Some x \<Longrightarrow> Buffer (Heap b c) = x # Buffer (Heap b' c)"
proof -
  have b': "b' = b\<lparr>Heap := (Heap b)(c := snd (receive (Heap b c)))\<rparr>" "e = fst (receive (Heap b c))"
    using assms(2) by (auto simp: Receive_def split: prod.splits)
  have ch: "Capacity (snd (receive ch)) = Capacity ch \<and> Closed (snd (receive ch)) = Closed ch \<and> (channel_ok ch \<longrightarrow> channel_ok (snd (receive ch)))"
    for ch :: "EffectEvent channel" by (auto simp: receive_def channel_ok_def split: list.splits)
  show "bus_ok b'" using assms(1) ch by (auto simp: b' bus_ok_def)
  show "Subscribers b' = Subscribers b" "BufferSize b' = BufferSize b" "\<And>d. d \<noteq> c \<Longrightarrow> Heap b' d = Heap b d" by (simp_all add: b')
  show "Buffer (Heap b c) = x # Buffer (Heap b' c)" if "e = Some x" for x
    using that by (auto simp: b' receive_def split: list.splits)
qed

lemma Subscribe_other:
  assumes "bus_ok b" "(i, a) \<in> set (Subscribers b)" "Subscribe j b = Inr (c, b')" "j \<noteq> i"
  shows "same_channel i a b b'"
proof -
  have ok: "bus_ok b'" using Subscribe_ok[OF assms(1), of j] assms(3) by auto
  have old: "c \<noteq> a" if "map_of (Subscribers b) j = Some c" for c
    using that assms(2,4) distinct_snd[of "Subscribers b" j a i] assms(1) by (auto simp: bus_ok_def dest!: map_of_SomeD)
  obtain h where h: "(case map_of (Subscribers b) j of None \<Rightarrow> Inr (Heap b) | Some old \<Rightarrow> close_at old (Heap b)) = Inr h"
    "b' = b\<lparr>Heap := h(NextChannel b := make_channel (nat (BufferSize b))), NextChannel := NextChannel b + 1,
              Subscribers := map_delete j (Subscribers b) @ [(j, NextChannel b)]\<rparr>"
    using assms(3) subscribed(1)[OF assms(1,2)] by (auto simp: Subscribe_def Let_def bindR_eq_Inr)
  have "h a = Heap b a" using h(1) old by (auto simp: close_at_def split: option.splits if_splits)
  then show ?thesis
    using ok subscribed(2)[OF assms(1,2)] assms(2,4) by (auto simp: same_channel_def h(2) map_delete_set)
qed

lemma Unsubscribe_other:
  assumes "bus_ok b" "(i, a) \<in> set (Subscribers b)" "Unsubscribe j b = Inr b'" "j \<noteq> i"
  shows "same_channel i a b b'"
proof -
  have ok: "bus_ok b'" using Unsubscribe_ok[OF assms(1), of j] assms(3) by auto
  have old: "c \<noteq> a" if "map_of (Subscribers b) j = Some c" for c
    using that assms(2,4) distinct_snd[of "Subscribers b" j a i] assms(1) by (auto simp: bus_ok_def dest!: map_of_SomeD)
  show ?thesis
  proof (cases "map_of (Subscribers b) j")
    case None
    with assms(3) have "b' = b" by (simp add: Unsubscribe_def)
    with assms(1,2) show ?thesis by (simp add: same_channel_def)
  next
    case (Some c)
    with assms(3) have "b' = b\<lparr>Heap := (Heap b)(c := close_channel (Heap b c)), Subscribers := map_delete j (Subscribers b)\<rparr>"
      by (auto simp: Unsubscribe_def close_at_def bindR_eq_Inr split: if_splits)
    with ok old[OF Some] assms(2,4) show ?thesis by (auto simp: same_channel_def map_delete_set)
  qed
qed

section \<open>Appends\<close>

lemma Append_announces:
  assumes "Append lib env auth batch s = (Inr r, s')" "find_intent (Db s) (AppendIntentID batch) = None" "Bus s = Some b" "bus_ok b"
    and "(i, a) \<in> set (Subscribers b)"
  shows "\<exists>b'. Bus s' = Some b' \<and> bus_ok b' \<and> Subscribers b' = Subscribers b \<and> BufferSize b' = BufferSize b
    \<and> Buffer (Heap b' a) = go_channel.last_n (nat (BufferSize b)) (Buffer (Heap b a) @ append_events batch r (clock env))"
proof -
  let ?es = "append_events batch r (clock env)" and ?n = "nat (BufferSize b)"
  from assms(1,2) obtain dig cs ws fs where p: "publishAppendEvents batch r (clock env) (s\<lparr>Db := Db s'\<rparr>) = Inr s'"
    by (rule Append_new_facts)
  have "Buffer (Heap b a) = go_channel.last_n ?n (Buffer (Heap b a))"
    using subscribed(4)[OF assms(4,5)] by (simp add: go_channel.last_n_def)
  then obtain b' where b': "foldR (\<lambda>b e. Publish e b) b ?es = Inr b'" "bus_ok b'" "Subscribers b' = Subscribers b" "BufferSize b' = BufferSize b"
    "Buffer (Heap b' a) = go_channel.last_n ?n (Buffer (Heap b a) @ ?es)"
    using publish_events_loop[OF assms(4), of ?es "Buffer (Heap b a)"] assms(5) by blast
  have "s\<lparr>Db := Db s', Bus := Some b'\<rparr> = s'" using p assms(3) b'(1) by (simp add: publishAppendEvents_def)
  from arg_cong[OF this, of Bus] have "Bus s' = Some b'" by simp
  with b' show ?thesis by blast
qed

lemma Append_old_same:
  assumes "Append lib env auth batch s = (res, s')" "isl res \<or> find_intent (Db s) (AppendIntentID batch) \<noteq> None"
    and "\<forall>b. Bus s = Some b \<longrightarrow> bus_ok b"
  shows "s' = s"
proof (cases res)
  case (Inl e)
  with Append_error_unchanged[of lib env auth batch s e s'] assms(1,3) show ?thesis by blast
next
  case (Inr r)
  with assms(2) obtain row where row: "find_intent (Db s) (AppendIntentID batch) = Some row" by auto
  have ap: "d = Db s \<and> \<not> new" if "appendInTx lib ctx batch (Db s) = Inr ((r', new), d)" for ctx r' new d
    using that row by (auto simp: appendInTx_def bindR_eq_Inr split: if_splits)
  with assms(1) Inr show ?thesis by (auto simp: Append_def Let_def dest!: ap split: sum.splits option.splits if_splits)
qed

section \<open>The stream and what was announced\<close>

text \<open>What was received and what is buffered is in the order of what was announced; the buffer holds its
  newest part; nothing is missing as long as no more was announced than the buffer can hold.\<close>

definition stream_ok :: "int \<Rightarrow> EffectEvent list \<Rightarrow> EffectEvent list \<Rightarrow> EffectEvent list \<Rightarrow> bool" where
  "stream_ok n got buf pub \<longleftrightarrow> subseq (got @ buf) pub \<and> suffix buf pub \<and> (length pub \<le> nat n \<longrightarrow> got @ buf = pub)"

lemma stream_ok_receive: "stream_ok n got (e # buf) pub \<Longrightarrow> stream_ok n (got @ [e]) buf pub"
  by (auto simp: stream_ok_def dest: suffix_ConsD)

lemma stream_ok_announce:
  assumes "stream_ok n got buf pub"
  shows "stream_ok n got (go_channel.last_n (nat n) (buf @ es)) (pub @ es)"
proof -
  let ?buf = "go_channel.last_n (nat n) (buf @ es)"
  have d: "suffix ?buf (buf @ es)" unfolding go_channel.last_n_def by (rule suffix_drop)
  have "subseq (got @ ?buf) (got @ (buf @ es))" by (rule list_emb_append_mono[OF subseq_order.order_refl suffix_imp_subseq[OF d]])
  moreover have "subseq ((got @ buf) @ es) (pub @ es)" using assms by (intro list_emb_append_mono) (simp_all add: stream_ok_def)
  ultimately have "subseq (got @ ?buf) (pub @ es)" using subseq_order.trans by fastforce
  moreover have "suffix (buf @ es) (pub @ es)" using assms by (simp add: stream_ok_def)
  then have "suffix ?buf (pub @ es)" using d suffix_order.trans by blast
  moreover have "got @ ?buf = pub @ es" if "length (pub @ es) \<le> nat n"
  proof -
    have eq: "got @ buf = pub" using that assms by (simp add: stream_ok_def)
    then have "length (buf @ es) \<le> nat n" using that by auto
    then show ?thesis using eq by (auto simp: go_channel.last_n_def)
  qed
  ultimately show ?thesis by (simp add: stream_ok_def)
qed

definition live_inv :: "golib \<Rightarrow> string \<Rightarrow> nat \<Rightarrow> int \<Rightarrow> live \<Rightarrow> bool" where
  "live_inv lib i a n l \<longleftrightarrow> store_inv lib (LiveStore l) \<and> set (Inputs l) \<subseteq> insert Tick (range ChannelEvent)
    \<and> (\<exists>b. Bus (LiveStore l) = Some b \<and> (i, a) \<in> set (Subscribers b) \<and> BufferSize b = n
        \<and> stream_ok n (received (Inputs l)) (Buffer (Heap b a)) (Announced l))
    \<and> EventRecordID ` set (Announced l) \<subseteq> row_ids (Db (LiveStore l))"

lemma row_ids_extends: "extends d d' \<Longrightarrow> row_ids d \<subseteq> row_ids d'"
  by (auto simp: extends_def)

lemma announced_ids: "length (FactIDs r) = length (batch_drafts batch) \<Longrightarrow> map EventRecordID (append_events batch r now) = FactIDs r"
  by (simp add: append_events_def event_of_def case_prod_beta comp_def)

text \<open>A step that leaves the records and the channel alone keeps the invariant, and so does one of the store that
  leaves the bus alone.\<close>

lemma live_inv_bus:
  assumes "live_inv lib i a n l" "Bus (LiveStore l) = Some b" "same_channel i a b b'"
  shows "live_inv lib i a n (l\<lparr>LiveStore := WithBus b' (LiveStore l)\<rparr>)"
  using assms by (auto simp: live_inv_def same_channel_def store_inv_def WithBus_def)

lemma live_inv_store:
  assumes "live_inv lib i a n l" "store_step lib (LiveStore l) s'" "Bus s' = Bus (LiveStore l)"
  shows "live_inv lib i a n (l\<lparr>LiveStore := s'\<rparr>)"
proof -
  have "store_inv lib s'" using store_step_inv[OF assms(2)] assms(1) by (simp add: live_inv_def)
  moreover have "EventRecordID ` set (Announced l) \<subseteq> row_ids (Db s')"
    using row_ids_extends[OF store_step_extends[OF assms(2)]] assms(1) unfolding live_inv_def by blast
  ultimately show ?thesis using assms(1,3) by (simp add: live_inv_def)
qed

lemma live_step_inv:
  assumes "live_step lib i a l l'" "live_inv lib i a n l"
  shows "live_inv lib i a n l'"
proof -
  obtain b where inv: "store_inv lib (LiveStore l)" "Bus (LiveStore l) = Some b" "(i, a) \<in> set (Subscribers b)" "BufferSize b = n"
    "stream_ok n (received (Inputs l)) (Buffer (Heap b a)) (Announced l)" "EventRecordID ` set (Announced l) \<subseteq> row_ids (Db (LiveStore l))"
    and ins: "set (Inputs l) \<subseteq> insert Tick (range ChannelEvent)"
    using assms(2) by (auto simp: live_inv_def)
  have ok: "bus_ok b" and db: "db_ok (Db (LiveStore l))" "root_unique lib" using inv(1,2) by (auto simp: store_inv_def)
  show ?thesis
    using assms(1)
  proof cases
    case (append env auth batch r s')
    let ?es = "append_events batch r (clock env)"
    from Append_announces[OF append(2,3) inv(2) ok inv(3)] obtain b' where b': "Bus s' = Some b'" "Subscribers b' = Subscribers b"
      "BufferSize b' = n" "Buffer (Heap b' a) = go_channel.last_n (nat n) (Buffer (Heap b a) @ ?es)" by (auto simp: inv(4))
    from append(2,3) obtain dig cs ws fs where w: "validateBatchShape batch = Inr ()"
      "prepareAppend lib (Db (LiveStore l)) batch (append_operation_context auth OpAppend) = Inr (cs, ws, fs, r)"
      "write_append batch dig (cs, ws, fs, r) (Db (LiveStore l)) = Inr (Db s')" by (rule Append_new_facts)
    from write_append_ok[OF w(2,1,3) db append(4)] have rows: "length (FactIDs r) = length (batch_drafts batch)"
      "row_ids (Db (LiveStore l)) \<subseteq> row_ids (Db s')" "set (FactIDs r) \<subseteq> row_ids (Db s')" by blast+
    have "EventRecordID ` set ?es = set (FactIDs r)" using announced_ids[OF rows(1), of "clock env"] by (metis list.set_map)
    with rows inv(6) have "EventRecordID ` set (Announced l @ ?es) \<subseteq> row_ids (Db s')" by (auto simp: image_Un)
    moreover have "store_inv lib s'" by (rule store_step_inv[OF store_step.append[OF append(2,4)] inv(1)])
    ultimately show ?thesis using b' inv(3) ins stream_ok_announce[OF inv(5), of ?es] unfolding append(1) by (simp add: live_inv_def)
  next
    case (old_append env auth batch res s')
    have "s' = LiveStore l" by (rule Append_old_same[OF old_append(2,3)]) (use inv(2) ok in auto)
    with assms(2) show ?thesis unfolding old_append(1) by simp
  next
    case (cut env auth spec out s')
    have "Bus s' = Bus (LiveStore l)" using PublishFrontier_db[OF cut(2)] by auto
    from live_inv_store[OF assms(2) store_step.publish[OF cut(2,3)] this] show ?thesis unfolding cut(1) .
  next
    case (side s')
    from live_inv_store[OF assms(2) side(2,4)] show ?thesis unfolding side(1) .
  next
    case tick
    with assms(2) show ?thesis by (simp add: live_inv_def)
  next
    case (event b1 e b')
    with inv(2) have b1: "Receive a b = (Some e, b')" by simp
    note r = Receive_ok[OF ok b1]
    have "stream_ok n (received (Inputs l @ [ChannelEvent e])) (Buffer (Heap b' a)) (Announced l)"
      using stream_ok_receive inv(5) r(5)[OF refl] by simp
    then show ?thesis using inv ins r(1-3) unfolding event(1) by (auto simp: live_inv_def store_inv_def WithBus_def)
  next
    case (other_event b1 c e b')
    with inv(2) have b1: "Receive c b = (e, b')" by simp
    have "same_channel i a b b'" using Receive_ok[OF ok b1] inv(3) other_event(4) by (auto simp: same_channel_def)
    from live_inv_bus[OF assms(2) inv(2) this] show ?thesis unfolding other_event(1) .
  next
    case (other_joins b1 j c b')
    with inv(2) have "Subscribe j b = Inr (c, b')" by simp
    from live_inv_bus[OF assms(2) inv(2) Subscribe_other[OF ok inv(3) this other_joins(4)]] show ?thesis unfolding other_joins(1) .
  next
    case (other_leaves b1 j b')
    with inv(2) have "Unsubscribe j b = Inr b'" by simp
    from live_inv_bus[OF assms(2) inv(2) Unsubscribe_other[OF ok inv(3) this other_leaves(4)]] show ?thesis unfolding other_leaves(1) .
  qed
qed

interpretation stream: invariant_system "live_step lib i a" "live_inv lib i a n"
  by unfold_locales (rule live_step_inv)

section \<open>Frames\<close>

abbreviation heartbeat :: string where
  "heartbeat \<equiv> '': heartbeat'' @ newline @ newline"

lemma stream_frames:
  assumes "set ins \<subseteq> insert Tick (range ChannelEvent)"
  shows "filter (\<lambda>f. f \<noteq> heartbeat) (stream_loop txt (ins @ [ClientGone]))
    = concat (map (\<lambda>e. stream_loop txt [ChannelEvent e]) (received ins))"
  using assms
proof (induction ins)
  case (Cons x ins)
  then show ?case
    by (cases x) (auto simp: received_def List.map_filter_simps split: sum.splits)
qed (simp add: received_def List.map_filter_simps)

lemma embedded_answer:
  assumes "Bus s = Some b" "bus_ok b"
  shows "\<exists>resp hello s'. handleEvents txt True seq ins (embedded s origins) h = Inr (resp, seq + 1, s')
    \<and> StatusCode resp = 200 \<and> RespBody resp = EventStream (hello # stream_loop txt ins)"
proof -
  let ?i = "''traceui-'' @ itoa (int seq)"
  obtain a b1 where b1: "Subscribe ?i b = Inr (a, b1)" "bus_ok b1" using Subscribe_ok[OF assms(2), of ?i] by blast
  obtain b2 where "Unsubscribe ?i b1 = Inr b2" using Unsubscribe_ok[OF b1(2), of ?i] by blast
  then show ?thesis using b1(1) assms(1) by (simp add: handleEvents_def embedded_def Let_def)
qed

section \<open>Properties\<close>

text \<open>C29: A live stream of the viewer embedded in the writer, whatever appends, retries, frontiers, other
  operations and other subscribers do between its receives: what it has received and what its channel
  still holds is, in order, part of what was announced since it subscribed; the channel holds the newest
  announcements; nothing is lost while no more was announced than the buffer holds; and every announced
  record is retained, so a client finds it in the store.  When the client leaves, the answer of
  \<open>handleEvents\<close> has been the hello and, apart from heartbeats, the frames of the events received.\<close>

theorem live_stream_delivers:
  assumes "reachable lib s" "root_unique lib" "Bus s = Some b" "\<not> BusClosed b"
    and "i = ''traceui-'' @ itoa (int seq)" "Subscribe i b = Inr (a, b1)"
    and "(live_step lib i a)\<^sup>*\<^sup>* \<lparr>LiveStore = WithBus b1 s, Inputs = [], Announced = []\<rparr> l"
  shows "\<exists>b' resp hello frames svc. Bus (LiveStore l) = Some b' \<and> subseq (received (Inputs l) @ Buffer (Heap b' a)) (Announced l)
    \<and> suffix (Buffer (Heap b' a)) (Announced l)
    \<and> (length (Announced l) \<le> nat (BufferSize b) \<longrightarrow> received (Inputs l) @ Buffer (Heap b' a) = Announced l)
    \<and> EventRecordID ` set (Announced l) \<subseteq> row_ids (Db (LiveStore l))
    \<and> handleEvents txt True seq (Inputs l @ [ClientGone]) (embedded s origins) h = Inr (resp, seq + 1, svc)
    \<and> RespBody resp = EventStream (hello # frames)
    \<and> filter (\<lambda>f. f \<noteq> heartbeat) frames = concat (map (\<lambda>e. stream_loop txt [ChannelEvent e]) (received (Inputs l)))"
proof -
  have inv: "store_inv lib s" using reachable_inv[OF assms(1,2)] .
  then have ok: "bus_ok b" using assms(3) by (simp add: store_inv_def)
  from Subscribe_ok[OF ok, of i] assms(6) have b1: "bus_ok b1" "Buffer (Heap b1 a) = []" by auto
  have "(i, a) \<in> set (Subscribers b1)" "BufferSize b1 = BufferSize b"
    using assms(4,6) by (auto simp: Subscribe_def Let_def bindR_eq_Inr)
  then have "live_inv lib i a (BufferSize b) \<lparr>LiveStore = WithBus b1 s, Inputs = [], Announced = []\<rparr>"
    using inv b1 by (simp add: live_inv_def store_inv_def WithBus_def stream_ok_def)
  from stream.steps_inv[OF assms(7) this] obtain b' where b': "Bus (LiveStore l) = Some b'"
    "stream_ok (BufferSize b) (received (Inputs l)) (Buffer (Heap b' a)) (Announced l)"
    "EventRecordID ` set (Announced l) \<subseteq> row_ids (Db (LiveStore l))" and ins: "set (Inputs l) \<subseteq> insert Tick (range ChannelEvent)"
    by (auto simp: live_inv_def)
  obtain resp hello svc where "handleEvents txt True seq (Inputs l @ [ClientGone]) (embedded s origins) h = Inr (resp, seq + 1, svc)"
    "RespBody resp = EventStream (hello # stream_loop txt (Inputs l @ [ClientGone]))" using embedded_answer[OF assms(3) ok] by blast
  with b' stream_frames[OF ins, of "txt"] show ?thesis unfolding stream_ok_def by blast
qed

text \<open>The first scenario with a bus and one stream: the append is announced and waits in the channel.\<close>

theorem live_stream_delivers_witness:
  "\<exists>b a b1 l b'. Subscribe ''traceui-1'' b = Inr (a, b1)
    \<and> (live_step demo_lib ''traceui-1'' a)\<^sup>*\<^sup>* \<lparr>LiveStore = WithBus b1 (WithBus b demo_store), Inputs = [], Announced = []\<rparr> l
    \<and> Bus (LiveStore l) = Some b' \<and> Buffer (Heap b' a) = Announced l \<and> length (Announced l) = 1
    \<and> EventRecordID ` set (Announced l) \<subseteq> row_ids (Db (LiveStore l))"
proof -
  let ?i = "''traceui-1''" and ?b = "NewEffectBus 1" and ?s = "WithBus (NewEffectBus 1) demo_store"
  obtain a b1 where b1: "Subscribe ?i ?b = Inr (a, b1)" "bus_ok b1" using Subscribe_ok[OF NewEffectBus_ok, of ?i 1] by blast
  obtain dig c wp i where i: "demo_ids demo_lib c wp i" "batchDigest demo_lib demo_batch demo_ctx = Inr dig"
    by (rule demo_append[OF demo_lib_ok(1,2)])
  let ?s1 = "WithBus b1 ?s" and ?es = "append_events demo_batch (demo_receipt c i) (clock demo_env)"
  obtain s' where "publishAppendEvents demo_batch (demo_receipt c i) (clock demo_env) (?s1\<lparr>Db := demo_db demo_lib dig c wp i\<rparr>) = Inr s'"
    using publishAppendEvents_ok[of "?s1\<lparr>Db := demo_db demo_lib dig c wp i\<rparr>" demo_batch "demo_receipt c i" "clock demo_env"]
      b1(2) by (auto simp: WithBus_def)
  then have ap: "Append demo_lib demo_env TrustedAppendContext demo_batch ?s1 = (Inr (demo_receipt c i), s')"
    using demo_in_tx[OF i] by (simp add: Append_def demo_valid Let_def WithBus_def) (simp add: demo_env_def)
  have fresh: "find_intent (Db ?s1) (AppendIntentID demo_batch) = None" using demo_fresh by (simp add: WithBus_def)
  let ?start = "\<lparr>LiveStore = ?s1, Inputs = [], Announced = []\<rparr>" and ?fin = "\<lparr>LiveStore = s', Inputs = [], Announced = ?es\<rparr>"
  have "live_step demo_lib ?i a ?start ?fin" using live_step.append[where l = ?start and i = ?i and a = a, simplified, OF ap fresh demo_owner] by simp
  then have run: "(live_step demo_lib ?i a)\<^sup>*\<^sup>* ?start ?fin" by (rule r_into_rtranclp)
  have "store_step demo_lib demo_store ?s" by (rule store_step.bus[OF NewEffectBus_ok])
  then have r: "reachable demo_lib ?s" unfolding reachable_def by (simp add: new_store_def demo_store_def createSchema_def empty_db_def r_into_rtranclp)
  have len: "length ?es = 1" using arg_cong[OF announced_ids[of "demo_receipt c i" demo_batch "clock demo_env"], of length]
    by (simp add: demo_receipt_def batch_drafts_def demo_defs)
  have sub: "?i = ''traceui-'' @ itoa (int 1)" by (simp add: itoa_def dec_of_nat.simps dec_digit_def, code_simp)
  have "Bus ?s = Some ?b" "\<not> BusClosed ?b" "nat (BufferSize ?b) = 1" by (simp_all add: WithBus_def NewEffectBus_def)
  from live_stream_delivers[OF r demo_lib_ok(3) this(1,2) sub b1(1) run] this(3) len obtain b' where "Bus s' = Some b'"
    "Buffer (Heap b' a) = ?es" "EventRecordID ` set ?es \<subseteq> row_ids (Db s')"
    by simp blast
  then show ?thesis using b1(1) run len by (intro exI[of _ ?b] exI[of _ a] exI[of _ b1] exI[of _ ?fin] exI[of _ b']) simp
qed

text \<open>The record of a published frontier is retained without an announcement: publishing leaves the bus alone.\<close>

lemma cuts_unannounced: "PublishFrontier lib env auth spec s = (out, s') \<Longrightarrow> Bus s' = Bus s"
  using PublishFrontier_db by fastforce

end
