(* ===== verification/Spec2Isabelle.thy ===== *)
theory Spec2Isabelle
  imports History_Store Viewer_Properties Canonical_Heap Event_Slices Viewer_Stream
begin

text \<open>
  The shepherd kernel in Go: an append-only, content-addressed trace store over SQLite, the
  canonical encoding its ids are digests of, a bus that announces appended records, the
  projections that read executions back from the trace, and a read-only viewer.

  \<^bold>\<open>How the program fits together.\<close>  A caller hands \<open>Append\<close> (\<open>src/store_append.go\<close>) a batch of groups of
  drafts.  The batch is validated and digested (\<open>src/canonical.go\<close>); one transaction looks its
  intent up, and for a new intent resolves each group's context (\<open>src/store_context.go\<close>), plans
  its witness records (\<open>src/store_witness.go\<close>), gives every draft an id, an ordinal on its owner's path and a
  commit number, and writes the rows (\<open>src/store_record.go\<close>, \<open>src/store_json.go\<close>,
  \<open>src/store_schema.go\<close>).  After the commit the records are published on the bus (\<open>src/bus.go\<close>).
  Readers take slices (\<open>src/store_read.go\<close>): a prefix of a path, a causal closure, or the prefix a published
  frontier names (\<open>src/store_frontier.go\<close>).  Executions, their relations and their effective history are folds
  over slices (\<open>src/execution.go\<close>, \<open>src/relations.go\<close>, \<open>src/history.go\<close>).  Two side tables keep completed
  materializations and checkpoint blobs.  The viewer (\<open>src/traceui\<close>) answers HTTP requests from reads.

  \<^bold>\<open>Theories and sources.\<close>
  \<^item> \<open>Kernel_Prelude\<close>, \<open>Go_Utf8\<close>, \<open>Go_Values\<close>, \<open>Go_Json\<close>: byte strings, UTF-8, Go values and errors, decimal numerals,
    and what \<open>encoding/json\<close> writes and reads.  Errors are values of \<open>kerror\<close> in a sum type, chained
    by \<open>bindR\<close>; a panic is the error \<open>Panic\<close>.  A Go slice that may be nil is an option of a list, and a map of
    \<open>any\<close> an option of an association list, so the place of a nil is kept.
  \<^item> \<open>Canonical_Number\<close>, \<open>Canonical_String\<close>, \<open>Canonical_Json\<close>, \<open>Canonical_Unique\<close>, \<open>Canonical_Record\<close>:
    \<open>canonical.go\<close>.  The writer by kind of value, the document it denotes (\<open>canonical_tree\<close>), unique readability,
    the digests.  In these theories a value is a finite tree; \<open>Canonical_Heap\<close> runs the writer with its cycle
    check (\<open>enterContainer\<close>, \<open>leaveContainer\<close>) on a heap of slices, maps and pointers.
  \<^item> \<open>Trace_Types\<close>, \<open>Ordered_Map\<close>, \<open>Effect_Bus\<close>: \<open>types.go\<close>, \<open>effect.go\<close>, \<open>store_json.go\<close>, \<open>bus.go\<close>.
  \<^item> \<open>Store_Db\<close>, \<open>Store_Context\<close>, \<open>Store_Record\<close>, \<open>Store_Witness\<close>: \<open>store_schema.go\<close> and \<open>store.go\<close> (a table is the
    list of its rows in insertion order; an insert checks the primary key and the uniqueness
    constraints), \<open>store_context.go\<close>, \<open>store_record.go\<close>, \<open>store_witness.go\<close>.
  \<^item> \<open>Store_Append\<close>, \<open>Append_Staging\<close>, \<open>Append_Effect\<close>, \<open>Append_Laws\<close>, \<open>Append_Rows\<close>, \<open>Append_Progress\<close>,
    \<open>Append_Scenario\<close>, \<open>Append_Properties\<close>: \<open>store_append.go\<close>.  \<open>Event_Slices\<close>: the loop of \<open>publishAppendEvents\<close> over
    slice headers that may share backing arrays.
  \<^item> \<open>Store_Read\<close>, \<open>Store_Invariant\<close>, \<open>Read_Laws\<close>, \<open>Read_Properties\<close>: \<open>store_read.go\<close>.
  \<^item> \<open>Store_Frontier\<close>, \<open>Frontier_Laws\<close>, \<open>Frontier_Properties\<close>, \<open>Frontier_Scenario\<close>: \<open>store_frontier.go\<close>.
  \<^item> \<open>Store_Ledger\<close>: \<open>materialization_ledger.go\<close>, \<open>materialization_types.go\<close>, \<open>checkpoint_blob.go\<close>,
    \<open>workspace_state.go\<close>.
  \<^item> \<open>Store_Steps\<close>, \<open>Store_Properties\<close>: the store as a transition system, one step a public operation
    that changes it.
  \<^item> \<open>Trace_Execution\<close>, \<open>Trace_History\<close>, \<open>Execution_Laws\<close>, \<open>Execution_Store\<close>, \<open>Execution_Scenario\<close>,
    \<open>Execution_Properties\<close>, \<open>History_Properties\<close>, \<open>History_Store\<close>: \<open>schema_library.go\<close>, \<open>execution.go\<close>, \<open>relations.go\<close>, \<open>history.go\<close>.
  \<^item> \<open>Trace_Viewer\<close>, \<open>Viewer_Properties\<close>: \<open>traceui/service.go\<close>, \<open>traceui/records.go\<close>, \<open>traceui/events.go\<close>,
    \<open>cmd/traceui/main.go\<close>.  \<open>Viewer_Stream\<close>: the viewer embedded in the writer, one bus for both, as a transition
    system (\<open>live_step\<close>) of the store, the other subscribers and one stream.

  \<^bold>\<open>What the lemmas show.\<close>
  \<^item> Encoding: the writer prints exactly one document, its output is uniquely readable, the number
    scanner accepts the JSON grammar, so a record id determines the content of its record.  On the
    heap the writer returns and leaves every container it enters; a finite value is written as the tree it unfolds
    to, however its parts are shared, unless a container holds one at its own data pointer (\<open>holds_own_start\<close>),
    which is refused; pointers that lead to themselves overflow the stack.
  \<^item> Append: atomic, idempotent for a retried batch, refuses another batch under a used intent; extends
    each owner's log by the ids it returns and numbers commits and ordinals without gaps; the
    preview names the same ids; committed records reach the bus in order.  The causal parents of the events are
    those of the functional model as long as the caller's slices have no spare room; with room, the last
    draft's causes overwrite those of the others.
  \<^item> Bus: operations keep it well formed and never panic; publishing keeps the newest events; in every
    infinite run that is fair to it (\<open>pub_run\<close>, \<open>pub_fair\<close>) a lone publisher delivers, and never blocks; two
    concurrent ones may drop the newest.  A live stream delivers what the
    store announces, in order, and every announced record is retained.
  \<^item> Store invariant: \<open>db_ok\<close> (rows scan back, paths are numbered from zero, parents are retained and
    earlier) and \<open>witnessed\<close> (witness references are retained); every step keeps them, the trace tables only
    grow (the locales \<open>invariant_system\<close> and \<open>growing_system\<close>, interpreted on \<open>store_step\<close>).
  \<^item> Reads: on such a store a prefix read and a causal closure never fail and return the prefix of the
    log and the set of ancestors; slices account for every parent, hide payloads by profile, and are closed
    under witness references.
  \<^item> Frontiers: a published frontier resolves to the prefix it was cut at, and to the same facts in
    every later store.
  \<^item> Projections: the folds compute the reference reading of an owner's log (the last fact that speaks
    of a field decides it); completing an execution changes just its outcome; a recorded relation is read
    back; effective histories are well typed, are the reference reading of the run tree below their
    frontier (\<open>history_of\<close>), and never change; the viewer lists the logs.

  \<^bold>\<open>Interfaces.\<close>  \<open>string_escaper\<close> and \<open>symbol_code\<close> (the two string flavours), \<open>event_channel\<close> (the buffered channel
  under the bus), \<open>ordered_map\<close> (a Go map with an insertion order), \<open>keyed_table\<close> (a table with a primary
  key), \<open>invariant_system\<close> (the steps of the store, and those of the store with a live stream) and
  \<open>growing_system\<close>, and \<open>second_append\<close> (a plain draft under a fresh intent, the scenario of several witnesses).  Each is interpreted on the definitions of the model in the theory
  that provides them.

  \<^bold>\<open>Parameters and hypotheses.\<close>  \<open>golib\<close> holds what is not under \<open>src\<close>: \<open>strconv\<close>'s shortest digits and SHA-256.
  \<open>lib_ok\<close> says that parsed floats have normalised digits; \<open>inj (sha256 lib)\<close>, where a statement speaks of ids,
  idealises collision resistance; \<open>root_unique\<close>, the one consequence the store invariant needs, says that no
  ordinary witness has the id of the root witness.  Witnesses use \<open>demo_lib\<close>, whose digest is the
  identity.  A query, a transaction or a commit the driver may fail is an argument (\<open>tx_env\<close>, an optional error);
  time is an argument.  Steps append to owners other than \<open>kernel:witness\<close>, the path the store writes itself.

  \<^bold>\<open>Bounds and termination.\<close>  Only the writer on the heap uses fuel, the depth of the stack it may use
  (\<open>heap_write\<close>, \<open>None\<close> when it overflows): more of it changes no result, and \<open>canonical_writer_returns\<close> shows that
  some depth is enough on every heap whose pointers lead to the ground.  The others terminate as they stand: the closure of a read ends because its frontier
  of unseen records shrinks (\<open>closure_loop\<close>), the walk over witness references because its seen set grows
  (\<open>chain_loop\<close>), the writers because a value is a finite tree.  Ordinals and commit numbers are integers
  with the bounds of a Go \<open>int\<close> stated; sequence numbers of checkpoints are 64-bit words.

  \<^bold>\<open>Not modelled.\<close> \<open>Close\<close>, \<open>q\<close> and \<open>readFrontierRow\<close>, which pass the driver's handle or row on; the exact text
  of wrapped errors; an iteration over rows that the driver breaks off in the middle (a query fails or gives all
  its rows), and a failure of the query that re-reads a ledger row after its insert; slices of an array that is
  an element of another slice's array; the short escapes of backspace and form feed of an \<open>encoding/json\<close> newer
  than the \<open>go 1.21\<close> of \<open>go.mod\<close>; sharing between Go values other than in the cycle check and in the parents of
  events; concurrent writers other than publishers (SQLite serialises transactions); path cleaning in
  \<open>net/http\<close>'s mux, flushes and the clock of a stream's heartbeat; listening and logging in
  \<open>cmd/traceui/main.go\<close>; \<open>testkit/vectors.go\<close>, the fields and the loader of a fixture that only tests read.
\<close>

end
